(* ===== verification/Cmuquic_Prelude.thy ===== *)
theory Cmuquic_Prelude
  imports Main "HOL-Library.Word" "HOL-Library.AList"
begin

text \<open>
  Shared vocabulary of the development.

  \<^item> \<open>abort\<close> lists the ways a run of the C++ program ends abnormally: a failed CHECK, a
    \<open>LOG(FATAL)\<close>, a null dereference, and a use of a node that has been erased. A step that
    can end so returns \<open>'a res\<close>, a sum with the abort on the left. DCHECKs are compiled out of
    a release build, so the model does not branch on them; where they matter they are theorems.
  \<^item> \<open>'a outcome\<close> adds non-termination: \<open>None\<close> is a loop that never returns.
  \<^item> \<open>rbind\<close> and \<open>obind\<close> sequence such steps.
  \<^item> Machine integers: event masks are \<open>32 word\<close>; the 64-bit and 32-bit signed C++ integers
    are \<open>int\<close> with the wrap-around (\<open>int64_of\<close>, \<open>int32_of\<close>) written where it can occur.
  \<^item> The hash containers are association lists with distinct keys; \<open>map_of\<close> is their lookup.
\<close>

named_theorems res_simps \<open>rewrite rules of the result types\<close>
named_theorems res_elims \<open>inversion of sequencing in assumptions\<close>

datatype abort =
    Check_failed string
  | Log_fatal string
  | Null_deref
  | Dangling

type_synonym 'a res = "abort + 'a"
type_synonym 'a outcome = "(abort + 'a) option"
type_synonym mask = "32 word"

definition rbind :: "'e + 'a \<Rightarrow> ('a \<Rightarrow> 'e + 'b) \<Rightarrow> 'e + 'b" where
  "rbind m f = (case m of Inl e \<Rightarrow> Inl e | Inr x \<Rightarrow> f x)"

lemma rbind_simps [simp, res_simps]:
  "rbind (Inl e) f = Inl e"
  "rbind (Inr x) f = f x"
  by (simp_all add: rbind_def)

lemma rbind_eq_Inr [res_simps]: "rbind m f = Inr y \<longleftrightarrow> (\<exists>x. m = Inr x \<and> f x = Inr y)"
  by (cases m) auto

lemma rbind_InrE [res_elims]:
  assumes "rbind m f = Inr y"
  obtains x where "m = Inr x" and "f x = Inr y"
  using assms by (cases m) auto

lemma rbind_assoc: "rbind (rbind m f) g = rbind m (\<lambda>x. rbind (f x) g)"
  by (cases m) auto

definition obind :: "'a outcome \<Rightarrow> ('a \<Rightarrow> 'b outcome) \<Rightarrow> 'b outcome" where
  "obind m f = Option.bind m (\<lambda>r. case r of Inl e \<Rightarrow> Some (Inl e) | Inr x \<Rightarrow> f x)"

lemma obind_simps [simp, res_simps]:
  "obind None f = None"
  "obind (Some (Inl e)) f = Some (Inl e)"
  "obind (Some (Inr x)) f = f x"
  by (simp_all add: obind_def)

lemma obind_eq_Inr [res_simps]:
  "obind m f = Some (Inr y) \<longleftrightarrow> (\<exists>x. m = Some (Inr x) \<and> f x = Some (Inr y))"
proof (cases m)
  case (Some r)
  then show ?thesis by (cases r) auto
qed simp

lemma obind_assoc: "obind (obind r f) g = obind r (\<lambda>x. obind (f x) g)"
  by (cases r) (auto simp: obind_def split: sum.splits)

subsection \<open>Deliberate and accidental aborts\<close>

text \<open>
  \<open>LOG(FATAL)\<close> and CHECK are the program's own decision to stop; the other aborts are undefined
  behaviour. \<open>returns_ok P r\<close>: the run ends, with a result that satisfies \<open>P\<close> or a deliberate stop.
\<close>

fun benign :: "abort \<Rightarrow> bool" where
  "benign Dangling = False"
| "benign Null_deref = False"
| "benign (Log_fatal _) = True"
| "benign (Check_failed _) = True"

definition returns_ok :: "('a \<Rightarrow> bool) \<Rightarrow> 'a outcome \<Rightarrow> bool" where
  "returns_ok P r \<longleftrightarrow> (\<exists>x. r = Some x \<and> (case x of Inl e \<Rightarrow> benign e | Inr y \<Rightarrow> P y))"

lemma returns_ok_simps [simp]:
  "returns_ok P (Some (Inr y)) = P y" "returns_ok P (Some (Inl e)) = benign e" "\<not> returns_ok P None"
  by (auto simp: returns_ok_def)

lemma returns_okE:
  assumes "returns_ok P r"
  obtains (abort) e where "r = Some (Inl e)" "benign e" | (result) y where "r = Some (Inr y)" "P y"
proof -
  from assms obtain x where "r = Some x" "case x of Inl e \<Rightarrow> benign e | Inr y \<Rightarrow> P y"
    by (auto simp: returns_ok_def)
  then show ?thesis using that by (cases x) auto
qed

lemma returns_ok_obind:
  assumes "returns_ok P r" "\<And>y. P y \<Longrightarrow> returns_ok Q (f y)"
  shows "returns_ok Q (obind r f)"
  using assms(1) by (cases rule: returns_okE) (use assms(2) in auto)

lemma returns_ok_mono: "returns_ok P r \<Longrightarrow> (\<And>y. P y \<Longrightarrow> Q y) \<Longrightarrow> returns_ok Q r"
  by (auto simp: returns_ok_def split: sum.splits)

lemma returns_ok_conj:
  assumes "returns_ok P r" "\<And>y. r = Some (Inr y) \<Longrightarrow> Q y"
  shows "returns_ok (\<lambda>y. P y \<and> Q y) r"
  using assms(1) by (cases rule: returns_okE) (use assms(2) in auto)

lemma returns_ok_result: "(case r of Inl e \<Rightarrow> benign e | Inr y \<Rightarrow> P y) \<Longrightarrow> returns_ok P (Some r)"
  by (simp add: returns_ok_def)

subsection \<open>Signed machine integers\<close>

definition int64_of :: "int \<Rightarrow> int" where
  "int64_of x = signed_take_bit 63 x"

definition int32_of :: "int \<Rightarrow> int" where
  "int32_of x = signed_take_bit 31 x"

definition in_int64 :: "int \<Rightarrow> bool" where
  "in_int64 x \<longleftrightarrow> - (2 ^ 63) \<le> x \<and> x < 2 ^ 63"

definition in_int32 :: "int \<Rightarrow> bool" where
  "in_int32 x \<longleftrightarrow> - (2 ^ 31) \<le> x \<and> x < 2 ^ 31"

lemma int64_of_id [simp]: "in_int64 x \<Longrightarrow> int64_of x = x"
  by (simp add: in_int64_def int64_of_def signed_take_bit_int_eq_self_iff)

lemma int32_of_id [simp]: "in_int32 x \<Longrightarrow> int32_of x = x"
  by (simp add: in_int32_def int32_of_def signed_take_bit_int_eq_self_iff)

subsection \<open>Association lists with distinct keys\<close>

definition keys_distinct :: "('k \<times> 'v) list \<Rightarrow> bool" where
  "keys_distinct xs \<longleftrightarrow> distinct (map fst xs)"

lemma keys_distinct_simps [simp]:
  "keys_distinct []"
  "keys_distinct ((k, v) # xs) \<longleftrightarrow> map_of xs k = None \<and> keys_distinct xs"
  by (auto simp: keys_distinct_def map_of_eq_None_iff)

lemma keys_distinct_delete [simp]: "keys_distinct xs \<Longrightarrow> keys_distinct (AList.delete k xs)"
  by (simp add: keys_distinct_def distinct_delete)

lemma map_of_delete [simp]: "map_of (AList.delete k xs) = (map_of xs)(k := None)"
  by (simp add: delete_conv')

lemma keys_distinct_snoc:
  "keys_distinct (xs @ [(k, v)]) \<longleftrightarrow> map_of xs k = None \<and> keys_distinct xs"
  by (auto simp: keys_distinct_def map_of_eq_None_iff)

lemma map_of_snoc: "map_of xs k = None \<Longrightarrow> map_of (xs @ [(k, v)]) = (map_of xs)(k \<mapsto> v)"
  by (induction xs) (auto simp: fun_eq_iff split: if_splits)

lemma delete_absent: "map_of xs k = None \<Longrightarrow> AList.delete k xs = xs"
  by (simp add: delete_idem map_of_eq_None_iff)

lemma delete_append: "AList.delete k (xs @ ys) = AList.delete k xs @ AList.delete k ys"
  by (simp add: AList.delete_eq)

lemma length_delete_less:
  "map_of xs k = Some v \<Longrightarrow> length (AList.delete k xs) < length xs"
proof (induction xs)
  case (Cons x xs)
  have "length (AList.delete k xs) \<le> length xs" by (rule length_delete_le)
  with Cons show ?case by (cases x) (auto split: if_splits)
qed simp

lemma int_length_pred [simp]: "xs \<noteq> [] \<Longrightarrow> int (length xs - Suc 0) = int (length xs) - 1"
  by (cases xs) auto

subsection \<open>Counting up in words\<close>

lemma unat_add_one:
  fixes i n :: "'a::len word"
  assumes "i < n"
  shows "unat (i + 1) = Suc (unat i)"
proof -
  have "unat n < 2 ^ LENGTH('a)" by (rule unsigned_less)
  moreover have "unat (1 :: 'a word) = 1" by simp
  ultimately have "unat i + unat (1 :: 'a word) < 2 ^ LENGTH('a)"
    using assms unfolding word_less_nat_alt by linarith
  then have "unat (i + 1) = unat i + unat (1 :: 'a word)" by (simp only: unat_add_lem)
  then show ?thesis by simp
qed

end
