(* ===== verification/Ready_List.thy ===== *)
theory Ready_List
  imports Cmuquic_Prelude
begin

text \<open>
  The intrusive ready list of \<open>EpollServer\<close> (net/tools/epoll_server/epoll_server.cc and .h).

  A \<open>CBAndEventMask\<close> node lives in a store indexed by addresses; an erased node has no entry, and
  touching one is \<open>Dangling\<close>. The links \<open>le_next\<close> and \<open>le_prev\<close> are those of the BSD LIST
  macros: \<open>le_prev\<close> is the address of the pointer that points to the node, one of the two list
  heads or the \<open>le_next\<close> of another node (\<open>slot\<close>), and it doubles as the flag "is on a list".
  The second half relates the pointer structure to a pair of lists (\<open>rl_view\<close>) and shows that
  every operation implements the obvious operation on them.
\<close>

type_synonym addr = nat

datatype slot = Ready_first | Tmp_first | Next_of addr

record 'cb CBAndEventMask =
  ce_cb :: "'cb option"
  ce_fd :: int
  ce_event_mask :: mask
  ce_events_asserted :: mask
  ce_events_to_fake :: mask
  ce_in_use :: bool
  le_next :: "addr option"
  le_prev :: "slot option"

text \<open>The three-argument constructor.\<close>

definition mk_CBAndEventMask :: "'cb option \<Rightarrow> mask \<Rightarrow> int \<Rightarrow> 'cb CBAndEventMask" where
  "mk_CBAndEventMask c m f =
     \<lparr>ce_cb = c, ce_fd = f, ce_event_mask = m, ce_events_asserted = 0, ce_events_to_fake = 0,
      ce_in_use = False, le_next = None, le_prev = None\<rparr>"

record 'cb ready_lists =
  nodes :: "addr \<rightharpoonup> 'cb CBAndEventMask"
  ready_first :: "addr option"
  tmp_first :: "addr option"
  ready_list_size :: int

subsection \<open>Pointers\<close>

definition deref :: "addr \<Rightarrow> ('cb, 'z) ready_lists_scheme \<Rightarrow> 'cb CBAndEventMask res" where
  "deref a s = (case nodes s a of None \<Rightarrow> Inl Dangling | Some n \<Rightarrow> Inr n)"

definition upd_node ::
  "addr \<Rightarrow> ('cb CBAndEventMask \<Rightarrow> 'cb CBAndEventMask) \<Rightarrow>
   ('cb, 'z) ready_lists_scheme \<Rightarrow> ('cb, 'z) ready_lists_scheme res" where
  "upd_node a f s = rbind (deref a s) (\<lambda>n. Inr (s\<lparr>nodes := (nodes s)(a \<mapsto> f n)\<rparr>))"

fun read_slot :: "slot \<Rightarrow> ('cb, 'z) ready_lists_scheme \<Rightarrow> addr option res" where
  "read_slot Ready_first s = Inr (ready_first s)"
| "read_slot Tmp_first s = Inr (tmp_first s)"
| "read_slot (Next_of a) s = rbind (deref a s) (\<lambda>n. Inr (le_next n))"

fun write_slot ::
  "slot \<Rightarrow> addr option \<Rightarrow> ('cb, 'z) ready_lists_scheme \<Rightarrow> ('cb, 'z) ready_lists_scheme res" where
  "write_slot Ready_first p s = Inr (s\<lparr>ready_first := p\<rparr>)"
| "write_slot Tmp_first p s = Inr (s\<lparr>tmp_first := p\<rparr>)"
| "write_slot (Next_of a) p s = upd_node a (\<lambda>n. n\<lparr>le_next := p\<rparr>) s"

subsection \<open>The LIST macros of sys/queue.h\<close>

definition LIST_INSERT_HEAD ::
  "slot \<Rightarrow> addr \<Rightarrow> ('cb, 'z) ready_lists_scheme \<Rightarrow> ('cb, 'z) ready_lists_scheme res" where
  "LIST_INSERT_HEAD head a s =
     rbind (read_slot head s) (\<lambda>first.
     rbind (upd_node a (\<lambda>n. n\<lparr>le_next := first\<rparr>) s) (\<lambda>s.
     rbind (case first of
              None \<Rightarrow> Inr s
            | Some b \<Rightarrow> upd_node b (\<lambda>n. n\<lparr>le_prev := Some (Next_of a)\<rparr>) s) (\<lambda>s.
     rbind (write_slot head (Some a) s) (\<lambda>s.
     upd_node a (\<lambda>n. n\<lparr>le_prev := Some head\<rparr>) s))))"

definition LIST_REMOVE ::
  "addr \<Rightarrow> ('cb, 'z) ready_lists_scheme \<Rightarrow> ('cb, 'z) ready_lists_scheme res" where
  "LIST_REMOVE a s =
     rbind (deref a s) (\<lambda>n.
     rbind (case le_next n of
              None \<Rightarrow> Inr s
            | Some b \<Rightarrow> upd_node b (\<lambda>m. m\<lparr>le_prev := le_prev n\<rparr>) s) (\<lambda>s.
     case le_prev n of
       None \<Rightarrow> Inl Null_deref
     | Some sl \<Rightarrow> write_slot sl (le_next n) s))"

subsection \<open>AddToReadyList, RemoveFromReadyList, VerifyReadyList\<close>

definition AddToReadyList ::
  "addr \<Rightarrow> ('cb, 'z) ready_lists_scheme \<Rightarrow> ('cb, 'z) ready_lists_scheme res" where
  "AddToReadyList a s =
     rbind (deref a s) (\<lambda>n.
     if le_prev n = None
     then rbind (LIST_INSERT_HEAD Ready_first a s) (\<lambda>s.
            Inr (s\<lparr>ready_list_size := ready_list_size s + 1\<rparr>))
     else Inr s)"

definition RemoveFromReadyList ::
  "addr \<Rightarrow> ('cb, 'z) ready_lists_scheme \<Rightarrow> ('cb, 'z) ready_lists_scheme res" where
  "RemoveFromReadyList a s =
     rbind (deref a s) (\<lambda>n.
     if le_prev n \<noteq> None
     then rbind (LIST_REMOVE a s) (\<lambda>s.
          rbind (upd_node a (\<lambda>n. n\<lparr>le_prev := None\<rparr>) s) (\<lambda>s.
          Inr (s\<lparr>ready_list_size := ready_list_size s - 1\<rparr>)))
     else Inr s)"

text \<open>
  The swap at the head of \<open>CallReadyListCallbacks\<close>: the two head pointers are exchanged and the
  first node, if any, is told that its predecessor is now \<open>tmp_list_\<close>.
\<close>

definition swap_lists ::
  "('cb, 'z) ready_lists_scheme \<Rightarrow> ('cb, 'z) ready_lists_scheme res" where
  "swap_lists s =
     (let s = s\<lparr>ready_first := tmp_first s, tmp_first := ready_first s\<rparr>
      in case tmp_first s of
           None \<Rightarrow> Inr s
         | Some a \<Rightarrow> upd_node a (\<lambda>n. n\<lparr>le_prev := Some Tmp_first\<rparr>) s)"

text \<open>The counting loops of \<open>VerifyReadyList\<close>; a cyclic list would make them run forever.\<close>

partial_function (option) count_from ::
  "addr option \<Rightarrow> int \<Rightarrow> ('cb, 'z) ready_lists_scheme \<Rightarrow> int outcome" where
  "count_from p count s =
     (case p of
        None \<Rightarrow> Some (Inr count)
      | Some a \<Rightarrow> (case deref a s of
                      Inl e \<Rightarrow> Some (Inl e)
                    | Inr n \<Rightarrow> count_from (le_next n) (count + 1) s))"

definition VerifyReadyList :: "('cb, 'z) ready_lists_scheme \<Rightarrow> unit outcome" where
  "VerifyReadyList s =
     obind (count_from (ready_first s) 0 s) (\<lambda>count.
     obind (count_from (tmp_first s) count s) (\<lambda>count.
     if ready_list_size s = count then Some (Inr ())
     else Some (Inl (Check_failed ''Ready list size does not match count''))))"

section \<open>The pointers represent two lists\<close>

text \<open>
  \<open>dll h sl p xs\<close>: starting from pointer value \<open>p\<close>, stored in slot \<open>sl\<close>, the nodes \<open>xs\<close> are
  chained by \<open>le_next\<close>, end in NULL, and each \<open>le_prev\<close> names the slot that points to its node.
\<close>

fun dll :: "(addr \<rightharpoonup> 'cb CBAndEventMask) \<Rightarrow> slot \<Rightarrow> addr option \<Rightarrow> addr list \<Rightarrow> bool" where
  "dll h sl p [] \<longleftrightarrow> p = None"
| "dll h sl p (a # as) \<longleftrightarrow> p = Some a \<and>
     (case h a of
        None \<Rightarrow> False
      | Some n \<Rightarrow> le_prev n = Some sl \<and> dll h (Next_of a) (le_next n) as)"

definition rl_view :: "('cb, 'z) ready_lists_scheme \<Rightarrow> addr list \<Rightarrow> addr list \<Rightarrow> bool" where
  "rl_view s rs ts \<longleftrightarrow>
     dll (nodes s) Ready_first (ready_first s) rs \<and>
     dll (nodes s) Tmp_first (tmp_first s) ts \<and>
     distinct (rs @ ts) \<and>
     (\<forall>a n. nodes s a = Some n \<longrightarrow> (le_prev n \<noteq> None \<longleftrightarrow> a \<in> set (rs @ ts))) \<and>
     ready_list_size s = int (length (rs @ ts))"

text \<open>Everything of a node but its links.\<close>

definition payload :: "'cb CBAndEventMask \<Rightarrow> 'cb CBAndEventMask" where
  "payload n = n\<lparr>le_next := None, le_prev := None\<rparr>"

definition same_data ::
  "('cb, 'z) ready_lists_scheme \<Rightarrow> ('cb, 'z) ready_lists_scheme \<Rightarrow> bool" where
  "same_data s s' \<longleftrightarrow>
     (\<forall>a. map_option payload (nodes s' a) = map_option payload (nodes s a)) \<and>
     ready_lists.more s' = ready_lists.more s"

lemma dll_cong: "(\<And>a. a \<in> set xs \<Longrightarrow> h a = h' a) \<Longrightarrow> dll h sl p xs \<longleftrightarrow> dll h' sl p xs"
  by (induction xs arbitrary: sl p) (auto split: option.splits)

lemma dll_upd [simp]: "a \<notin> set xs \<Longrightarrow> dll (h(a := v)) sl p xs \<longleftrightarrow> dll h sl p xs"
  by (rule dll_cong) auto

lemma dll_relabel:
  assumes "dll h sl p (b # bs)" and "b \<notin> set bs" and "h b = Some m"
  shows "dll (h(b \<mapsto> m\<lparr>le_prev := Some sl'\<rparr>)) sl' (Some b) (b # bs)"
  using assms by simp

lemma dll_dom: "dll h sl p xs \<Longrightarrow> a \<in> set xs \<Longrightarrow> \<exists>n. h a = Some n"
  by (induction xs arbitrary: sl p) (auto split: option.splits)

lemma dll_prev_slot:
  "dll h sl p xs \<Longrightarrow> a \<in> set xs \<Longrightarrow> h a = Some n \<Longrightarrow>
   \<exists>q. le_prev n = Some q \<and> (q = sl \<or> q \<in> Next_of ` set xs)"
proof (induction xs arbitrary: sl p)
  case (Cons x xs)
  then show ?case by (cases "a = x") (fastforce split: option.splits)+
qed simp

lemma dll_next_in:
  "dll h sl p xs \<Longrightarrow> a \<in> set xs \<Longrightarrow> h a = Some n \<Longrightarrow> le_next n = Some b \<Longrightarrow>
   b \<in> set xs"
proof (induction xs arbitrary: sl p)
  case (Cons x xs)
  then show ?case by (cases "a = x"; cases xs) (force split: option.splits)+
qed simp

lemma dll_functional: "dll h sl p xs \<Longrightarrow> dll h sl' p ys \<Longrightarrow> xs = ys"
proof (induction xs arbitrary: sl sl' p ys)
  case Nil
  then show ?case by (cases ys) auto
next
  case (Cons x xs)
  then show ?case by (cases ys) (auto split: option.splits)
qed

lemma same_data_refl [simp, intro]: "same_data s s"
  by (simp add: same_data_def)

lemma same_data_trans: "same_data s t \<Longrightarrow> same_data t u \<Longrightarrow> same_data s u"
  by (simp add: same_data_def)

lemma same_data_dom: "same_data s s' \<Longrightarrow> dom (nodes s') = dom (nodes s)"
proof -
  assume "same_data s s'"
  then have "nodes s' a = None \<longleftrightarrow> nodes s a = None" for a
    unfolding same_data_def by (metis map_option_is_None)
  then show ?thesis by (auto simp: dom_def)
qed

lemma same_data_node:
  assumes "same_data s s'" and "nodes s a = Some n"
  obtains n' where "nodes s' a = Some n'" and "payload n' = payload n"
proof -
  from assms have "map_option payload (nodes s' a) = Some (payload n)"
    by (simp add: same_data_def)
  then show ?thesis using that by auto
qed

lemma payload_fields:
  assumes "payload n' = payload n"
  shows "ce_cb n' = ce_cb n" "ce_fd n' = ce_fd n" "ce_event_mask n' = ce_event_mask n"
    "ce_events_asserted n' = ce_events_asserted n" "ce_events_to_fake n' = ce_events_to_fake n"
    "ce_in_use n' = ce_in_use n"
  using assms by (cases n; cases n'; simp add: payload_def)+

subsection \<open>Unlinking a node\<close>

text \<open>The store after \<open>LIST_REMOVE\<close>, as one expression.\<close>

definition unlink ::
  "'cb CBAndEventMask \<Rightarrow> (addr \<rightharpoonup> 'cb CBAndEventMask) \<Rightarrow> (addr \<rightharpoonup> 'cb CBAndEventMask)" where
  "unlink n h =
     (let h1 = (case le_next n of
                  None \<Rightarrow> h
                | Some b \<Rightarrow> h(b := map_option (\<lambda>m. m\<lparr>le_prev := le_prev n\<rparr>) (h b)))
      in case le_prev n of
           Some (Next_of c) \<Rightarrow> h1(c := map_option (\<lambda>m. m\<lparr>le_next := le_next n\<rparr>) (h1 c))
         | _ \<Rightarrow> h1)"

lemma unlink_other:
  "le_next n \<noteq> Some x \<Longrightarrow> le_prev n \<noteq> Some (Next_of x) \<Longrightarrow> unlink n h x = h x"
  by (auto simp: unlink_def split: option.splits slot.splits)

lemma unlink_pred:
  "le_next n \<noteq> Some x \<Longrightarrow> h x = Some m \<Longrightarrow>
   unlink n h x =
     Some (if le_prev n = Some (Next_of x) then m\<lparr>le_next := le_next n\<rparr> else m)"
  by (auto simp: unlink_def split: option.splits slot.splits)

lemma unlink_succ:
  "le_next n = Some y \<Longrightarrow> h y = Some m \<Longrightarrow> le_prev n \<noteq> Some (Next_of y) \<Longrightarrow>
   unlink n h y = Some (m\<lparr>le_prev := le_prev n\<rparr>)"
  by (auto simp: unlink_def Let_def split: option.splits slot.splits)

lemma payload_unlink: "map_option payload (unlink n h x) = map_option payload (h x)"
  by (cases "h x") (auto simp: unlink_def payload_def split: option.splits slot.splits)

lemma LIST_REMOVE_eq:
  assumes "nodes s a = Some n" and "le_prev n = Some q"
    and "\<And>b. le_next n = Some b \<Longrightarrow> \<exists>m. nodes s b = Some m"
    and "\<And>c. q = Next_of c \<Longrightarrow> \<exists>m. nodes s c = Some m"
  shows "LIST_REMOVE a s =
    Inr (s\<lparr>nodes := unlink n (nodes s),
           ready_first := (if q = Ready_first then le_next n else ready_first s),
           tmp_first := (if q = Tmp_first then le_next n else tmp_first s)\<rparr>)"
proof (cases "le_next n")
  case None
  then show ?thesis using assms
    by (cases q) (auto simp: LIST_REMOVE_def deref_def upd_node_def unlink_def)
next
  case (Some b)
  with assms(3) obtain m where "nodes s b = Some m" by blast
  with Some show ?thesis using assms
    by (cases q) (auto simp: LIST_REMOVE_def deref_def upd_node_def unlink_def)
qed

lemma dll_unlink:
  assumes "dll h sl p xs" and "distinct xs" and "a \<in> set xs" and "h a = Some n"
    and "le_prev n = Some q" and "sl \<notin> Next_of ` set xs"
  shows "dll (unlink n h) sl (if q = sl then le_next n else p) (remove1 a xs)"
  using assms
proof (induction xs arbitrary: sl p)
  case (Cons x xs)
  show ?case
  proof (cases "a = x")
    case True
    with Cons.prems have q: "q = sl" and tail: "dll h (Next_of a) (le_next n) xs"
      by auto
    show ?thesis
    proof (cases xs)
      case Nil
      with True q tail show ?thesis by simp
    next
      case (Cons y ys)
      with tail obtain m where y: "le_next n = Some y" "h y = Some m" by (auto split: option.splits)
      have "sl \<noteq> Next_of y" and "\<And>z. z \<in> set ys \<Longrightarrow> sl \<noteq> Next_of z"
        using Cons.prems(6) \<open>xs = y # ys\<close> by auto
      with y Cons.prems \<open>xs = y # ys\<close> q have
        "unlink n h y = Some (m\<lparr>le_prev := Some sl\<rparr>)"
        "\<And>z. z \<in> set ys \<Longrightarrow> unlink n h z = h z"
        by (auto simp: unlink_succ intro!: unlink_other)
      moreover from tail Cons y have "dll h (Next_of y) (le_next m) ys" by simp
      then have "dll (unlink n h) (Next_of y) (le_next m) ys"
        using calculation(2) by (simp cong: dll_cong)
      ultimately show ?thesis using True q y Cons by simp
    qed
  next
    case False
    with Cons.prems have a: "a \<in> set xs" and x: "x \<notin> set xs" and xs: "distinct xs" by auto
    from Cons.prems(1) obtain m where m: "h x = Some m" "le_prev m = Some sl" "p = Some x"
      and tail: "dll h (Next_of x) (le_next m) xs" by (auto split: option.splits)
    from dll_prev_slot [OF tail a Cons.prems(4)] Cons.prems(5,6) have "q \<noteq> sl" by auto
    from dll_next_in [OF tail a Cons.prems(4)] x have nx: "le_next n \<noteq> Some x" by auto
    have "dll (unlink n h) (Next_of x) (if q = Next_of x then le_next n else le_next m)
            (remove1 a xs)"
      using x by (intro Cons.IH [OF tail xs a Cons.prems(4,5)]) auto
    with unlink_pred [OF nx, of h m] m Cons.prems(5) \<open>q \<noteq> sl\<close> False show ?thesis by auto
  qed
qed simp

section \<open>Every operation implements the operation on the lists\<close>

lemma listsI:
  assumes "dll (nodes s) Ready_first (ready_first s) rs" "dll (nodes s) Tmp_first (tmp_first s) ts"
    "distinct (rs @ ts)"
    "\<And>a n. nodes s a = Some n \<Longrightarrow> le_prev n \<noteq> None \<longleftrightarrow> a \<in> set (rs @ ts)"
    "ready_list_size s = int (length (rs @ ts))"
  shows "rl_view s rs ts"
  using assms by (simp add: rl_view_def)

lemma listsD:
  assumes "rl_view s rs ts"
  shows "dll (nodes s) Ready_first (ready_first s) rs" "dll (nodes s) Tmp_first (tmp_first s) ts"
    "distinct (rs @ ts)"
    "\<And>a n. nodes s a = Some n \<Longrightarrow> le_prev n \<noteq> None \<longleftrightarrow> a \<in> set (rs @ ts)"
    "ready_list_size s = int (length (rs @ ts))"
  using assms unfolding rl_view_def by blast+

lemma lists_functional: "rl_view s rs ts \<Longrightarrow> rl_view s rs' ts' \<Longrightarrow> rs' = rs \<and> ts' = ts"
  unfolding rl_view_def by (metis dll_functional)

lemma lists_in_store:
  assumes "rl_view s rs ts" and "a \<in> set (rs @ ts)"
  shows "\<exists>n. nodes s a = Some n"
  using assms by (auto dest: listsD(1,2) dll_dom)

lemma lists_tmp_first: "rl_view s rs ts \<Longrightarrow> tmp_first s = (case ts of [] \<Rightarrow> None | a # _ \<Rightarrow> Some a)"
  by (cases ts) (auto dest: listsD(2))

lemma lists_ready_first:
  "rl_view s rs ts \<Longrightarrow> ready_first s = (case rs of [] \<Rightarrow> None | a # _ \<Rightarrow> Some a)"
  by (cases rs) (auto dest: listsD(1))

subsection \<open>Insertion\<close>

lemma AddToReadyList_on_list:
  assumes "rl_view s rs ts" and "a \<in> set (rs @ ts)"
  shows "AddToReadyList a s = Inr s"
proof -
  from lists_in_store [OF assms] obtain n where "nodes s a = Some n" ..
  with listsD(4) [OF assms(1), of a n] assms(2) show ?thesis
    by (auto simp: AddToReadyList_def deref_def)
qed

lemma AddToReadyList_off_list:
  assumes l: "rl_view s rs ts" and n: "nodes s a = Some n" and a: "a \<notin> set (rs @ ts)"
  shows "\<exists>s'. AddToReadyList a s = Inr s' \<and> rl_view s' (a # rs) ts \<and> same_data s s'"
proof (cases rs)
  case Nil
  let ?s = "s\<lparr>nodes := (nodes s)(a \<mapsto> n\<lparr>le_next := None, le_prev := Some Ready_first\<rparr>),
              ready_first := Some a, ready_list_size := ready_list_size s + 1\<rparr>"
  have "AddToReadyList a s = Inr ?s"
    using n a listsD(1,4) [OF l] Nil
    by (auto simp: AddToReadyList_def LIST_INSERT_HEAD_def deref_def upd_node_def)
  moreover have "rl_view ?s (a # rs) ts"
    using listsD [OF l] a Nil by (intro listsI) (auto split: if_splits)
  moreover have "same_data s ?s"
    using n by (auto simp: same_data_def payload_def)
  ultimately show ?thesis by blast
next
  case (Cons b bs)
  with listsD(1) [OF l] obtain m where
    b: "ready_first s = Some b" "nodes s b = Some m" "dll (nodes s) (Next_of b) (le_next m) bs"
    by (auto split: option.splits)
  have ab: "a \<noteq> b" using a Cons by auto
  let ?s = "s\<lparr>nodes := (nodes s)(a \<mapsto> n\<lparr>le_next := Some b, le_prev := Some Ready_first\<rparr>,
                                 b \<mapsto> m\<lparr>le_prev := Some (Next_of a)\<rparr>),
              ready_first := Some a, ready_list_size := ready_list_size s + 1\<rparr>"
  have "AddToReadyList a s = Inr ?s"
    using n a b ab listsD(4) [OF l n]
    by (auto simp: AddToReadyList_def LIST_INSERT_HEAD_def deref_def upd_node_def fun_upd_twist)
  moreover have "rl_view ?s (a # rs) ts"
    using listsD [OF l] a b ab Cons by (intro listsI) (auto split: if_splits)
  moreover have "same_data s ?s"
    using n b ab by (auto simp: same_data_def payload_def)
  ultimately show ?thesis by blast
qed

lemma AddToReadyList_lists:
  assumes "rl_view s rs ts" and "nodes s a = Some n"
  shows "\<exists>s'. AddToReadyList a s = Inr s' \<and>
    rl_view s' (if a \<in> set (rs @ ts) then rs else a # rs) ts \<and> same_data s s'"
  using AddToReadyList_on_list [OF assms(1)] AddToReadyList_off_list [OF assms] assms(1)
  by (cases "a \<in> set (rs @ ts)") auto

subsection \<open>Removal\<close>

lemma RemoveFromReadyList_off_list:
  assumes "rl_view s rs ts" and "nodes s a = Some n" and "a \<notin> set (rs @ ts)"
  shows "RemoveFromReadyList a s = Inr s"
  using listsD(4) [OF assms(1,2)] assms(2,3) by (auto simp: RemoveFromReadyList_def deref_def)

lemma dll_no_self:
  assumes "dll h sl p xs" and "distinct xs" and "a \<in> set xs" and "h a = Some n"
    and "sl \<notin> Next_of ` set xs"
  shows "le_next n \<noteq> Some a \<and> le_prev n \<noteq> Some (Next_of a)"
  using assms
proof (induction xs arbitrary: sl p)
  case (Cons x xs)
  then obtain m where m: "h x = Some m" "le_prev m = Some sl" and
    tail: "dll h (Next_of x) (le_next m) xs" by (auto split: option.splits)
  show ?case
  proof (cases "a = x")
    case True
    with Cons.prems m tail show ?thesis by (cases xs) auto
  next
    case False
    with Cons.prems tail show ?thesis by (intro Cons.IH) auto
  qed
qed simp

text \<open>Removing a node from the chain it is on, with the other chain untouched.\<close>

lemma unlink_chains:
  assumes xs: "dll h sl p xs" and ys: "dll h sl' p' ys" and d: "distinct (xs @ ys)"
    and a: "a \<in> set xs" and n: "h a = Some n" and q: "le_prev n = Some q"
    and sl: "sl \<in> {Ready_first, Tmp_first}" and sl': "sl' \<in> {Ready_first, Tmp_first}" "sl' \<noteq> sl"
  shows "dll ((unlink n h)(a \<mapsto> v)) sl (if q = sl then le_next n else p) (remove1 a xs)"
    and "dll ((unlink n h)(a \<mapsto> v)) sl' (if q = sl' then le_next n else p') ys"
    and "le_next n \<noteq> Some a" "q \<noteq> Next_of a"
    and "\<And>b. le_next n = Some b \<Longrightarrow> b \<in> set xs"
    and "q = sl \<or> q \<in> Next_of ` set xs"
proof -
  show nx: "\<And>b. le_next n = Some b \<Longrightarrow> b \<in> set xs"
    using dll_next_in [OF xs a] n by simp
  show q': "q = sl \<or> q \<in> Next_of ` set xs"
    using dll_prev_slot [OF xs a] n q by auto
  have "a \<notin> set (remove1 a xs)" "a \<notin> set ys" "sl \<notin> Next_of ` set xs" using d a sl by auto
  then show "dll ((unlink n h)(a \<mapsto> v)) sl (if q = sl then le_next n else p) (remove1 a xs)"
    using dll_unlink [OF xs _ a n q] d by auto
  have "unlink n h x = h x" if "x \<in> set ys" for x
    using that nx q q' d sl by (intro unlink_other) auto
  then have "dll (unlink n h) sl' p' ys" using ys by (simp cong: dll_cong)
  then show "dll ((unlink n h)(a \<mapsto> v)) sl' (if q = sl' then le_next n else p') ys"
    using \<open>a \<notin> set ys\<close> q' sl' by auto
  show "le_next n \<noteq> Some a" "q \<noteq> Next_of a"
    using dll_no_self [OF xs _ a n] d sl q by auto
qed

lemma RemoveFromReadyList_eq:
  assumes n: "nodes s a = Some n" and q: "le_prev n = Some q"
    and "\<And>b. le_next n = Some b \<Longrightarrow> \<exists>m. nodes s b = Some m"
    and "\<And>c. q = Next_of c \<Longrightarrow> \<exists>m. nodes s c = Some m"
    and self: "le_next n \<noteq> Some a" "q \<noteq> Next_of a"
  shows "RemoveFromReadyList a s =
    Inr (s\<lparr>nodes := (unlink n (nodes s))(a \<mapsto> n\<lparr>le_prev := None\<rparr>),
           ready_first := (if q = Ready_first then le_next n else ready_first s),
           tmp_first := (if q = Tmp_first then le_next n else tmp_first s),
           ready_list_size := ready_list_size s - 1\<rparr>)"
proof -
  have "unlink n (nodes s) a = Some n" using self q n by (simp add: unlink_other)
  with assms show ?thesis
    by (simp add: RemoveFromReadyList_def LIST_REMOVE_eq deref_def upd_node_def)
qed

lemma unlink_linked:
  assumes "unlink n h x = Some m" and "le_prev n \<noteq> None"
    and "\<And>b m. le_next n = Some b \<Longrightarrow> h b = Some m \<Longrightarrow> le_prev m \<noteq> None"
  obtains m' where "h x = Some m'" and "le_prev m' \<noteq> None \<longleftrightarrow> le_prev m \<noteq> None"
  using assms by (auto simp: unlink_def Let_def split: option.splits slot.splits if_splits)

lemma unlink_lists:
  assumes l: "rl_view s rs ts" and n: "nodes s a = Some n" and a: "a \<in> set (rs @ ts)" and q: "le_prev n = Some q"
  defines "h \<equiv> (unlink n (nodes s))(a \<mapsto> n\<lparr>le_prev := None\<rparr>)"
  shows "dll h Ready_first (if q = Ready_first then le_next n else ready_first s) (remove1 a rs) \<and>
    dll h Tmp_first (if q = Tmp_first then le_next n else tmp_first s) (remove1 a ts) \<and>
    le_next n \<noteq> Some a \<and> q \<noteq> Next_of a \<and>
    (\<forall>b. le_next n = Some b \<longrightarrow> b \<in> set (rs @ ts)) \<and>
    (\<forall>c. q = Next_of c \<longrightarrow> c \<in> set (rs @ ts))"
proof (cases "a \<in> set rs")
  case True
  note L = listsD [OF l]
  from True L(3) have "remove1 a ts = ts" by (auto intro: remove1_idem)
  with unlink_chains [OF L(1,2) L(3) True n q] show ?thesis by (auto simp: h_def)
next
  case False
  note L = listsD [OF l]
  from False a have ts: "a \<in> set ts" by simp
  have d: "distinct (ts @ rs)" using L(3) by auto
  from False have "remove1 a rs = rs" by (rule remove1_idem)
  with unlink_chains [OF L(2,1) d ts n q] show ?thesis by (auto simp: h_def)
qed

lemma RemoveFromReadyList_lists:
  assumes l: "rl_view s rs ts" and n: "nodes s a = Some n"
  shows "\<exists>s'. RemoveFromReadyList a s = Inr s' \<and>
    rl_view s' (remove1 a rs) (remove1 a ts) \<and> same_data s s'"
proof (cases "a \<in> set (rs @ ts)")
  case False
  then have "remove1 a rs = rs" "remove1 a ts = ts" by (auto intro: remove1_idem)
  with False show ?thesis using RemoveFromReadyList_off_list [OF l n] l by auto
next
  case True
  note L = listsD [OF l]
  let ?h = "(unlink n (nodes s))(a \<mapsto> n\<lparr>le_prev := None\<rparr>)"
  from L(4) [OF n] True obtain q where q: "le_prev n = Some q" by auto
  let ?s = "s\<lparr>nodes := ?h,
              ready_first := (if q = Ready_first then le_next n else ready_first s),
              tmp_first := (if q = Tmp_first then le_next n else tmp_first s),
              ready_list_size := ready_list_size s - 1\<rparr>"
  from unlink_lists [OF l n True q]
  have chains: "dll ?h Ready_first (ready_first ?s) (remove1 a rs)"
      "dll ?h Tmp_first (tmp_first ?s) (remove1 a ts)"
    and self: "le_next n \<noteq> Some a" "q \<noteq> Next_of a"
    and nx: "\<And>b. le_next n = Some b \<Longrightarrow> b \<in> set (rs @ ts)"
    and pv: "\<And>c. q = Next_of c \<Longrightarrow> c \<in> set (rs @ ts)" by auto
  have "RemoveFromReadyList a s = Inr ?s"
    using RemoveFromReadyList_eq [OF n q] nx pv self lists_in_store [OF l] by simp
  moreover have "rl_view ?s (remove1 a rs) (remove1 a ts)"
  proof (rule listsI)
    show "distinct (remove1 a rs @ remove1 a ts)"
      using L(3) by (auto dest: notin_set_remove1)
    show "ready_list_size ?s = int (length (remove1 a rs @ remove1 a ts))"
      using L(3,5) True length_pos_if_in_set [of a rs] length_pos_if_in_set [of a ts]
      by (auto simp: length_remove1)
    fix x m assume m: "nodes ?s x = Some m"
    show "le_prev m \<noteq> None \<longleftrightarrow> x \<in> set (remove1 a rs @ remove1 a ts)"
    proof (cases "x = a")
      case True
      with m L(3) show ?thesis by auto
    next
      case False
      with m have "unlink n (nodes s) x = Some m" by simp
      then obtain m' where "nodes s x = Some m'" "le_prev m' \<noteq> None \<longleftrightarrow> le_prev m \<noteq> None"
        using q nx L(4) by (elim unlink_linked) (auto simp del: set_append)
      with L(4) [of x m'] L(3) False show ?thesis by auto
    qed
  qed (use chains in simp_all)
  moreover have "same_data s ?s"
    using n payload_unlink [of n "nodes s"] by (auto simp: same_data_def payload_def)
  ultimately show ?thesis by blast
qed

subsection \<open>The swap and the consistency check\<close>

lemma swap_lists_lists:
  assumes l: "rl_view s rs []"
  shows "\<exists>s'. swap_lists s = Inr s' \<and> rl_view s' [] rs \<and> same_data s s'"
proof (cases rs)
  case Nil
  with listsD [OF l] have "swap_lists s = Inr (s\<lparr>ready_first := None, tmp_first := None\<rparr>)"
    by (simp add: swap_lists_def)
  moreover have "rl_view (s\<lparr>ready_first := None, tmp_first := None\<rparr>) [] rs"
    using listsD [OF l] Nil by (intro listsI) auto
  ultimately show ?thesis by (auto simp: same_data_def)
next
  case (Cons b bs)
  with listsD(1) [OF l] obtain m where b: "ready_first s = Some b" "nodes s b = Some m"
    by (auto split: option.splits)
  let ?s = "s\<lparr>nodes := (nodes s)(b \<mapsto> m\<lparr>le_prev := Some Tmp_first\<rparr>),
              ready_first := None, tmp_first := Some b\<rparr>"
  have "swap_lists s = Inr ?s"
    using listsD(2) [OF l] b by (simp add: swap_lists_def Let_def upd_node_def deref_def)
  moreover have "rl_view ?s [] rs"
    using listsD [OF l] Cons b by (intro listsI) (auto split: if_splits)
  moreover have "same_data s ?s" using b by (auto simp: same_data_def payload_def)
  ultimately show ?thesis by blast
qed

lemma count_from_dll:
  "dll (nodes s) sl p xs \<Longrightarrow> count_from p count s = Some (Inr (count + int (length xs)))"
proof (induction xs arbitrary: sl p count)
  case Nil
  then show ?case by (simp add: count_from.simps)
next
  case (Cons a xs)
  then obtain n where n: "p = Some a" "nodes s a = Some n" "dll (nodes s) (Next_of a) (le_next n) xs"
    by (auto split: option.splits)
  then show ?case
    using Cons.IH [OF n(3), of "count + 1"] by (subst count_from.simps) (simp add: deref_def)
qed

lemma VerifyReadyList_lists: "rl_view s rs ts \<Longrightarrow> VerifyReadyList s = Some (Inr ())"
  using listsD [of s rs ts]
  by (simp add: VerifyReadyList_def count_from_dll)

section \<open>The ready list as an interface\<close>

text \<open>
  What the event loop relies on. \<open>view s rs ts\<close> reads a state as the ready list \<open>rs\<close> and the list
  \<open>ts\<close> under iteration; \<open>data\<close> is everything else, which list operations must not touch.
  A script of insertions and removals is what a callback does to the lists while the loop runs.
\<close>

datatype list_op = Add addr | Rem addr

fun run_list_ops :: "(addr \<Rightarrow> 's \<Rightarrow> 's res) \<Rightarrow> (addr \<Rightarrow> 's \<Rightarrow> 's res) \<Rightarrow> list_op list \<Rightarrow> 's \<Rightarrow> 's res" where
  "run_list_ops add rem [] s = Inr s"
| "run_list_ops add rem (Add a # os) s = rbind (add a s) (run_list_ops add rem os)"
| "run_list_ops add rem (Rem a # os) s = rbind (rem a s) (run_list_ops add rem os)"

text \<open>The same script on a pair of lists, the specification.\<close>

fun abs_list_ops :: "list_op list \<Rightarrow> addr list \<times> addr list \<Rightarrow> addr list \<times> addr list" where
  "abs_list_ops [] v = v"
| "abs_list_ops (Add a # os) (rs, ts) =
     abs_list_ops os (if a \<in> set (rs @ ts) then (rs, ts) else (a # rs, ts))"
| "abs_list_ops (Rem a # os) (rs, ts) = abs_list_ops os (remove1 a rs, remove1 a ts)"

fun op_addr :: "list_op \<Rightarrow> addr" where
  "op_addr (Add a) = a"
| "op_addr (Rem a) = a"

locale ready_list_interface =
  fixes view :: "'s \<Rightarrow> addr list \<Rightarrow> addr list \<Rightarrow> bool"
    and has :: "'s \<Rightarrow> addr \<Rightarrow> bool"
    and data :: "'s \<Rightarrow> 'd"
    and add :: "addr \<Rightarrow> 's \<Rightarrow> 's res"
    and rem :: "addr \<Rightarrow> 's \<Rightarrow> 's res"
    and swap :: "'s \<Rightarrow> 's res"
  assumes view_distinct: "view s rs ts \<Longrightarrow> distinct (rs @ ts)"
    and view_has: "view s rs ts \<Longrightarrow> a \<in> set (rs @ ts) \<Longrightarrow> has s a"
    and data_has: "data s' = data s \<Longrightarrow> has s' a = has s a"
    and add_spec: "view s rs ts \<Longrightarrow> has s a \<Longrightarrow>
      \<exists>s'. add a s = Inr s' \<and> view s' (if a \<in> set (rs @ ts) then rs else a # rs) ts \<and>
           data s' = data s"
    and rem_spec: "view s rs ts \<Longrightarrow> has s a \<Longrightarrow>
      \<exists>s'. rem a s = Inr s' \<and> view s' (remove1 a rs) (remove1 a ts) \<and> data s' = data s"
    and swap_spec: "view s rs [] \<Longrightarrow>
      \<exists>s'. swap s = Inr s' \<and> view s' [] rs \<and> data s' = data s"
begin

lemma run_refines:
  assumes "view s rs ts" and "\<forall>x \<in> set os. has s (op_addr x)"
  shows "\<exists>s'. run_list_ops add rem os s = Inr s' \<and> data s' = data s \<and>
    view s' (fst (abs_list_ops os (rs, ts))) (snd (abs_list_ops os (rs, ts)))"
  using assms
proof (induction os arbitrary: s rs ts)
  case Nil
  then show ?case by simp
next
  case (Cons x os)
  obtain t rs' ts' where t: "run_list_ops add rem (x # os) s = run_list_ops add rem os t"
    "abs_list_ops (x # os) (rs, ts) = abs_list_ops os (rs', ts')"
    "view t rs' ts'" "data t = data s"
  proof (cases x)
    case (Add a)
    with Cons.prems add_spec [of s rs ts a] that show ?thesis by (auto split: if_splits)
  next
    case (Rem a)
    with Cons.prems rem_spec [of s rs ts a] that show ?thesis by auto
  qed
  with Cons.prems(2) have "\<forall>y \<in> set os. has t (op_addr y)" using data_has [OF t(4)] by simp
  from Cons.IH [OF t(3) this] t show ?case by auto
qed

lemma iteration_safe:
  assumes "view s rs []" and "\<forall>x \<in> set os. has s (op_addr x)"
  shows "\<exists>s1 s2. swap s = Inr s1 \<and> run_list_ops add rem os s1 = Inr s2 \<and> data s2 = data s \<and>
    view s2 (fst (abs_list_ops os ([], rs))) (snd (abs_list_ops os ([], rs)))"
proof -
  from swap_spec [OF assms(1)] obtain s1 where
    s1: "swap s = Inr s1" "view s1 [] rs" "data s1 = data s" by blast
  with assms(2) have "\<forall>x \<in> set os. has s1 (op_addr x)" using data_has [OF s1(3)] by simp
  from run_refines [OF s1(2) this] s1 show ?thesis by auto
qed

end

definition store_data ::
  "('cb, 'z) ready_lists_scheme \<Rightarrow> (addr \<rightharpoonup> 'cb CBAndEventMask) \<times> 'z" where
  "store_data s = ((\<lambda>a. map_option payload (nodes s a)), ready_lists.more s)"

lemma same_data_iff: "same_data s s' \<longleftrightarrow> store_data s' = store_data s"
  by (auto simp: same_data_def store_data_def fun_eq_iff)

interpretation rl: ready_list_interface rl_view "\<lambda>s a. a \<in> dom (nodes s)" store_data
  AddToReadyList RemoveFromReadyList swap_lists
proof (unfold_locales, goal_cases)
  case 1 then show ?case by (rule listsD(3))
next
  case 2 then show ?case using lists_in_store by blast
next
  case 3 then show ?case unfolding same_data_iff [symmetric] by (blast dest: same_data_dom)
next
  case 4 then show ?case using AddToReadyList_lists by (fastforce simp: same_data_iff)
next
  case 5 then show ?case using RemoveFromReadyList_lists by (fastforce simp: same_data_iff)
next
  case 6 then show ?case using swap_lists_lists by (fastforce simp: same_data_iff)
qed

end
