(* ===== verification/Epoll_Server.thy ===== *)
theory Epoll_Server
  imports Ready_List
begin

unbundle bit_operations_syntax

text \<open>
  \<open>EpollServer\<close>, file descriptor side (net/tools/epoll_server/epoll_server.cc and .h).

  The state is one record: the node store and the two lists of \<open>Ready_List\<close>, the hash set
  \<open>cb_map_\<close> (an association list from descriptors to node addresses, in an iteration order
  the C++ standard leaves open), the alarm containers, and \<open>env\<close>, the rest of the world: the netdp
  stack, the clock and the callbacks' own data. The netdp stack is not part of the
  repository; its entry points are the fields of \<open>netdp_epoll\<close>, a parameter of every operation
  that calls it. \<open>calls\<close> records the virtual calls made on registered callbacks, in order; the
  bodies of OnRegistration, OnModification, OnUnregistration and OnShutdown are empty in every
  class of the repository.
\<close>

section \<open>Data\<close>

subsection \<open>Event bits of sys/epoll.h\<close>

definition EPOLLIN :: mask where "EPOLLIN = 0x001"
definition EPOLLPRI :: mask where "EPOLLPRI = 0x002"
definition EPOLLOUT :: mask where "EPOLLOUT = 0x004"
definition EPOLLERR :: mask where "EPOLLERR = 0x008"
definition EPOLLHUP :: mask where "EPOLLHUP = 0x010"
definition EPOLLRDNORM :: mask where "EPOLLRDNORM = 0x040"
definition EPOLLRDBAND :: mask where "EPOLLRDBAND = 0x080"
definition EPOLLWRNORM :: mask where "EPOLLWRNORM = 0x100"
definition EPOLLWRBAND :: mask where "EPOLLWRBAND = 0x200"
definition EPOLLMSG :: mask where "EPOLLMSG = 0x400"
definition EPOLLONESHOT :: mask where "EPOLLONESHOT = 0x40000000"
definition EPOLLET :: mask where "EPOLLET = 0x80000000"

lemmas epoll_bits = EPOLLIN_def EPOLLPRI_def EPOLLOUT_def EPOLLERR_def EPOLLHUP_def
  EPOLLRDNORM_def EPOLLRDBAND_def EPOLLWRNORM_def EPOLLWRBAND_def EPOLLMSG_def
  EPOLLONESHOT_def EPOLLET_def

subsection \<open>The netdp entry points the event loop calls\<close>

datatype ctl_op = EPOLL_CTL_ADD | EPOLL_CTL_MOD | EPOLL_CTL_DEL

text \<open>
  \<open>epoll_wait\<close> takes the epoll descriptor, the capacity of the result array and the timeout in
  milliseconds, and returns the count, the filled part of the array and errno.
\<close>

record 'w netdp_epoll =
  netdpsock_epoll_ctl :: "int \<Rightarrow> ctl_op \<Rightarrow> int \<Rightarrow> mask \<Rightarrow> 'w \<Rightarrow> int \<times> 'w"
  netdpsock_epoll_wait :: "int \<Rightarrow> int \<Rightarrow> int \<Rightarrow> 'w \<Rightarrow> (int \<times> (int \<times> mask) list \<times> int) \<times> 'w"
  netdpsock_close :: "int \<Rightarrow> 'w \<Rightarrow> int \<times> 'w"
  NETDP_EINTR :: int
  time_now :: "'w \<Rightarrow> int \<times> 'w"

subsection \<open>Server state\<close>

datatype 'cb cb_call =
    OnRegistration 'cb int mask
  | OnModification 'cb int mask
  | OnUnregistration 'cb int bool
  | OnEvent 'cb int mask
  | OnShutdown 'cb int

text \<open>
  An \<open>EpollAlarm\<close> object; every \<open>AlarmCB\<close> of the repository is one. \<open>ea_token\<close> is the iterator
  \<open>token_\<close>, with \<open>None\<close> for a default-constructed one; \<open>ea_eps\<close> says that \<open>eps_\<close> is not NULL.
\<close>

record EpollAlarm =
  ea_token :: "nat option"
  ea_eps :: bool
  ea_registered :: bool

text \<open>
  \<open>alarm_map\<close> is the multimap from times to alarms: a list in iteration order of
  (token, (time, alarm)), the token standing for the node an iterator points to.
\<close>

record ('cb, 'al, 'w) EpollServer = "'cb ready_lists" +
  next_addr :: addr
  epoll_fd :: int
  cb_map :: "(int \<times> addr) list"
  all_alarms :: "'al set"
  alarm_map :: "(nat \<times> int \<times> 'al) list"
  next_token :: nat
  timeout_in_us :: int
  recorded_now_in_us :: int
  alarms_reregistered_and_should_be_skipped :: "'al set"
  in_wait_for_events_and_execute_callbacks :: bool
  in_shutdown :: bool
  read_fd :: int
  write_fd :: int
  alarm_objs :: "'al \<Rightarrow> EpollAlarm"
  calls :: "'cb cb_call list"
  env :: 'w

type_synonym ('cb, 'al, 'w) es = "('cb, 'al, 'w) EpollServer"

definition log_call :: "'cb cb_call \<Rightarrow> ('cb, 'al, 'w) es \<Rightarrow> ('cb, 'al, 'w) es" where
  "log_call c s = s\<lparr>calls := calls s @ [c]\<rparr>"

section \<open>Operations\<close>

text \<open>The constructor; \<open>fd\<close> is the result of \<open>netdpsock_epoll_create(1024)\<close>.\<close>

definition EpollServer_new ::
  "int \<Rightarrow> ('al \<Rightarrow> EpollAlarm) \<Rightarrow> 'w \<Rightarrow> ('cb, 'al, 'w) es res" where
  "EpollServer_new fd objs w =
     (if fd = -1 then Inl (Check_failed ''epoll_fd_ != -1'')
      else Inr \<lparr>nodes = Map.empty, ready_first = None, tmp_first = None, ready_list_size = 0,
                next_addr = 0, epoll_fd = fd, cb_map = [], all_alarms = {}, alarm_map = [],
                next_token = 0, timeout_in_us = 0, recorded_now_in_us = 0,
                alarms_reregistered_and_should_be_skipped = {},
                in_wait_for_events_and_execute_callbacks = False, in_shutdown = False,
                read_fd = -1, write_fd = -1, alarm_objs = objs, calls = [], env = w\<rparr>)"

subsection \<open>The epoll set\<close>

definition DelFD :: "('w, 'n) netdp_epoll_scheme \<Rightarrow> int \<Rightarrow> ('cb, 'al, 'w) es \<Rightarrow> ('cb, 'al, 'w) es res" where
  "DelFD N fd s =
     (let (rc, w) = netdpsock_epoll_ctl N (epoll_fd s) EPOLL_CTL_DEL fd 0 (env s)
      in if rc \<noteq> 0 then Inl (Log_fatal ''Epoll set removal error'') else Inr (s\<lparr>env := w\<rparr>))"

definition AddFD ::
  "('w, 'n) netdp_epoll_scheme \<Rightarrow> int \<Rightarrow> mask \<Rightarrow> ('cb, 'al, 'w) es \<Rightarrow> ('cb, 'al, 'w) es res" where
  "AddFD N fd m s =
     (let (rc, w) = netdpsock_epoll_ctl N (epoll_fd s) EPOLL_CTL_ADD fd
                      (m OR EPOLLERR OR EPOLLHUP) (env s)
      in if rc \<noteq> 0 then Inl (Log_fatal ''Epoll set insertion error'') else Inr (s\<lparr>env := w\<rparr>))"

definition ModFD ::
  "('w, 'n) netdp_epoll_scheme \<Rightarrow> int \<Rightarrow> mask \<Rightarrow> ('cb, 'al, 'w) es \<Rightarrow> ('cb, 'al, 'w) es res" where
  "ModFD N fd m s =
     (let (rc, w) = netdpsock_epoll_ctl N (epoll_fd s) EPOLL_CTL_MOD fd
                      (m OR EPOLLERR OR EPOLLHUP) (env s)
      in if rc \<noteq> 0 then Inl (Log_fatal ''Epoll set modification error'') else Inr (s\<lparr>env := w\<rparr>))"

subsection \<open>cb\_map\<close>

text \<open>\<open>cb_map_.insert(CBAndEventMask(cb, event_mask, fd))\<close> for a descriptor not in the set.\<close>

definition insert_node :: "'cb CBAndEventMask \<Rightarrow> ('cb, 'al, 'w) es \<Rightarrow> ('cb, 'al, 'w) es" where
  "insert_node n s =
     s\<lparr>nodes := (nodes s)(next_addr s \<mapsto> n),
       cb_map := (ce_fd n, next_addr s) # cb_map s,
       next_addr := Suc (next_addr s)\<rparr>"

text \<open>\<open>cb_map_.erase\<close>: the node at \<open>a\<close>, found under \<open>fd\<close>, is destroyed.\<close>

definition erase_node :: "int \<Rightarrow> addr \<Rightarrow> ('cb, 'al, 'w) es \<Rightarrow> ('cb, 'al, 'w) es" where
  "erase_node fd a s =
     s\<lparr>nodes := (nodes s)(a := None), cb_map := AList.delete fd (cb_map s)\<rparr>"

subsection \<open>Registration\<close>

definition RegisterFD ::
  "('w, 'n) netdp_epoll_scheme \<Rightarrow> int \<Rightarrow> 'cb option \<Rightarrow> mask \<Rightarrow>
   ('cb, 'al, 'w) es \<Rightarrow> ('cb, 'al, 'w) es res" where
  "RegisterFD N fd cb m s =
     (case cb of
        None \<Rightarrow> Inl (Check_failed ''cb'')
      | Some c \<Rightarrow>
          rbind (case map_of (cb_map s) fd of
                   Some a \<Rightarrow>
                     rbind (deref a s) (\<lambda>n.
                     rbind (case ce_cb n of
                              Some other_cb \<Rightarrow>
                                rbind (RemoveFromReadyList a s) (\<lambda>s.
                                ModFD N fd m (log_call (OnUnregistration other_cb fd True) s))
                            | None \<Rightarrow> AddFD N fd m s) (\<lambda>s.
                     upd_node a (\<lambda>n. n\<lparr>ce_cb := Some c, ce_event_mask := m,
                                       ce_events_to_fake := 0\<rparr>) s))
                 | None \<Rightarrow>
                     rbind (AddFD N fd m s) (\<lambda>s.
                     Inr (insert_node (mk_CBAndEventMask (Some c) m fd) s))) (\<lambda>s.
          Inr (log_call (OnRegistration c fd m) s)))"

definition RegisterFDForWrite where
  "RegisterFDForWrite N fd cb s = RegisterFD N fd cb EPOLLOUT s"

definition RegisterFDForReadWrite where
  "RegisterFDForReadWrite N fd cb s = RegisterFD N fd cb (EPOLLIN OR EPOLLOUT) s"

definition RegisterFDForRead where
  "RegisterFDForRead N fd cb s = RegisterFD N fd cb EPOLLIN s"

definition UnregisterFD ::
  "('w, 'n) netdp_epoll_scheme \<Rightarrow> int \<Rightarrow> ('cb, 'al, 'w) es \<Rightarrow> ('cb, 'al, 'w) es res" where
  "UnregisterFD N fd s =
     (case map_of (cb_map s) fd of
        None \<Rightarrow> Inr s
      | Some a \<Rightarrow>
          rbind (deref a s) (\<lambda>n.
          case ce_cb n of
            None \<Rightarrow> Inr s
          | Some cb \<Rightarrow>
              rbind (RemoveFromReadyList a s) (\<lambda>s.
              rbind (DelFD N fd s) (\<lambda>s.
              let s = log_call (OnUnregistration cb fd False) s in
              rbind (deref a s) (\<lambda>n.
              if \<not> ce_in_use n then Inr (erase_node fd a s)
              else upd_node a (\<lambda>n. n\<lparr>ce_cb := None, ce_event_mask := 0,
                                      ce_events_to_fake := 0\<rparr>) s)))))"

definition ModifyFD ::
  "('w, 'n) netdp_epoll_scheme \<Rightarrow> int \<Rightarrow> mask \<Rightarrow> mask \<Rightarrow>
   ('cb, 'al, 'w) es \<Rightarrow> ('cb, 'al, 'w) es res" where
  "ModifyFD N fd remove_event add_event s =
     (case map_of (cb_map s) fd of
        None \<Rightarrow> Inr s
      | Some a \<Rightarrow>
          rbind (deref a s) (\<lambda>n.
          case ce_cb n of
            None \<Rightarrow> Inr s
          | Some cb \<Rightarrow>
              let event_mask = (ce_event_mask n AND NOT remove_event) OR add_event in
              rbind (upd_node a (\<lambda>n. n\<lparr>ce_event_mask := event_mask\<rparr>) s) (\<lambda>s.
              rbind (ModFD N fd event_mask s) (\<lambda>s.
              Inr (log_call (OnModification cb fd event_mask) s)))))"

definition ModifyCallback where
  "ModifyCallback N fd event_mask s = ModifyFD N fd (NOT 0) event_mask s"

definition StopRead where
  "StopRead N fd s = ModifyFD N fd EPOLLIN 0 s"

definition StartRead where
  "StartRead N fd s = ModifyFD N fd 0 EPOLLIN s"

definition StopWrite where
  "StopWrite N fd s = ModifyFD N fd EPOLLOUT 0 s"

definition StartWrite where
  "StartWrite N fd s = ModifyFD N fd 0 EPOLLOUT s"

subsection \<open>The ready list\<close>

definition HandleEvent :: "int \<Rightarrow> mask \<Rightarrow> ('cb, 'al, 'w) es \<Rightarrow> ('cb, 'al, 'w) es res" where
  "HandleEvent fd event_mask s =
     (case map_of (cb_map s) fd of
        None \<Rightarrow> Inr s
      | Some a \<Rightarrow>
          rbind (deref a s) (\<lambda>n.
          if ce_cb n = None then Inr s
          else rbind (upd_node a (\<lambda>n. n\<lparr>ce_events_asserted := event_mask\<rparr>) s)
                 (AddToReadyList a)))"

definition SetFDReady :: "int \<Rightarrow> mask \<Rightarrow> ('cb, 'al, 'w) es \<Rightarrow> ('cb, 'al, 'w) es res" where
  "SetFDReady fd events_to_fake s =
     (case map_of (cb_map s) fd of
        None \<Rightarrow> Inr s
      | Some a \<Rightarrow>
          rbind (deref a s) (\<lambda>n.
          if ce_cb n = None then Inr s
          else rbind (upd_node a (\<lambda>n. n\<lparr>ce_events_to_fake := events_to_fake\<rparr>) s)
                 (AddToReadyList a)))"

definition SetFDNotReady :: "int \<Rightarrow> ('cb, 'al, 'w) es \<Rightarrow> ('cb, 'al, 'w) es res" where
  "SetFDNotReady fd s =
     (case map_of (cb_map s) fd of
        None \<Rightarrow> Inr s
      | Some a \<Rightarrow> RemoveFromReadyList a s)"

definition IsFDReady :: "int \<Rightarrow> ('cb, 'al, 'w) es \<Rightarrow> bool res" where
  "IsFDReady fd s =
     (case map_of (cb_map s) fd of
        None \<Rightarrow> Inr False
      | Some a \<Rightarrow> rbind (deref a s) (\<lambda>n. Inr (ce_cb n \<noteq> None \<and> le_prev n \<noteq> None)))"

definition ReadyListSize :: "('cb, 'al, 'w) es \<Rightarrow> int" where
  "ReadyListSize s = ready_list_size s"

text \<open>\<open>cb_map_.size() - 1\<close> in size_t, converted to int.\<close>

definition NumFDsRegistered :: "('cb, 'al, 'w) es \<Rightarrow> int" where
  "NumFDsRegistered s = int32_of ((int (length (cb_map s)) - 1) mod 2 ^ 64)"

subsection \<open>Time and settings\<close>

definition NowInUsec ::
  "('w, 'n) netdp_epoll_scheme \<Rightarrow> ('cb, 'al, 'w) es \<Rightarrow> int \<times> ('cb, 'al, 'w) es" where
  "NowInUsec N s = (let (t, w) = time_now N (env s) in (t, s\<lparr>env := w\<rparr>))"

definition ApproximateNowInUsec ::
  "('w, 'n) netdp_epoll_scheme \<Rightarrow> ('cb, 'al, 'w) es \<Rightarrow> int \<times> ('cb, 'al, 'w) es" where
  "ApproximateNowInUsec N s =
     (if recorded_now_in_us s \<noteq> 0 then (recorded_now_in_us s, s) else NowInUsec N s)"

definition set_timeout_in_us :: "int \<Rightarrow> ('cb, 'al, 'w) es \<Rightarrow> ('cb, 'al, 'w) es" where
  "set_timeout_in_us t s = s\<lparr>timeout_in_us := t\<rparr>"

text \<open>The accessor \<open>int timeout_in_us() const\<close> returns an int.\<close>

definition get_timeout_in_us :: "('cb, 'al, 'w) es \<Rightarrow> int" where
  "get_timeout_in_us s = int32_of (timeout_in_us s)"

end
