(* ===== verification/Event_Recorder.thy ===== *)
theory Event_Recorder
  imports Epoll_Server
begin

unbundle bit_operations_syntax

text \<open>
  Diagnostics of \<open>EpollServer\<close>: \<open>EventMaskToString\<close> and \<open>LogStateOnCrash\<close> (epoll_server.cc) and the
  \<open>EventRecorder\<close> that exists under EPOLL_SERVER_EVENT_TRACING (epoll_server.h).

  Text written to a stream or to LOG(INFO) is a \<open>string\<close>. The counters are \<open>unsigned int\<close>, hence 32-bit
  words. \<open>event_counts_\<close> is an association list in an iteration order C++ leaves open.
\<close>

section \<open>Printing\<close>

text \<open>Decimal output of \<open>operator<<\<close> for integers.\<close>

fun dec :: "nat \<Rightarrow> string" where
  "dec n = (if n < 10 then [char_of (48 + n)] else dec (n div 10) @ [char_of (48 + n mod 10)])"

declare dec.simps [simp del]

definition dec_int :: "int \<Rightarrow> string" where
  "dec_int i = (if i < 0 then ''-'' @ dec (nat (- i)) else dec (nat i))"

definition EventMaskToString :: "mask \<Rightarrow> string" where
  "EventMaskToString event_mask =
     (if event_mask AND EPOLLIN \<noteq> 0 then ''EPOLLIN '' else []) @
     (if event_mask AND EPOLLPRI \<noteq> 0 then ''EPOLLPRI '' else []) @
     (if event_mask AND EPOLLOUT \<noteq> 0 then ''EPOLLOUT '' else []) @
     (if event_mask AND EPOLLRDNORM \<noteq> 0 then ''EPOLLRDNORM '' else []) @
     (if event_mask AND EPOLLRDBAND \<noteq> 0 then ''EPOLLRDBAND '' else []) @
     (if event_mask AND EPOLLWRNORM \<noteq> 0 then ''EPOLLWRNORM '' else []) @
     (if event_mask AND EPOLLWRBAND \<noteq> 0 then ''EPOLLWRBAND '' else []) @
     (if event_mask AND EPOLLMSG \<noteq> 0 then ''EPOLLMSG '' else []) @
     (if event_mask AND EPOLLERR \<noteq> 0 then ''EPOLLERR '' else []) @
     (if event_mask AND EPOLLHUP \<noteq> 0 then ''EPOLLHUP '' else []) @
     (if event_mask AND EPOLLONESHOT \<noteq> 0 then ''EPOLLONESHOT '' else []) @
     (if event_mask AND EPOLLET \<noteq> 0 then ''EPOLLET '' else [])"

section \<open>Counters\<close>

type_synonym counter = "32 word"

record Events =
  epoll_in :: counter
  epoll_pri :: counter
  epoll_out :: counter
  epoll_rdnorm :: counter
  epoll_rdband :: counter
  epoll_wrnorm :: counter
  epoll_wrband :: counter
  epoll_msg :: counter
  epoll_err :: counter
  epoll_hup :: counter
  epoll_oneshot :: counter
  epoll_et :: counter

definition Events_new :: Events where
  "Events_new = \<lparr>epoll_in = 0, epoll_pri = 0, epoll_out = 0, epoll_rdnorm = 0, epoll_rdband = 0,
     epoll_wrnorm = 0, epoll_wrband = 0, epoll_msg = 0, epoll_err = 0, epoll_hup = 0, epoll_oneshot = 0,
     epoll_et = 0\<rparr>"

definition bump :: "mask \<Rightarrow> mask \<Rightarrow> counter \<Rightarrow> counter" where
  "bump event_mask bits n = (if event_mask AND bits \<noteq> 0 then n + 1 else n)"

definition AssignFromMask :: "mask \<Rightarrow> Events \<Rightarrow> Events" where
  "AssignFromMask event_mask ev =
     \<lparr>epoll_in = bump event_mask EPOLLIN (epoll_in ev), epoll_pri = bump event_mask EPOLLPRI (epoll_pri ev),
      epoll_out = bump event_mask EPOLLOUT (epoll_out ev),
      epoll_rdnorm = bump event_mask EPOLLRDNORM (epoll_rdnorm ev),
      epoll_rdband = bump event_mask EPOLLRDBAND (epoll_rdband ev),
      epoll_wrnorm = bump event_mask EPOLLWRNORM (epoll_wrnorm ev),
      epoll_wrband = bump event_mask EPOLLWRBAND (epoll_wrband ev),
      epoll_msg = bump event_mask EPOLLMSG (epoll_msg ev), epoll_err = bump event_mask EPOLLERR (epoll_err ev),
      epoll_hup = bump event_mask EPOLLHUP (epoll_hup ev),
      epoll_oneshot = bump event_mask EPOLLONESHOT (epoll_oneshot ev),
      epoll_et = bump event_mask EPOLLET (epoll_et ev)\<rparr>"

definition count_line :: "string \<Rightarrow> counter \<Rightarrow> string" where
  "count_line name n = (if n \<noteq> 0 then CHR 0x09 # name @ dec (unat n) @ [CHR 0x0A] else [])"

text \<open>\<open>operator<<\<close> of \<open>Events\<close>: the counters that are not zero, each on a line of its own.\<close>

definition Events_print :: "Events \<Rightarrow> string" where
  "Events_print ev =
     count_line ''      EPOLLIN: '' (epoll_in ev) @ count_line ''     EPOLLPRI: '' (epoll_pri ev) @
     count_line ''     EPOLLOUT: '' (epoll_out ev) @ count_line ''  EPOLLRDNORM: '' (epoll_rdnorm ev) @
     count_line ''  EPOLLRDBAND: '' (epoll_rdband ev) @ count_line ''  EPOLLWRNORM: '' (epoll_wrnorm ev) @
     count_line ''  EPOLLWRBAND: '' (epoll_wrband ev) @ count_line ''     EPOLLMSG: '' (epoll_msg ev) @
     count_line ''     EPOLLERR: '' (epoll_err ev) @ count_line ''     EPOLLHUP: '' (epoll_hup ev) @
     count_line '' EPOLLONESHOT: '' (epoll_oneshot ev) @ count_line ''      EPOLLET: '' (epoll_et ev)"

section \<open>The recorder\<close>

datatype DebugOutput = FDMaskOutput int mask string | EpollWaitOutput int int

fun OutputToStream :: "DebugOutput \<Rightarrow> string" where
  "OutputToStream (FDMaskOutput fd m func) =
     ''func: '' @ func @ CHR 0x09 # ''fd: '' @ dec_int fd @
     (if m \<noteq> 0 then CHR 0x09 # ''mask: '' @ EventMaskToString m else [])"
| "OutputToStream (EpollWaitOutput timeout num_events) =
     ''timeout_in_ms: '' @ dec_int timeout @ CHR 0x09 # ''num_events_generated: '' @ dec_int num_events"

text \<open>\<open>er_log\<close> collects what is written to LOG(INFO).\<close>

record EventRecorder =
  debug_events :: "DebugOutput list"
  unregistered_fds :: "Events list"
  event_counts :: "(int \<times> Events) list"
  num_records :: int
  record_threshold :: int
  er_log :: "string list"

definition EventRecorder_new :: EventRecorder where
  "EventRecorder_new = \<lparr>debug_events = [], unregistered_fds = [], event_counts = [], num_records = 0,
     record_threshold = 10000, er_log = []\<rparr>"

definition set_record_threshold :: "int \<Rightarrow> EventRecorder \<Rightarrow> EventRecorder" where
  "set_record_threshold t r = r\<lparr>record_threshold := t\<rparr>"

definition EventRecorder_Clear :: "EventRecorder \<Rightarrow> EventRecorder" where
  "EventRecorder_Clear r = r\<lparr>debug_events := [], unregistered_fds := [], event_counts := []\<rparr>"

text \<open>
  \<open>operator<<\<close> of the recorder. A descriptor that is gone is announced by its counters, not its number:
  \<open>unregistered_fds_\<close> holds only the \<open>Events\<close>.
\<close>

definition EventRecorder_print :: "EventRecorder \<Rightarrow> string" where
  "EventRecorder_print r =
     concat (map (\<lambda>ev. ''fd: '' @ Events_print ev @ [CHR 0x0A] @ Events_print ev) (unregistered_fds r)) @
     concat (map (\<lambda>(fd, ev). ''fd: '' @ dec_int fd @ [CHR 0x0A] @ Events_print ev) (event_counts r)) @
     concat (map (\<lambda>d. OutputToStream d @ [CHR 0x0A]) (debug_events r))"

definition MaybeRecordAndClear :: "EventRecorder \<Rightarrow> EventRecorder" where
  "MaybeRecordAndClear r =
     (let r = r\<lparr>num_records := int64_of (num_records r + 1)\<rparr>
      in if num_records r > record_threshold r \<and> record_threshold r > 0
         then EventRecorder_Clear (r\<lparr>er_log := er_log r @ [CHR 0x0A # EventRecorder_print r], num_records := 0\<rparr>)
         else r)"

definition RecordFDMaskEvent :: "int \<Rightarrow> mask \<Rightarrow> string \<Rightarrow> EventRecorder \<Rightarrow> EventRecorder" where
  "RecordFDMaskEvent fd m func r = MaybeRecordAndClear (r\<lparr>debug_events := debug_events r @ [FDMaskOutput fd m func]\<rparr>)"

definition RecordEpollWaitEvent :: "int \<Rightarrow> int \<Rightarrow> EventRecorder \<Rightarrow> EventRecorder" where
  "RecordEpollWaitEvent timeout n r = MaybeRecordAndClear (r\<lparr>debug_events := debug_events r @ [EpollWaitOutput timeout n]\<rparr>)"

text \<open>\<open>event_counts_[fd]\<close> creates a missing entry.\<close>

definition counts_of :: "int \<Rightarrow> EventRecorder \<Rightarrow> Events" where
  "counts_of fd r = (case map_of (event_counts r) fd of None \<Rightarrow> Events_new | Some ev \<Rightarrow> ev)"

definition RecordEpollEvent :: "int \<Rightarrow> mask \<Rightarrow> EventRecorder \<Rightarrow> EventRecorder" where
  "RecordEpollEvent fd m r =
     MaybeRecordAndClear (r\<lparr>event_counts := AList.update fd (AssignFromMask m (counts_of fd r)) (event_counts r)\<rparr>)"

definition RecordUnregistration :: "int \<Rightarrow> EventRecorder \<Rightarrow> EventRecorder" where
  "RecordUnregistration fd r =
     MaybeRecordAndClear
       (case map_of (event_counts r) fd of
          None \<Rightarrow> r
        | Some ev \<Rightarrow> r\<lparr>unregistered_fds := unregistered_fds r @ [ev],
                        event_counts := AList.delete fd (event_counts r)\<rparr>)"

section \<open>LogStateOnCrash\<close>

text \<open>
  The lines sent to LOG(ERROR). Pointers print in a way C++ leaves open, so the printers for the server,
  alarms and callbacks are arguments.
\<close>

definition LogStateOnCrash ::
  "string \<Rightarrow> ('al \<Rightarrow> string) \<Rightarrow> ('cb option \<Rightarrow> string) \<Rightarrow> ('cb, 'al, 'w) es \<Rightarrow> string list" where
  "LogStateOnCrash this show_al show_cb s =
     [''----------------------Epoll Server---------------------------'',
      ''Epoll server '' @ this @ '' polling on fd '' @ dec_int (epoll_fd s),
      ''timeout_in_us_: '' @ dec_int (timeout_in_us s),
      dec (length (alarm_map s)) @ '' alarms registered.''] @
     map (\<lambda>(_, t, al). ''Alarm '' @ show_al al @ '' registered at time '' @ dec_int t @ '' and should be skipped = '' @
            (if al \<in> alarms_reregistered_and_should_be_skipped s then ''1'' else ''0'')) (alarm_map s) @
     [dec (length (cb_map s)) @ '' fd callbacks registered.''] @
     map (\<lambda>(fd, a). case nodes s a of
            None \<Rightarrow> []
          | Some n \<Rightarrow> ''fd: '' @ dec_int (ce_fd n) @ '' with mask '' @ dec_int (sint (ce_event_mask n)) @
              '' registered with cb: '' @ show_cb (ce_cb n)) (cb_map s) @
     [''----------------------/Epoll Server--------------------------'']"

section \<open>Reading a printed mask\<close>

definition event_names :: "(string \<times> nat) list" where
  "event_names = [(''EPOLLIN'', 0), (''EPOLLPRI'', 1), (''EPOLLOUT'', 2), (''EPOLLRDNORM'', 6), (''EPOLLRDBAND'', 7),
     (''EPOLLWRNORM'', 8), (''EPOLLWRBAND'', 9), (''EPOLLMSG'', 10), (''EPOLLERR'', 3), (''EPOLLHUP'', 4),
     (''EPOLLONESHOT'', 30), (''EPOLLET'', 31)]"

definition name_bit :: "string \<Rightarrow> mask" where
  "name_bit w = (case map_of event_names w of None \<Rightarrow> 0 | Some k \<Rightarrow> push_bit k 1)"

text \<open>Reads names ended by blanks; \<open>w\<close> is the part of a name read so far.\<close>

fun scan_mask :: "string \<Rightarrow> string \<Rightarrow> mask" where
  "scan_mask w [] = 0"
| "scan_mask w (c # cs) = (if c = CHR '' '' then name_bit w OR scan_mask [] cs else scan_mask (w @ [c]) cs)"

definition known_events :: mask where
  "known_events = EPOLLIN OR EPOLLPRI OR EPOLLOUT OR EPOLLRDNORM OR EPOLLRDBAND OR EPOLLWRNORM OR EPOLLWRBAND OR
     EPOLLMSG OR EPOLLERR OR EPOLLHUP OR EPOLLONESHOT OR EPOLLET"

lemma scan_mask_word: "CHR '' '' \<notin> set n \<Longrightarrow> scan_mask w (n @ CHR '' '' # cs) = name_bit (w @ n) OR scan_mask [] cs"
  by (induction n arbitrary: w) auto

lemma epoll_bits_push:
  "EPOLLIN = push_bit 0 1" "EPOLLPRI = push_bit 1 1" "EPOLLOUT = push_bit 2 1" "EPOLLRDNORM = push_bit 6 1"
  "EPOLLRDBAND = push_bit 7 1" "EPOLLWRNORM = push_bit 8 1" "EPOLLWRBAND = push_bit 9 1" "EPOLLMSG = push_bit 10 1"
  "EPOLLERR = push_bit 3 1" "EPOLLHUP = push_bit 4 1" "EPOLLONESHOT = push_bit 30 1" "EPOLLET = push_bit 31 1"
  by (simp_all add: epoll_bits push_bit_eq_mult)

definition print_event :: "mask \<Rightarrow> string \<times> nat \<Rightarrow> string" where
  "print_event m e = (if m AND push_bit (snd e) 1 \<noteq> 0 then fst e @ [CHR '' ''] else [])"

lemma EventMaskToString_table: "EventMaskToString m = concat (map (print_event m) event_names)"
  by (simp add: EventMaskToString_def epoll_bits_push event_names_def print_event_def split del: if_split cong: if_cong)

lemma and_single_bit: "(if m AND push_bit k 1 \<noteq> 0 then push_bit k 1 else 0) = m AND push_bit k (1 :: 'a::len word)"
proof -
  have "bit (m AND push_bit k 1) n \<longleftrightarrow> bit (push_bit k (1 :: 'a word)) n \<and> bit m k" for n
    by (auto simp: bit_and_iff bit_exp_iff)
  then have "m AND push_bit k 1 = (if bit m k then push_bit k 1 else 0)" by (intro bit_word_eqI) simp
  then show ?thesis by auto
qed

lemma scan_print_event:
  assumes "e \<in> set event_names"
  shows "scan_mask [] (print_event m e @ cs) = (m AND push_bit (snd e) 1) OR scan_mask [] cs"
proof -
  have "CHR '' '' \<notin> set (fst e)" "name_bit (fst e) = push_bit (snd e) 1"
    using assms by (auto simp: event_names_def name_bit_def)
  then show ?thesis
    using scan_mask_word [of "fst e" "[]" cs] and_single_bit [of m "snd e"] by (simp add: print_event_def split: if_splits)
qed

lemma scan_print_events:
  "set es \<subseteq> set event_names \<Longrightarrow>
   scan_mask [] (concat (map (print_event m) es)) = m AND foldr (\<lambda>e b. push_bit (snd e) 1 OR b) es 0"
  by (induction es) (simp_all add: scan_print_event bit.conj_disj_distrib)

text \<open>
  C39: The text EventMaskToString prints for a mask determines it: reading the names back gives
  exactly the events of the mask that have a name. Two masks print alike only if they agree on these.
\<close>

theorem event_mask_roundtrip: "scan_mask [] (EventMaskToString m) = m AND known_events"
proof -
  have "foldr (\<lambda>e b. push_bit (snd e) 1 OR b) event_names 0 = known_events"
    by (simp add: known_events_def epoll_bits_push event_names_def or.assoc)
  then show ?thesis by (simp add: EventMaskToString_table scan_print_events)
qed

section \<open>The recorder as a bounded log\<close>

datatype rec_op = Rec_mask int mask string | Rec_wait int int | Rec_event int mask | Rec_unregister int

fun run_rec_op :: "rec_op \<Rightarrow> EventRecorder \<Rightarrow> EventRecorder" where
  "run_rec_op (Rec_mask fd m func) = RecordFDMaskEvent fd m func"
| "run_rec_op (Rec_wait t n) = RecordEpollWaitEvent t n"
| "run_rec_op (Rec_event fd m) = RecordEpollEvent fd m"
| "run_rec_op (Rec_unregister fd) = RecordUnregistration fd"

definition recorded :: "EventRecorder \<Rightarrow> nat" where
  "recorded r = length (debug_events r) + length (unregistered_fds r) + length (event_counts r)"

definition rec_ok :: "EventRecorder \<Rightarrow> bool" where
  "rec_ok r \<longleftrightarrow> int (recorded r) \<le> num_records r \<and> num_records r \<le> record_threshold r \<and>
     0 < record_threshold r \<and> record_threshold r < 2 ^ 63 - 1"

lemma MaybeRecordAndClear_ok:
  assumes "int (recorded r) \<le> num_records r + 1" "0 \<le> num_records r" "num_records r \<le> record_threshold r"
    "0 < record_threshold r" "record_threshold r < 2 ^ 63 - 1"
  shows "rec_ok (MaybeRecordAndClear r)" "record_threshold (MaybeRecordAndClear r) = record_threshold r"
proof -
  have "in_int64 (num_records r + 1)" using assms by (simp add: in_int64_def)
  then show "rec_ok (MaybeRecordAndClear r)" "record_threshold (MaybeRecordAndClear r) = record_threshold r"
    using assms by (auto simp: MaybeRecordAndClear_def EventRecorder_Clear_def rec_ok_def recorded_def Let_def)
qed

lemma length_update_le: "length (AList.update k v xs) \<le> Suc (length xs)"
  by (induction xs) auto

lemma run_rec_op_ok:
  assumes "rec_ok r"
  shows "rec_ok (run_rec_op op r) \<and> record_threshold (run_rec_op op r) = record_threshold r"
proof -
  have r: "int (recorded r) \<le> num_records r" "num_records r \<le> record_threshold r"
    "0 < record_threshold r" "record_threshold r < 2 ^ 63 - 1" "0 \<le> num_records r"
    using assms by (auto simp: rec_ok_def)
  have maybe: "rec_ok (MaybeRecordAndClear q) \<and> record_threshold (MaybeRecordAndClear q) = record_threshold r"
    if "recorded q \<le> Suc (recorded r)" "num_records q = num_records r" "record_threshold q = record_threshold r" for q
    using MaybeRecordAndClear_ok [of q] that r by simp
  show ?thesis
  proof (cases op)
    case (Rec_event fd m)
    then show ?thesis using length_update_le [of fd _ "event_counts r"]
      by (simp add: RecordEpollEvent_def) (rule maybe, simp_all add: recorded_def)
  next
    case (Rec_unregister fd)
    then show ?thesis using length_delete_le [of fd "event_counts r"]
      by (simp add: RecordUnregistration_def) (rule maybe, auto simp: recorded_def split: option.split)
  qed (simp_all add: RecordFDMaskEvent_def RecordEpollWaitEvent_def, (rule maybe, simp_all add: recorded_def)+)
qed

text \<open>
  C40: The event recorder cannot grow without bound: with a positive threshold it never holds more
  records than the threshold, whatever is recorded, because it writes itself to the log and starts afresh.
\<close>

theorem recorder_bounded:
  assumes "0 < t" "t < 2 ^ 63 - 1"
  shows "int (recorded (fold run_rec_op ops (set_record_threshold t EventRecorder_new))) \<le> t"
proof -
  have "rec_ok (set_record_threshold t EventRecorder_new)"
    using assms by (simp add: rec_ok_def set_record_threshold_def EventRecorder_new_def recorded_def)
  then have "rec_ok (fold run_rec_op ops r) \<and> record_threshold (fold run_rec_op ops r) = record_threshold r"
    if "rec_ok r" for r
    using that by (induction ops arbitrary: r) (simp_all add: run_rec_op_ok)
  from this [of "set_record_threshold t EventRecorder_new"] assms show ?thesis
    by (simp add: rec_ok_def set_record_threshold_def EventRecorder_new_def recorded_def)
qed

theorem recorder_bounded_witness:
  "int (recorded (fold run_rec_op [Rec_event 3 EPOLLIN, Rec_wait 50 1, Rec_unregister 3]
     (set_record_threshold 2 EventRecorder_new))) \<le> 2"
  by (rule recorder_bounded) simp_all

end
