(* ===== verification/Perf_Options.thy ===== *)
theory Perf_Options
  imports Event_Recorder
begin

text \<open>
  The command lines of \<open>quic_perf_server\<close> and \<open>quic_perf_client\<close> (quic_perf_server.cc, quic_perf_client.cc).

  The C library's \<open>getopt\<close>, \<open>atoi\<close> and \<open>sscanf\<close> are written out as glibc has them: options may be mixed with
  other arguments, which end up behind them; \<open>atoi\<close> is \<open>(int) strtol\<close>, which saturates at 64 bits; \<open>%hhu\<close>
  keeps the low byte of \<open>strtoul\<close>.
\<close>

section \<open>The C library\<close>

definition isspace :: "char \<Rightarrow> bool" where
  "isspace c \<longleftrightarrow> c = CHR '' '' \<or> of_char c \<in> {9..13::nat}"

definition isdigit :: "char \<Rightarrow> bool" where
  "isdigit c \<longleftrightarrow> of_char c \<in> {48..57::nat}"

definition isprint :: "char \<Rightarrow> bool" where
  "isprint c \<longleftrightarrow> of_char c \<in> {32..126::nat}"

definition digits_value :: "string \<Rightarrow> int" where
  "digits_value ds = foldl (\<lambda>v d. 10 * v + (of_char d - 48)) 0 ds"

text \<open>A number as \<open>strtol\<close> and \<open>strtoul\<close> read it: sign, digits and what follows.\<close>

definition read_number :: "string \<Rightarrow> bool \<times> string \<times> string" where
  "read_number s =
     (let s = dropWhile isspace s;
          (neg, s) = (case s of [] \<Rightarrow> (False, []) | c # t \<Rightarrow>
             if c = CHR ''-'' then (True, t) else if c = CHR ''+'' then (False, t) else (False, c # t))
      in (neg, takeWhile isdigit s, dropWhile isdigit s))"

definition atoi :: "string \<Rightarrow> int" where
  "atoi s =
     (let (neg, ds, _) = read_number s; v = digits_value ds
      in int32_of (if neg then max (- (2 ^ 63)) (- v) else min (2 ^ 63 - 1) v))"

text \<open>One \<open>%hhu\<close>: the byte and the rest of the input, \<open>None\<close> when no number is there.\<close>

definition scan_hhu :: "string \<Rightarrow> (8 word \<times> string) option" where
  "scan_hhu s =
     (let (neg, ds, rest) = read_number s; v = digits_value ds
      in if ds = [] then None
         else Some (word_of_int (if 2 ^ 64 \<le> v then 2 ^ 64 - 1 else if neg then - v else v), rest))"

text \<open>\<open>sscanf (s, "%hhu.%hhu. ...", ...)\<close> with \<open>n\<close> numbers: those it assigns.\<close>

fun scan_dotted :: "nat \<Rightarrow> string \<Rightarrow> 8 word list" where
  "scan_dotted 0 s = []"
| "scan_dotted (Suc n) s =
     (case scan_hhu s of
        None \<Rightarrow> []
      | Some (b, rest) \<Rightarrow> b # (case rest of [] \<Rightarrow> [] | c # t \<Rightarrow> if c = CHR ''.'' then scan_dotted n t else []))"

datatype opt_result = Opt char string | Missing_argument char | Unrecognized char

text \<open>The options in one argument; every known option takes a value.\<close>

fun short_opts :: "char list \<Rightarrow> string \<Rightarrow> string list \<Rightarrow> opt_result list \<times> string list" where
  "short_opts known [] args = ([], args)"
| "short_opts known (c # cs) args =
     (if c \<in> set known then
        (if cs \<noteq> [] then ([Opt c cs], args)
         else case args of [] \<Rightarrow> ([Missing_argument c], []) | a # args \<Rightarrow> ([Opt c a], args))
      else let (rs, args) = short_opts known cs args in (Unrecognized c # rs, args))"

lemma short_opts_rest: "length (snd (short_opts known cs args)) \<le> length args"
  by (induction known cs args rule: short_opts.induct) (auto simp: split_beta split: list.splits)

text \<open>All that \<open>getopt\<close> returns before -1, and the arguments from \<open>optind\<close> on.\<close>

function (sequential) getopt_all :: "char list \<Rightarrow> string list \<Rightarrow> opt_result list \<times> string list" where
  "getopt_all known [] = ([], [])"
| "getopt_all known (a # args) =
     (if a = ''--'' then ([], args)
      else if a \<noteq> [] \<and> hd a = CHR ''-'' \<and> tl a \<noteq> [] then
        let (rs, rest) = short_opts known (tl a) args; (rs', others) = getopt_all known rest in (rs @ rs', others)
      else let (rs, others) = getopt_all known args in (rs, a # others))"
  by pat_completeness auto
termination
proof (relation "measure (\<lambda>(known, args). length args)", goal_cases)
  case (2 known a args x rs rest)
  then show ?case using short_opts_rest [of known "tl a" args] by (metis case_prod_conv in_measure le_imp_less_Suc length_Cons snd_conv)
qed simp_all

section \<open>Option handling\<close>

definition printable :: "char \<Rightarrow> char" where
  "printable ch = (if isprint ch then ch else CHR ''#'')"

text \<open>What \<open>usageError\<close> prints and its exit status; \<open>tail\<close> is the program's own usage line.\<close>

definition usageError :: "string \<Rightarrow> string \<Rightarrow> string option \<Rightarrow> char \<Rightarrow> string \<times> int" where
  "usageError tail progName msg opt =
     ((case msg of None \<Rightarrow> [] | Some m \<Rightarrow> if opt \<noteq> CHR 0x00 then m @ '' (-'' @ [printable opt] @ '')'' @ [CHR 0x0A] else []) @
      ''Usage: '' @ progName @ tail @ [CHR 0x0A], 1)"

definition server_usage :: "string \<Rightarrow> string option \<Rightarrow> char \<Rightarrow> string \<times> int" where
  "server_usage = usageError '' -p port_number -n num_of_packets''"

definition client_usage :: "string \<Rightarrow> string option \<Rightarrow> char \<Rightarrow> string \<times> int" where
  "client_usage = usageError '' -p port_number ip_number''"

fun server_opt_loop :: "string \<Rightarrow> opt_result list \<Rightarrow> int \<Rightarrow> int \<Rightarrow> (string \<times> int) + (int \<times> int)" where
  "server_opt_loop prog [] port_number packet_num = Inr (port_number, packet_num)"
| "server_opt_loop prog (Opt c optarg # rs) port_number packet_num =
     (if c = CHR ''p'' then server_opt_loop prog rs (atoi optarg) packet_num
      else if c = CHR ''n'' then server_opt_loop prog rs port_number (atoi optarg)
      else Inl (server_usage prog None c))"
| "server_opt_loop prog (Missing_argument c # rs) port_number packet_num = Inl (server_usage prog (Some ''Missing argument'') c)"
| "server_opt_loop prog (Unrecognized c # rs) port_number packet_num = Inl (server_usage prog (Some ''Unrecognized option'') c)"

definition server_options :: "string \<Rightarrow> string list \<Rightarrow> (string \<times> int) + (int \<times> int)" where
  "server_options prog args =
     rbind (server_opt_loop prog (fst (getopt_all ''pn'' args)) (-1) (-1)) (\<lambda>(port_number, packet_num).
     if port_number = -1 \<or> packet_num = -1 then Inl (server_usage prog None (CHR 0x00)) else Inr (port_number, packet_num))"

fun client_opt_loop :: "string \<Rightarrow> opt_result list \<Rightarrow> int \<Rightarrow> (string \<times> int) + int" where
  "client_opt_loop prog [] port_number = Inr port_number"
| "client_opt_loop prog (Opt c optarg # rs) port_number =
     (if c = CHR ''p'' then client_opt_loop prog rs (atoi optarg) else Inl (client_usage prog None c))"
| "client_opt_loop prog (Missing_argument c # rs) port_number = Inl (client_usage prog (Some ''Missing argument'') c)"
| "client_opt_loop prog (Unrecognized c # rs) port_number = Inl (client_usage prog (Some ''Unrecognized option'') c)"

text \<open>The port and \<open>ip_str\<close>.\<close>

definition client_options :: "string \<Rightarrow> string list \<Rightarrow> (string \<times> int) + (int \<times> string)" where
  "client_options prog args =
     (let (opts, others) = getopt_all ''p'' args
      in rbind (client_opt_loop prog opts (-1)) (\<lambda>port_number.
         if port_number = -1 then Inl (client_usage prog None (CHR 0x00))
         else case others of
                [] \<Rightarrow> Inl (client_usage prog None (CHR 0x00))
              | ip_str # _ \<Rightarrow> Inr (port_number, ip_str)))"

text \<open>The bytes \<open>a\<close> to \<open>d\<close>; those that \<open>sscanf\<close> does not assign keep the values \<open>junk\<close>.\<close>

definition client_ip_bytes :: "8 word list \<Rightarrow> string \<Rightarrow> 8 word list" where
  "client_ip_bytes junk ip_str = (let bs = scan_dotted 4 ip_str in bs @ drop (length bs) junk)"

section \<open>Printed numbers are read back\<close>

lemma digits_value_append: "digits_value (xs @ [d]) = 10 * digits_value xs + (of_char d - 48)"
  by (simp add: digits_value_def)

lemma of_char_digit: "n < 10 \<Longrightarrow> of_char (char_of (48 + n) :: char) = (48 + n :: nat)"
  by (simp add: of_char_of)

lemma of_char_digit_int: "n < 10 \<Longrightarrow> of_char (char_of (48 + n :: nat) :: char) = (48 + int n)"
  by (metis of_char_digit of_nat_add of_nat_numeral of_nat_of_char)

lemma dec_digits: "(\<forall>c \<in> set (dec n). isdigit c) \<and> dec n \<noteq> [] \<and> digits_value (dec n) = int n"
proof (induction n rule: dec.induct)
  case (1 n)
  show ?case
  proof (cases "n < 10")
    case True
    with of_char_digit [OF True] of_char_digit_int [OF True] show ?thesis
      by (simp add: dec.simps [of n] isdigit_def digits_value_def del: of_char_of)
  next
    case False
    have "isdigit (char_of (48 + n mod 10))" using of_char_digit [of "n mod 10"] by (simp add: isdigit_def)
    with 1 [OF False] False of_char_digit_int [of "n mod 10"] show ?thesis
      by (simp add: dec.simps [of n] digits_value_append del: of_char_of) (simp add: zdiv_int zmod_int)
  qed
qed

lemma isdigit_signs: "\<not> isspace c \<and> c \<noteq> CHR ''-'' \<and> c \<noteq> CHR ''+''" if "isdigit c"
  using that by (auto simp: isdigit_def isspace_def)

lemma read_number_dec:
  assumes "rest = [] \<or> \<not> isdigit (hd rest)"
  shows "read_number (dec n @ rest) = (False, dec n, rest)"
proof -
  obtain d ds where d: "dec n = d # ds" using dec_digits [of n] by (cases "dec n") auto
  have all: "\<forall>c \<in> set (dec n). isdigit c" using dec_digits [of n] by blast
  then have "\<not> isspace d" "d \<noteq> CHR ''-''" "d \<noteq> CHR ''+''" using isdigit_signs [of d] d by auto
  moreover have "takeWhile isdigit (dec n @ rest) = dec n" "dropWhile isdigit (dec n @ rest) = rest"
    using all assms by (cases rest; simp)+
  ultimately show ?thesis by (simp add: read_number_def d Let_def)
qed

lemma atoi_dec: "n < 2 ^ 31 \<Longrightarrow> atoi (dec n) = int n"
  using read_number_dec [of "[]" n] dec_digits [of n] int32_of_id [of "int n"]
  by (simp add: atoi_def in_int32_def)

lemma scan_hhu_dec:
  assumes "rest = [] \<or> \<not> isdigit (hd rest)"
  shows "scan_hhu (dec (unat b) @ rest) = Some (b, rest)"
proof -
  have "uint b < 2 ^ 8" using uint_bounded [of b] by simp
  then have "int (unat b) < 2 ^ 64" by simp
  then show ?thesis using read_number_dec [OF assms, of "unat b"] dec_digits [of "unat b"]
    by (simp add: scan_hhu_def)
qed

fun dotted :: "8 word list \<Rightarrow> string" where
  "dotted [] = []"
| "dotted [b] = dec (unat b)"
| "dotted (b # bs) = dec (unat b) @ ''.'' @ dotted bs"

lemma scan_dotted_dotted: "bs \<noteq> [] \<Longrightarrow> scan_dotted (length bs) (dotted bs) = bs"
proof (induction bs rule: dotted.induct)
  case (2 b)
  then show ?case using scan_hhu_dec [of "[]" b] by simp
next
  case (3 b c bs)
  have "\<not> isdigit (CHR ''.'')" by (simp add: isdigit_def)
  with 3 scan_hhu_dec [of "''.'' @ dotted (c # bs)" b] show ?case by simp
qed simp

lemma dotted_no_option:
  assumes "bs \<noteq> []"
  shows "getopt_all known (dotted bs # rest) = (fst (getopt_all known rest), dotted bs # snd (getopt_all known rest))"
proof -
  have "dotted bs \<noteq> [] \<and> isdigit (hd (dotted bs))"
    using assms
  proof (induction bs rule: dotted.induct)
    case (2 b)
    then show ?case using dec_digits [of "unat b"] by (auto intro: hd_in_set)
  next
    case (3 b c bs)
    then show ?case using dec_digits [of "unat b"] by (auto intro: hd_in_set)
  qed simp
  then have "hd (dotted bs) \<noteq> CHR ''-''" "dotted bs \<noteq> ''--''" using isdigit_signs by fastforce+
  then show ?thesis by (simp add: split_beta)
qed

section \<open>Properties\<close>

text \<open>
  C37: The two programs read their command lines as documented. Port and packet count printed in
  decimal after -p and -n come back as the numbers, in either order; the client's dotted address, before or
  after the port, comes back as its four bytes, none left unset.
\<close>

theorem perf_options_roundtrip:
  assumes "p < 2 ^ 31" "n < 2 ^ 31"
  shows "server_options prog [''-p'', dec p, ''-n'', dec n] = Inr (int p, int n) \<and>
    server_options prog [''-n'', dec n, ''-p'', dec p] = Inr (int p, int n) \<and>
    client_options prog [''-p'', dec p, dotted [a, b, c, d]] = Inr (int p, dotted [a, b, c, d]) \<and>
    client_options prog [dotted [a, b, c, d], ''-p'', dec p] = Inr (int p, dotted [a, b, c, d]) \<and>
    client_ip_bytes junk (dotted [a, b, c, d]) = [a, b, c, d] @ drop 4 junk"
proof (intro conjI)
  note no = dotted_no_option [of "[a, b, c, d]"] and v = atoi_dec [OF assms(1)] atoi_dec [OF assms(2)]
  show "server_options prog [''-p'', dec p, ''-n'', dec n] = Inr (int p, int n)"
    "server_options prog [''-n'', dec n, ''-p'', dec p] = Inr (int p, int n)"
    using v by (simp_all add: server_options_def)
  show "client_options prog [''-p'', dec p, dotted [a, b, c, d]] = Inr (int p, dotted [a, b, c, d])"
    using v by (simp add: client_options_def no del: dotted.simps getopt_all.simps(2)) (simp add: getopt_all.simps(2) [of _ "''-p''"] no del: dotted.simps getopt_all.simps(2))
  show "client_options prog [dotted [a, b, c, d], ''-p'', dec p] = Inr (int p, dotted [a, b, c, d])"
    using v by (simp add: client_options_def no del: dotted.simps getopt_all.simps(2)) (simp add: getopt_all.simps(2) [of _ "''-p''"] no del: dotted.simps getopt_all.simps(2))
  show "client_ip_bytes junk (dotted [a, b, c, d]) = [a, b, c, d] @ drop 4 junk"
    using scan_dotted_dotted [of "[a, b, c, d]"] by (simp add: client_ip_bytes_def numeral_eq_Suc del: dotted.simps)
qed

theorem perf_options_roundtrip_witness:
  "server_options ''s'' [''-p'', dec 4433, ''-n'', dec 10] = Inr (4433, 10) \<and>
   client_options ''c'' [''-p'', dec 4433, dotted [10, 0, 0, 255]] = Inr (4433, dotted [10, 0, 0, 255]) \<and>
   client_ip_bytes [] (dotted [10, 0, 0, 255]) = [10, 0, 0, 255]"
  using perf_options_roundtrip [of 4433 10 "''s''" 10 0 0 255 "[]"] perf_options_roundtrip [of 4433 10 "''c''" 10 0 0 255 "[]"]
  by simp

lemma int32_of_range: "in_int32 (int32_of x)"
  using signed_take_bit_int_greater_eq_minus_exp [of 31 x] signed_take_bit_int_less_exp [of 31 x]
  by (simp add: in_int32_def int32_of_def)

lemma atoi_range: "in_int32 (atoi s)"
  by (simp add: atoi_def int32_of_range split_beta Let_def)

lemma server_opt_loop_result:
  "in_int32 p \<Longrightarrow> in_int32 n \<Longrightarrow>
   (case server_opt_loop prog rs p n of
      Inl (msg, code) \<Rightarrow> code = 1 \<and> (\<exists>pre. msg = pre @ fst (server_usage prog None (CHR 0x00)))
    | Inr (p', n') \<Rightarrow> in_int32 p' \<and> in_int32 n')"
proof (induction prog rs p n rule: server_opt_loop.induct)
  case (2 prog c optarg rs p n)
  then show ?case using atoi_range [of optarg] by (auto simp: server_usage_def usageError_def)
qed (auto simp: server_usage_def usageError_def)

lemma server_options_result:
  "case server_options prog args of
     Inl (msg, code) \<Rightarrow> code = 1 \<and> (\<exists>pre. msg = pre @ ''Usage: '' @ prog @ '' -p port_number -n num_of_packets'' @ [CHR 0x0A])
   | Inr (p, n) \<Rightarrow> p \<noteq> -1 \<and> n \<noteq> -1 \<and> in_int32 p \<and> in_int32 n"
proof -
  have "in_int32 (-1)" by (simp add: in_int32_def)
  from server_opt_loop_result [OF this this, of prog "fst (getopt_all ''pn'' args)"] show ?thesis
    by (cases "server_opt_loop prog (fst (getopt_all ''pn'' args)) (-1) (-1)")
      (auto simp: server_options_def server_usage_def usageError_def)
qed

text \<open>
  C38: Whatever the arguments, \<open>quic_perf_server\<close> either exits with status 1 after printing its usage,
  or goes on with two 32-bit numbers, neither of them the -1 that stands for a missing option.
\<close>

theorem server_options_checked:
  "case server_options prog args of
     Inl (msg, code) \<Rightarrow> code = 1 \<and> (\<exists>pre. msg = pre @ ''Usage: '' @ prog @ '' -p port_number -n num_of_packets'' @ [CHR 0x0A])
   | Inr (p, n) \<Rightarrow> p \<noteq> -1 \<and> n \<noteq> -1 \<and> in_int32 p \<and> in_int32 n"
  by (rule server_options_result)

end
