(* ===== verification/Epoll_Invariant.thy ===== *)
theory Epoll_Invariant
  imports Epoll_Server
begin

unbundle bit_operations_syntax

text \<open>
  The structural invariant of \<open>EpollServer\<close> and that every descriptor operation keeps it.

  \<open>es_wf s rs ts\<close>: the pointers represent the ready list \<open>rs\<close> and the list under iteration
  \<open>ts\<close>; \<open>cb_map_\<close> has one node per descriptor and every live node is in it; a node on a list has a
  callback; a node without a callback is kept only because an OnEvent call still uses it.
  \<open>keeps s r\<close>: from such a state the result \<open>r\<close> is a new such state in which the list under
  iteration only lost nodes and the nodes in use are the same ones, or a deliberate
  \<open>LOG(FATAL)\<close>/CHECK; never a dangling or null pointer.
\<close>

named_theorems keeps_intros \<open>operations that keep the structural invariant\<close>

definition es_wf :: "('cb, 'al, 'w) es \<Rightarrow> addr list \<Rightarrow> addr list \<Rightarrow> bool" where
  "es_wf s rs ts \<longleftrightarrow>
     rl_view s rs ts \<and> keys_distinct (cb_map s) \<and>
     (\<forall>f a. map_of (cb_map s) f = Some a \<longrightarrow> (\<exists>n. nodes s a = Some n \<and> ce_fd n = f)) \<and>
     (\<forall>a n. nodes s a = Some n \<longrightarrow> map_of (cb_map s) (ce_fd n) = Some a) \<and>
     (\<forall>a n. nodes s a = Some n \<longrightarrow> a < next_addr s) \<and>
     (\<forall>a n. nodes s a = Some n \<longrightarrow> le_prev n \<noteq> None \<longrightarrow> ce_cb n \<noteq> None) \<and>
     (\<forall>a n. nodes s a = Some n \<longrightarrow> ce_cb n = None \<longrightarrow> ce_in_use n)"

lemma es_wfI:
  assumes "rl_view s rs ts" "keys_distinct (cb_map s)"
    "\<And>f a. map_of (cb_map s) f = Some a \<Longrightarrow> \<exists>n. nodes s a = Some n \<and> ce_fd n = f"
    "\<And>a n. nodes s a = Some n \<Longrightarrow> map_of (cb_map s) (ce_fd n) = Some a"
    "\<And>a n. nodes s a = Some n \<Longrightarrow> a < next_addr s"
    "\<And>a n. nodes s a = Some n \<Longrightarrow> le_prev n \<noteq> None \<Longrightarrow> ce_cb n \<noteq> None"
    "\<And>a n. nodes s a = Some n \<Longrightarrow> ce_cb n = None \<Longrightarrow> ce_in_use n"
  shows "es_wf s rs ts"
  using assms by (simp add: es_wf_def)

lemma es_wfD:
  assumes "es_wf s rs ts"
  shows "rl_view s rs ts" "keys_distinct (cb_map s)"
    "\<And>f a. map_of (cb_map s) f = Some a \<Longrightarrow> \<exists>n. nodes s a = Some n \<and> ce_fd n = f"
    "\<And>a n. nodes s a = Some n \<Longrightarrow> map_of (cb_map s) (ce_fd n) = Some a"
    "\<And>a n. nodes s a = Some n \<Longrightarrow> a < next_addr s"
    "\<And>a n. nodes s a = Some n \<Longrightarrow> le_prev n \<noteq> None \<Longrightarrow> ce_cb n \<noteq> None"
    "\<And>a n. nodes s a = Some n \<Longrightarrow> ce_cb n = None \<Longrightarrow> ce_in_use n"
  using assms unfolding es_wf_def by blast+

definition es_inv :: "('cb, 'al, 'w) es \<Rightarrow> bool" where
  "es_inv s \<longleftrightarrow> (\<exists>rs ts. es_wf s rs ts)"

definition busy :: "('cb, 'al, 'w) es \<Rightarrow> addr set" where
  "busy s = {a. \<exists>n. nodes s a = Some n \<and> ce_in_use n}"

definition evolves :: "('cb, 'al, 'w) es \<Rightarrow> ('cb, 'al, 'w) es \<Rightarrow> bool" where
  "evolves s s' \<longleftrightarrow>
     (\<forall>rs ts. es_wf s rs ts \<longrightarrow> (\<exists>rs' A. es_wf s' rs' (filter (\<lambda>x. x \<notin> A) ts))) \<and>
     (es_inv s \<longrightarrow> busy s' = busy s)"

definition keeps :: "('cb, 'al, 'w) es \<Rightarrow> ('cb, 'al, 'w) es res \<Rightarrow> bool" where
  "keeps s r \<longleftrightarrow> (es_inv s \<longrightarrow> (case r of Inl e \<Rightarrow> benign e | Inr s' \<Rightarrow> evolves s s'))"

section \<open>Composition\<close>

lemma evolves_refl [simp, intro]: "evolves s s"
  unfolding evolves_def by (metis empty_iff filter_True)

lemma evolves_inv: "evolves s s' \<Longrightarrow> es_inv s \<Longrightarrow> es_inv s'"
  unfolding evolves_def es_inv_def by blast

lemma evolves_trans: "evolves s t \<Longrightarrow> evolves t u \<Longrightarrow> evolves s u"
proof -
  assume st: "evolves s t" and tu: "evolves t u"
  have "\<exists>rs' A. es_wf u rs' (filter (\<lambda>x. x \<notin> A) ts)" if w: "es_wf s rs ts" for rs ts
  proof -
    from st w obtain r1 A where "es_wf t r1 (filter (\<lambda>x. x \<notin> A) ts)"
      unfolding evolves_def by blast
    with tu obtain r2 B where "es_wf u r2 (filter (\<lambda>x. x \<notin> B) (filter (\<lambda>x. x \<notin> A) ts))"
      unfolding evolves_def by blast
    moreover have "filter (\<lambda>x. x \<notin> B) (filter (\<lambda>x. x \<notin> A) ts) = filter (\<lambda>x. x \<notin> A \<union> B) ts"
      by (induction ts) auto
    ultimately show ?thesis by metis
  qed
  with st tu show ?thesis using evolves_inv [OF st] unfolding evolves_def by blast
qed

lemma keeps_Inr [simp]: "keeps s (Inr s') \<longleftrightarrow> (es_inv s \<longrightarrow> evolves s s')"
  by (simp add: keeps_def)

lemma keeps_fatal [simp, keeps_intros]:
  "keeps s (Inl (Log_fatal m))" "keeps s (Inl (Check_failed m))"
  by (simp_all add: keeps_def)

lemma keeps_Inr_refl [keeps_intros]: "keeps s (Inr s)"
  by simp

lemma keeps_bind [keeps_intros]:
  assumes "keeps s r" and "\<And>s'. r = Inr s' \<Longrightarrow> evolves s s' \<Longrightarrow> keeps s' (f s')"
  shows "keeps s (rbind r f)"
proof (cases r)
  case (Inl e)
  with assms(1) show ?thesis by (simp add: keeps_def)
next
  case (Inr t)
  show ?thesis unfolding keeps_def
  proof
    assume i: "es_inv s"
    with assms(1) Inr have st: "evolves s t" by simp
    with assms(2) [OF Inr] i have "case f t of Inl e \<Rightarrow> benign e | Inr s' \<Rightarrow> evolves t s'"
      using evolves_inv by (auto simp: keeps_def)
    with st Inr show "case rbind r f of Inl e \<Rightarrow> benign e | Inr s' \<Rightarrow> evolves s s'"
      by (auto split: sum.splits intro: evolves_trans)
  qed
qed

lemma keepsI: "(\<And>rs ts. es_wf s rs ts \<Longrightarrow> keeps s r) \<Longrightarrow> keeps s r"
  by (auto simp: keeps_def es_inv_def)

section \<open>Frame rules\<close>

lemma lists_frame [simp]:
  "rl_view (s\<lparr>env := w\<rparr>) rs ts = rl_view s rs ts"
  "rl_view (s\<lparr>calls := cs\<rparr>) rs ts = rl_view s rs ts"
  "rl_view (s\<lparr>cb_map := m\<rparr>) rs ts = rl_view s rs ts"
  "rl_view (s\<lparr>next_addr := b\<rparr>) rs ts = rl_view s rs ts"
  by (simp_all add: rl_view_def)

lemma dll_same_links:
  assumes "h a = Some n" "le_next n' = le_next n" "le_prev n' = le_prev n"
  shows "dll (h(a \<mapsto> n')) sl p xs \<longleftrightarrow> dll h sl p xs"
  using assms by (induction xs arbitrary: sl p) (auto split: option.splits)

lemma lists_same_links:
  assumes "nodes s a = Some n" "le_next n' = le_next n" "le_prev n' = le_prev n"
    and "rl_view s rs ts"
  shows "rl_view (s\<lparr>nodes := (nodes s)(a \<mapsto> n')\<rparr>) rs ts"
  using assms by (auto simp: rl_view_def dll_same_links)

lemma more_eq:
  assumes "ready_lists.more s' = ready_lists.more s"
  shows "s' = s\<lparr>nodes := nodes s', ready_first := ready_first s', tmp_first := tmp_first s',
                ready_list_size := ready_list_size s'\<rparr>"
  using assms by (cases s; cases s') simp

lemma more_fields:
  fixes s s' :: "('cb, 'al, 'w) es"
  assumes "ready_lists.more s' = ready_lists.more s"
  shows "cb_map s' = cb_map s" "next_addr s' = next_addr s" "env s' = env s" "calls s' = calls s"
    "epoll_fd s' = epoll_fd s" "all_alarms s' = all_alarms s" "alarm_map s' = alarm_map s"
    "next_token s' = next_token s" "timeout_in_us s' = timeout_in_us s"
    "recorded_now_in_us s' = recorded_now_in_us s"
    "alarms_reregistered_and_should_be_skipped s' = alarms_reregistered_and_should_be_skipped s"
    "in_wait_for_events_and_execute_callbacks s' = in_wait_for_events_and_execute_callbacks s"
    "in_shutdown s' = in_shutdown s" "alarm_objs s' = alarm_objs s"
  by (subst more_eq [OF assms], simp)+

lemma same_data_nodes:
  assumes "same_data s s'" and "nodes s' a = Some n'"
  obtains n where "nodes s a = Some n" and "payload n' = payload n"
proof -
  from assms(1) have "map_option payload (nodes s a) = map_option payload (nodes s' a)"
    unfolding same_data_def by metis
  then show ?thesis using assms(2) that by auto
qed

text \<open>A list operation that changes no data keeps the invariant if what is on the lists has a callback.\<close>

lemma es_wf_relink:
  fixes s s' :: "('cb, 'al, 'w) es"
  assumes w: "es_wf s rs ts" and d: "same_data s s'" and l: "rl_view s' rs' ts'"
    and c: "\<And>a n. a \<in> set (rs' @ ts') \<Longrightarrow> nodes s a = Some n \<Longrightarrow> ce_cb n \<noteq> None"
  shows "es_wf s' rs' ts'" "busy s' = busy s"
proof -
  note W = es_wfD [OF w]
  have eq: "nodes s' a = Some n' \<Longrightarrow> \<exists>n. nodes s a = Some n \<and> payload n' = payload n" for a n'
    using same_data_nodes [OF d] by metis
  have eq': "nodes s a = Some n \<Longrightarrow> \<exists>n'. nodes s' a = Some n' \<and> payload n' = payload n" for a n
    using same_data_node [OF d] by metis
  from d have "ready_lists.more s' = ready_lists.more s" by (simp add: same_data_def)
  note M = more_fields [OF this]
  have node: "map_of (cb_map s) (ce_fd n') = Some a \<and> a < next_addr s \<and>
      (le_prev n' \<noteq> None \<longrightarrow> ce_cb n' \<noteq> None) \<and> (ce_cb n' = None \<longrightarrow> ce_in_use n')"
    if n': "nodes s' a = Some n'" for a n'
  proof -
    from eq [OF n'] obtain n where n: "nodes s a = Some n" "payload n' = payload n" by blast
    with W(4,5,7) [OF n(1)] listsD(4) [OF l n'] c [of a n] show ?thesis
      using payload_fields [OF n(2)] by auto
  qed
  have "\<exists>n'. nodes s' a = Some n' \<and> ce_fd n' = f" if "map_of (cb_map s) f = Some a" for f a
  proof -
    from W(3) [OF that] obtain n where n: "nodes s a = Some n" "ce_fd n = f" by blast
    with eq' [OF n(1)] payload_fields(2) show ?thesis by auto
  qed
  then show "es_wf s' rs' ts'" using W(2) node l by (intro es_wfI) (auto simp: M)
  have "\<exists>n. nodes s a = Some n \<and> ce_in_use n" if "nodes s' a = Some n'" "ce_in_use n'" for a n'
    using eq [OF that(1)] that(2) payload_fields(6) by auto
  moreover have "\<exists>n. nodes s' a = Some n \<and> ce_in_use n" if "nodes s a = Some n" "ce_in_use n" for a n
    using eq' [OF that(1)] that(2) payload_fields(6) by auto
  ultimately show "busy s' = busy s" unfolding busy_def by blast
qed

lemma evolves_frame:
  "evolves s (s\<lparr>env := w\<rparr>)" "evolves s (log_call c s)"
proof -
  have "es_wf (s\<lparr>env := w\<rparr>) rs ts = es_wf s rs ts" "es_wf (log_call c s) rs ts = es_wf s rs ts"
    for rs ts by (simp_all add: es_wf_def log_call_def)
  moreover have "busy (s\<lparr>env := w\<rparr>) = busy s" "busy (log_call c s) = busy s"
    by (simp_all add: busy_def log_call_def)
  ultimately show "evolves s (s\<lparr>env := w\<rparr>)" "evolves s (log_call c s)"
    unfolding evolves_def by (metis empty_iff filter_True)+
qed

lemma es_wf_upd_use:
  assumes w: "es_wf s rs ts" and n: "nodes s a = Some n"
    and "le_next n' = le_next n" "le_prev n' = le_prev n" "ce_fd n' = ce_fd n"
    and "le_prev n \<noteq> None \<Longrightarrow> ce_cb n' \<noteq> None" "ce_cb n' = None \<Longrightarrow> ce_in_use n'"
  shows "es_wf (s\<lparr>nodes := (nodes s)(a \<mapsto> n')\<rparr>) rs ts"
    and "busy (s\<lparr>nodes := (nodes s)(a \<mapsto> n')\<rparr>) = (if ce_in_use n' then insert a (busy s) else busy s - {a})"
proof -
  note W = es_wfD [OF w]
  have "\<exists>m. ((nodes s)(a \<mapsto> n')) b = Some m \<and> ce_fd m = f" if "map_of (cb_map s) f = Some b" for f b
    using W(3) [OF that] n assms(5) by auto
  moreover have "map_of (cb_map s) (ce_fd n') = Some a" using W(4) [OF n] assms(5) by simp
  moreover have "le_prev n' \<noteq> None \<longrightarrow> ce_cb n' \<noteq> None" using assms(4,6) by simp
  ultimately show "es_wf (s\<lparr>nodes := (nodes s)(a \<mapsto> n')\<rparr>) rs ts"
    using W(2,4-7) lists_same_links [OF n assms(3,4) W(1)] n assms(7)
    by (intro es_wfI) (auto split: if_splits)
  show "busy (s\<lparr>nodes := (nodes s)(a \<mapsto> n')\<rparr>) = (if ce_in_use n' then insert a (busy s) else busy s - {a})"
    using n by (auto simp: busy_def)
qed

lemma es_wf_upd:
  assumes "es_wf s rs ts" and n: "nodes s a = Some n"
    and "le_next n' = le_next n" "le_prev n' = le_prev n" "ce_fd n' = ce_fd n"
      and u: "ce_in_use n' = ce_in_use n"
    and "le_prev n \<noteq> None \<Longrightarrow> ce_cb n' \<noteq> None" "ce_cb n' = None \<Longrightarrow> ce_in_use n'"
  shows "es_wf (s\<lparr>nodes := (nodes s)(a \<mapsto> n')\<rparr>) rs ts"
    and "busy (s\<lparr>nodes := (nodes s)(a \<mapsto> n')\<rparr>) = busy s"
  using es_wf_upd_use [OF assms(1-5,7,8)] n u by (auto simp: busy_def)

lemma evolvesI:
  assumes "es_wf s rs ts" and "es_wf s' rs' (filter (\<lambda>x. x \<notin> A) ts)" and "busy s' = busy s"
  shows "evolves s s'"
proof -
  have "rs1 = rs \<and> ts1 = ts" if "es_wf s rs1 ts1" for rs1 ts1
    using lists_functional [of s rs ts rs1 ts1] assms(1) that by (simp add: es_wf_def)
  with assms(2,3) show ?thesis unfolding evolves_def by blast
qed

lemma evolvesI':
  assumes "es_wf s rs ts" and "es_wf s' rs' ts" and "busy s' = busy s"
  shows "evolves s s'"
  using assms evolvesI [of s rs ts s' rs' "{}"] by simp

section \<open>List operations keep the invariant\<close>

lemma es_wf_node:
  assumes "es_wf s rs ts" and "map_of (cb_map s) f = Some a"
  obtains n where "nodes s a = Some n" "ce_fd n = f" "deref a s = Inr n"
  using assms by (auto simp: es_wf_def deref_def)

lemma RemoveFromReadyList_wf:
  fixes s :: "('cb, 'al, 'w) es"
  assumes w: "es_wf s rs ts" and n: "nodes s a = Some n"
  obtains s' n' where "RemoveFromReadyList a s = Inr s'" "es_wf s' (remove1 a rs) (remove1 a ts)"
    "busy s' = busy s" "same_data s s'" "nodes s' a = Some n'" "payload n' = payload n"
    "le_prev n' = None"
proof -
  from w have l: "rl_view s rs ts" by (simp add: es_wf_def)
  obtain s' where s': "RemoveFromReadyList a s = Inr s'" "rl_view s' (remove1 a rs) (remove1 a ts)"
    "same_data s s'" using RemoveFromReadyList_lists [OF l n] by blast
  obtain n' where n': "nodes s' a = Some n'" "payload n' = payload n"
    using same_data_node [OF s'(3) n] .
  have c: "ce_cb m \<noteq> None" if "x \<in> set (remove1 a rs @ remove1 a ts)" "nodes s x = Some m" for x m
  proof -
    from that(1) have "x \<in> set (rs @ ts)" using set_remove1_subset [of a] by auto
    with w that(2) listsD(4) [OF l that(2)] show ?thesis unfolding es_wf_def by blast
  qed
  have "a \<notin> set (remove1 a rs @ remove1 a ts)" using listsD(3) [OF l] by auto
  with listsD(4) [OF s'(2) n'(1)] have "le_prev n' = None" by auto
  moreover have "es_wf s' (remove1 a rs) (remove1 a ts)" "busy s' = busy s"
    using es_wf_relink [OF w s'(3,2)] c by blast+
  ultimately show ?thesis using that s' n' by blast
qed

lemma filter_remove1: "distinct ts \<Longrightarrow> remove1 a ts = filter (\<lambda>x. x \<notin> {a}) ts"
  by (simp add: distinct_remove1_removeAll removeAll_filter_not_eq eq_commute)

lemma es_wf_distinct: "es_wf s rs ts \<Longrightarrow> distinct ts"
  by (auto simp: es_wf_def dest: listsD(3))

lemma keeps_RemoveFromReadyList:
  fixes s :: "('cb, 'al, 'w) es"
  assumes "nodes s a = Some n"
  shows "keeps s (RemoveFromReadyList a s)"
proof (rule keepsI)
  fix rs ts assume w: "es_wf s rs ts"
  obtain s' where "RemoveFromReadyList a s = Inr s'" "busy s' = busy s"
    "es_wf s' (remove1 a rs) (remove1 a ts)"
    using RemoveFromReadyList_wf [OF w assms] by metis
  with w show "keeps s (RemoveFromReadyList a s)"
    using evolvesI [OF w, of s' _ "{a}"] filter_remove1 [OF es_wf_distinct [OF w], of a] by simp
qed

lemma AddToReadyList_wf:
  fixes s :: "('cb, 'al, 'w) es"
  assumes w: "es_wf s rs ts" and n: "nodes s a = Some n" and cb: "ce_cb n \<noteq> None"
  obtains s' where "AddToReadyList a s = Inr s'"
    "es_wf s' (if a \<in> set (rs @ ts) then rs else a # rs) ts" "busy s' = busy s" "same_data s s'"
proof -
  let ?rs = "if a \<in> set (rs @ ts) then rs else a # rs"
  from w have l: "rl_view s rs ts" by (simp add: es_wf_def)
  obtain s' where s': "AddToReadyList a s = Inr s'" "rl_view s' ?rs ts" "same_data s s'"
    using AddToReadyList_lists [OF l n] by blast
  have "ce_cb m \<noteq> None" if "x \<in> set (?rs @ ts)" "nodes s x = Some m" for x m
  proof (cases "x = a")
    case True
    with n cb that(2) show ?thesis by simp
  next
    case False
    with that(1) have "x \<in> set (rs @ ts)" by (auto split: if_splits)
    with w that(2) listsD(4) [OF l that(2)] show ?thesis unfolding es_wf_def by blast
  qed
  with es_wf_relink [OF w s'(3,2)] that s' show ?thesis by blast
qed

lemma keeps_AddToReadyList:
  fixes s :: "('cb, 'al, 'w) es"
  assumes n: "nodes s a = Some n" and cb: "ce_cb n \<noteq> None"
  shows "keeps s (AddToReadyList a s)"
proof (rule keepsI)
  fix rs ts assume w: "es_wf s rs ts"
  obtain s' where "AddToReadyList a s = Inr s'"
    "es_wf s' (if a \<in> set (rs @ ts) then rs else a # rs) ts" "busy s' = busy s"
    by (rule AddToReadyList_wf [OF w n cb])
  then show "keeps s (AddToReadyList a s)" using evolvesI' [OF w] by simp
qed

lemma keeps_env [keeps_intros]:
  "keeps s (DelFD N fd s)" "keeps s (AddFD N fd m s)" "keeps s (ModFD N fd m s)"
  by (auto simp: DelFD_def AddFD_def ModFD_def Let_def evolves_frame split: prod.splits)

lemma keeps_after: "evolves s t \<Longrightarrow> keeps t r \<Longrightarrow> keeps s r"
  using keeps_bind [of s "Inr t" "\<lambda>_. r"] by simp

lemma keeps_log_call: "keeps (log_call c s) r \<Longrightarrow> keeps s r"
  by (rule keeps_after [OF evolves_frame(2)])

lemma keeps_log_env [keeps_intros]: "keeps s (ModFD N fd m (log_call c s))"
  by (rule keeps_log_call) (rule keeps_env)

section \<open>Descriptor operations keep the invariant\<close>

text \<open>A write to the data of a node that respects the invariant.\<close>

lemma keeps_upd_node:
  assumes "nodes s a = Some n"
    and "le_next (g n) = le_next n" "le_prev (g n) = le_prev n" "ce_fd (g n) = ce_fd n"
      "ce_in_use (g n) = ce_in_use n"
    and "le_prev n \<noteq> None \<Longrightarrow> ce_cb (g n) \<noteq> None" "ce_cb (g n) = None \<Longrightarrow> ce_in_use (g n)"
  shows "keeps s (upd_node a g s)"
proof (rule keepsI)
  fix rs ts assume w: "es_wf s rs ts"
  from es_wf_upd [OF w, of a n "g n"] assms evolvesI' [OF w] show "keeps s (upd_node a g s)"
    by (auto simp: upd_node_def deref_def)
qed

lemma nodes_env: "DelFD N fd s = Inr s' \<Longrightarrow> nodes s' = nodes s"
  "AddFD N fd m s = Inr s' \<Longrightarrow> nodes s' = nodes s"
  "ModFD N fd m s = Inr s' \<Longrightarrow> nodes s' = nodes s"
  by (auto simp: DelFD_def AddFD_def ModFD_def Let_def split: prod.splits if_splits)

lemma nodes_log_call [simp]: "nodes (log_call c s) = nodes s"
  by (simp add: log_call_def)

lemma cb_map_log_call [simp]: "cb_map (log_call c s) = cb_map s"
  by (simp add: log_call_def)

lemma keeps_insert_node:
  assumes new: "map_of (cb_map s) (ce_fd n) = None" and "le_prev n = None" "ce_cb n \<noteq> None"
    "\<not> ce_in_use n"
  shows "keeps s (Inr (insert_node n s))"
proof (rule keepsI)
  fix rs ts assume w: "es_wf s rs ts"
  note W = es_wfD [OF w]
  have fresh: "nodes s (next_addr s) = None" using W(5) by fastforce
  then have out: "next_addr s \<notin> set rs" "next_addr s \<notin> set ts"
    using lists_in_store [OF W(1), of "next_addr s"] by auto
  have other: "ce_fd m \<noteq> ce_fd n" if "nodes s b = Some m" for b m
    using W(4) [OF that] new by auto
  have "rl_view (s\<lparr>nodes := (nodes s)(next_addr s \<mapsto> n)\<rparr>) rs ts"
    using listsD [OF W(1)] out assms(2) by (intro listsI) (auto split: if_splits)
  then have "rl_view (insert_node n s) rs ts" by (simp add: insert_node_def rl_view_def)
  then have "es_wf (insert_node n s) rs ts"
    using W(2-) fresh other assms
    by (intro es_wfI) (fastforce simp: insert_node_def less_Suc_eq split: if_splits)+
  moreover have "busy (insert_node n s) = busy s"
    using fresh assms(4) by (auto simp: busy_def insert_node_def)
  ultimately show "keeps s (Inr (insert_node n s))" using evolvesI' [OF w] by simp
qed

lemma es_wf_erase_node:
  assumes w: "es_wf s rs ts"
    and "map_of (cb_map s) fd = Some a" "nodes s a = Some n" "le_prev n = None"
  shows "es_wf (erase_node fd a s) rs ts" "busy (erase_node fd a s) = busy s - {a}"
proof -
  note W = es_wfD [OF w]
  from listsD(4) [OF W(1) assms(3)] assms(4) have out: "a \<notin> set rs" "a \<notin> set ts" by auto
  have fd: "ce_fd n = fd" using W(3) [OF assms(2)] assms(3) by auto
  have other: "ce_fd m \<noteq> fd" if "nodes s b = Some m" "b \<noteq> a" for b m
    using W(4) [OF that(1)] that(2) assms(2) by auto
  have "rl_view (s\<lparr>nodes := (nodes s)(a := None)\<rparr>) rs ts"
    using listsD [OF W(1)] out by (intro listsI) (auto split: if_splits)
  then have "rl_view (erase_node fd a s) rs ts" by (simp add: erase_node_def rl_view_def)
  then show "es_wf (erase_node fd a s) rs ts"
    using W(2-) other fd assms(3)
    by (intro es_wfI) (fastforce simp: erase_node_def split: if_splits)+
  show "busy (erase_node fd a s) = busy s - {a}"
    by (auto simp: busy_def erase_node_def)
qed

lemma keeps_erase_node:
  assumes "map_of (cb_map s) fd = Some a" "nodes s a = Some n" "le_prev n = None"
    "\<not> ce_in_use n"
  shows "keeps s (Inr (erase_node fd a s))"
proof (rule keepsI)
  fix rs ts assume w: "es_wf s rs ts"
  from assms(2,4) have "busy s - {a} = busy s" by (auto simp: busy_def)
  then show "keeps s (Inr (erase_node fd a s))"
    using evolvesI' [OF w] es_wf_erase_node [OF w assms(1-3)] by simp
qed

lemma RemoveFromReadyList_node:
  fixes s :: "('cb, 'al, 'w) es"
  assumes "es_wf s rs ts" "nodes s a = Some n" "RemoveFromReadyList a s = Inr s'"
  obtains n' where "nodes s' a = Some n'" "payload n' = payload n" "le_prev n' = None"
    "cb_map s' = cb_map s"
proof -
  obtain t n' where t: "RemoveFromReadyList a s = Inr t" "same_data s t" "nodes t a = Some n'"
    "payload n' = payload n" "le_prev n' = None"
    by (rule RemoveFromReadyList_wf [OF assms(1,2)])
  from t(2) have "cb_map t = cb_map s" by (intro more_fields(1)) (simp add: same_data_def)
  moreover from t(1) assms(3) have "t = s'" by simp
  ultimately show ?thesis using that [of n'] t by blast
qed

lemma keeps_register_existing:
  assumes w: "es_wf s rs ts" and a: "map_of (cb_map s) fd = Some a" and n: "nodes s a = Some n"
  shows "keeps s (rbind (case ce_cb n of
             Some other_cb \<Rightarrow>
               rbind (RemoveFromReadyList a s) (\<lambda>s.
               ModFD N fd m (log_call (OnUnregistration other_cb fd True) s))
           | None \<Rightarrow> AddFD N fd m s) (\<lambda>s.
           upd_node a (\<lambda>n. n\<lparr>ce_cb := Some c, ce_event_mask := m, ce_events_to_fake := 0\<rparr>) s))"
    (is "keeps s (rbind ?first ?second)")
proof (rule keeps_bind)
  show "keeps s ?first"
    by (cases "ce_cb n")
       (simp_all add: keeps_env keeps_bind keeps_RemoveFromReadyList [OF n] keeps_log_env)
  fix s' assume first: "?first = Inr s'"
  have "\<exists>n'. nodes s' a = Some n'"
  proof (cases "ce_cb n")
    case None
    with first n show ?thesis by (auto dest: nodes_env)
  next
    case (Some o')
    with first obtain t where t: "RemoveFromReadyList a s = Inr t"
      "ModFD N fd m (log_call (OnUnregistration o' fd True) t) = Inr s'"
      by (auto simp: rbind_eq_Inr)
    from nodes_env(3) [OF t(2)] show ?thesis using RemoveFromReadyList_node [OF w n t(1)] by auto
  qed
  then show "keeps s' (?second s')" by (auto intro: keeps_upd_node)
qed

lemma keeps_RegisterFD [keeps_intros]: "keeps s (RegisterFD N fd cb m s)"
proof (rule keepsI)
  fix rs ts assume w: "es_wf s rs ts"
  have new: "keeps t (Inr (insert_node (mk_CBAndEventMask (Some c) m fd) t))"
    if "AddFD N fd m s = Inr t" "map_of (cb_map s) fd = None" for t c
    using that
    by (intro keeps_insert_node)
       (auto simp: mk_CBAndEventMask_def AddFD_def Let_def split: prod.splits if_splits)
  show "keeps s (RegisterFD N fd cb m s)"
  proof (cases cb)
    case None
    then show ?thesis by (simp add: RegisterFD_def)
  next
    case c: (Some c)
    show ?thesis
    proof (cases "map_of (cb_map s) fd")
      case None
      have "keeps s (rbind (AddFD N fd m s) (\<lambda>s.
              Inr (insert_node (mk_CBAndEventMask (Some c) m fd) s)))"
        using new None by (intro keeps_bind keeps_env) blast
      then show ?thesis
        by (simp add: RegisterFD_def c None) (rule keeps_bind, assumption, simp add: evolves_frame)
    next
      case (Some a)
      then obtain n where n: "nodes s a = Some n" "deref a s = Inr n"
        using es_wf_node [OF w] by metis
      show ?thesis
        by (simp add: RegisterFD_def c Some n(2))
           (rule keeps_bind [OF keeps_register_existing [OF w Some n(1)]], simp add: evolves_frame)
    qed
  qed
qed

lemma keeps_UnregisterFD [keeps_intros]: "keeps s (UnregisterFD N fd s)"
proof (rule keepsI)
  fix rs ts assume w: "es_wf s rs ts"
  show "keeps s (UnregisterFD N fd s)"
  proof (cases "map_of (cb_map s) fd")
    case None
    then show ?thesis by (simp add: UnregisterFD_def)
  next
    case (Some a)
    then obtain n where n: "nodes s a = Some n" "deref a s = Inr n"
      using es_wf_node [OF w] by metis
    show ?thesis
    proof (cases "ce_cb n")
      case None
      with Some n show ?thesis by (simp add: UnregisterFD_def)
    next
      case cb: (Some cb)
      let ?log = "log_call (OnUnregistration cb fd False)"
      let ?drop = "\<lambda>s. rbind (deref a s) (\<lambda>n. if \<not> ce_in_use n then Inr (erase_node fd a s)
          else upd_node a (\<lambda>n. n\<lparr>ce_cb := None, ce_event_mask := 0, ce_events_to_fake := 0\<rparr>) s)"
      have "keeps u (?drop (?log u))"
        if t: "RemoveFromReadyList a s = Inr t" and u: "DelFD N fd t = Inr u" for t u
      proof (rule keeps_log_call)
        obtain n' where n': "nodes t a = Some n'" "le_prev n' = None" "cb_map t = cb_map s"
          using RemoveFromReadyList_node [OF w n(1) t] by metis
        with u have "nodes (?log u) a = Some n'" "cb_map (?log u) = cb_map s"
          by (auto simp: DelFD_def Let_def split: prod.splits if_splits)
        with n' Some show "keeps (?log u) (?drop (?log u))"
          by (auto simp: deref_def intro!: keeps_erase_node keeps_upd_node simp del: keeps_Inr)
      qed
      then have "keeps s (rbind (RemoveFromReadyList a s) (\<lambda>s. rbind (DelFD N fd s) (\<lambda>s. ?drop (?log s))))"
        using keeps_RemoveFromReadyList [OF n(1)] by (intro keeps_bind [OF _ keeps_bind] keeps_env(1))
      then show ?thesis by (simp add: UnregisterFD_def Some n cb Let_def)
    qed
  qed
qed

text \<open>The shape of the remaining operations: look the descriptor up, then work on its node.\<close>

lemma keeps_lookup:
  assumes "\<And>a n. map_of (cb_map s) fd = Some a \<Longrightarrow> nodes s a = Some n \<Longrightarrow> keeps s (f a n)"
  shows "keeps s (case map_of (cb_map s) fd of None \<Rightarrow> Inr s | Some a \<Rightarrow> rbind (deref a s) (f a))"
proof (rule keepsI)
  fix rs ts assume w: "es_wf s rs ts"
  show "keeps s (case map_of (cb_map s) fd of None \<Rightarrow> Inr s | Some a \<Rightarrow> rbind (deref a s) (f a))"
  proof (cases "map_of (cb_map s) fd")
    case (Some a)
    obtain n where "nodes s a = Some n" "deref a s = Inr n" using es_wf_node [OF w Some] by metis
    with assms [OF Some] Some show ?thesis by simp
  qed simp
qed

lemma upd_node_Inr: "nodes s a = Some n \<Longrightarrow> upd_node a g s = Inr (s\<lparr>nodes := (nodes s)(a \<mapsto> g n)\<rparr>)"
  by (simp add: upd_node_def deref_def)

lemma keeps_ModifyFD [keeps_intros]: "keeps s (ModifyFD N fd r d s)"
  unfolding ModifyFD_def Let_def
proof (rule keeps_lookup)
  fix a n assume n: "nodes s a = Some n"
  let ?m = "(ce_event_mask n AND NOT r) OR d"
  have "keeps s (rbind (upd_node a (\<lambda>n. n\<lparr>ce_event_mask := ?m\<rparr>) s) (\<lambda>s.
          rbind (ModFD N fd ?m s) (\<lambda>s. Inr (log_call (OnModification cb fd ?m) s))))" if "ce_cb n = Some cb" for cb
  proof (rule keeps_bind)
    show "keeps s (upd_node a (\<lambda>n. n\<lparr>ce_event_mask := ?m\<rparr>) s)"
      using that by (intro keeps_upd_node [OF n]) simp_all
  qed (rule keeps_bind [OF keeps_env(3)], simp add: evolves_frame)
  then show "keeps s (case ce_cb n of None \<Rightarrow> Inr s | Some cb \<Rightarrow>
      rbind (upd_node a (\<lambda>n. n\<lparr>ce_event_mask := ?m\<rparr>) s) (\<lambda>s.
      rbind (ModFD N fd ?m s) (\<lambda>s. Inr (log_call (OnModification cb fd ?m) s))))"
    by (auto split: option.split)
qed

lemma keeps_mark_ready:
  assumes n: "nodes s a = Some n" and cb: "ce_cb n \<noteq> None"
    and g: "\<And>n. le_next (g n) = le_next n" "\<And>n. le_prev (g n) = le_prev n" "\<And>n. ce_fd (g n) = ce_fd n"
      "\<And>n. ce_in_use (g n) = ce_in_use n" "\<And>n. ce_cb (g n) = ce_cb n"
  shows "keeps s (rbind (upd_node a g s) (AddToReadyList a))"
proof (rule keeps_bind)
  show "keeps s (upd_node a g s)" using cb g by (intro keeps_upd_node [OF n]) auto
  fix t assume "upd_node a g s = Inr t"
  with n have "nodes t a = Some (g n)" by (auto simp: upd_node_Inr)
  then show "keeps t (AddToReadyList a t)" by (rule keeps_AddToReadyList) (use cb g(5) in simp)
qed

lemma keeps_HandleEvent [keeps_intros]: "keeps s (HandleEvent fd m s)"
  unfolding HandleEvent_def by (rule keeps_lookup) (auto intro!: keeps_mark_ready)

lemma keeps_SetFDReady [keeps_intros]: "keeps s (SetFDReady fd m s)"
  unfolding SetFDReady_def by (rule keeps_lookup) (auto intro!: keeps_mark_ready)

lemma keeps_SetFDNotReady [keeps_intros]: "keeps s (SetFDNotReady fd s)"
proof (rule keepsI)
  fix rs ts assume w: "es_wf s rs ts"
  then show "keeps s (SetFDNotReady fd s)"
    by (auto simp: SetFDNotReady_def split: option.split dest: es_wfD(3)
        intro: keeps_RemoveFromReadyList)
qed

lemma keeps_shortcuts [keeps_intros]:
  "keeps s (RegisterFDForWrite N fd cb s)" "keeps s (RegisterFDForReadWrite N fd cb s)"
  "keeps s (RegisterFDForRead N fd cb s)" "keeps s (ModifyCallback N fd m s)"
  "keeps s (StopRead N fd s)" "keeps s (StartRead N fd s)" "keeps s (StopWrite N fd s)"
  "keeps s (StartWrite N fd s)"
  by (simp_all add: RegisterFDForWrite_def RegisterFDForReadWrite_def RegisterFDForRead_def
      ModifyCallback_def StopRead_def StartRead_def StopWrite_def StartWrite_def
      keeps_RegisterFD keeps_ModifyFD)

end
