(* ===== verification/Epoll_Registry.thy ===== *)
theory Epoll_Registry
  imports Epoll_Invariant
begin

unbundle bit_operations_syntax

text \<open>
  What the descriptor operations of \<open>EpollServer\<close> do, seen from outside.

  The abstract state is the registry, a map from descriptors to (callback, event mask). Each
  operation on nodes and pointers implements one operation on this map; the virtual calls it makes
  are exact; and the epoll set inside the netdp stack stays equal to the registry, so that
  \<open>netdpsock_epoll_ctl\<close> never fails and the \<open>LOG(FATAL)\<close> branches are not taken.
\<close>

definition registry :: "('cb, 'al, 'w) es \<Rightarrow> int \<rightharpoonup> 'cb \<times> mask" where
  "registry s f =
     (case map_of (cb_map s) f of
        None \<Rightarrow> None
      | Some a \<Rightarrow> (case nodes s a of
                      None \<Rightarrow> None
                    | Some n \<Rightarrow> map_option (\<lambda>c. (c, ce_event_mask n)) (ce_cb n)))"

lemma registry_same_data:
  fixes s s' :: "('cb, 'al, 'w) es"
  assumes "same_data s s'"
  shows "registry s' = registry s"
proof
  fix f
  have m: "cb_map s' = cb_map s"
    using assms by (intro more_fields(1)) (simp add: same_data_def)
  show "registry s' f = registry s f"
  proof (cases "map_of (cb_map s) f")
    case a: (Some a)
    show ?thesis
    proof (cases "nodes s a")
      case n: (Some n)
      obtain n' where "nodes s' a = Some n'" "payload n' = payload n"
        by (rule same_data_node [OF assms n])
      with a n payload_fields(1,3) [of n' n] m show ?thesis by (simp add: registry_def)
    next
      case None
      moreover from None have "nodes s' a = None"
        using same_data_dom [OF assms] by (metis domIff)
      ultimately show ?thesis using m a by (simp add: registry_def)
    qed
  qed (simp add: registry_def m)
qed

lemma registry_frame [simp]:
  "registry (s\<lparr>env := w\<rparr>) = registry s" "registry (log_call c s) = registry s"
  by (simp_all add: registry_def [abs_def] log_call_def cong: option.case_cong)

lemma registry_upd:
  assumes "es_wf s rs ts" and "nodes s a = Some n" and "ce_fd n = f"
  shows "registry (s\<lparr>nodes := (nodes s)(a \<mapsto> n')\<rparr>) =
    (registry s)(f := map_option (\<lambda>c. (c, ce_event_mask n')) (ce_cb n'))"
proof
  fix g
  note W = es_wfD [OF assms(1)]
  have "map_of (cb_map s) f = Some a" using W(4) [OF assms(2)] assms(3) by simp
  moreover have "map_of (cb_map s) g \<noteq> Some a" if "g \<noteq> f"
    using W(3) [of g a] assms(2,3) that by auto
  ultimately show "registry (s\<lparr>nodes := (nodes s)(a \<mapsto> n')\<rparr>) g =
    ((registry s)(f := map_option (\<lambda>c. (c, ce_event_mask n')) (ce_cb n'))) g"
    by (auto simp: registry_def split: option.split)
qed

lemma registry_insert_node:
  assumes "es_wf s rs ts" and "map_of (cb_map s) (ce_fd n) = None"
  shows "registry (insert_node n s) =
    (registry s)(ce_fd n := map_option (\<lambda>c. (c, ce_event_mask n)) (ce_cb n))"
proof
  fix g
  have "map_of (cb_map s) g \<noteq> Some (next_addr s)"
    using es_wfD(3,5) [OF assms(1)] by fastforce
  then show "registry (insert_node n s) g =
    ((registry s)(ce_fd n := map_option (\<lambda>c. (c, ce_event_mask n)) (ce_cb n))) g"
    by (auto simp: registry_def insert_node_def split: option.split)
qed

lemma registry_erase_node:
  assumes "es_wf s rs ts" and "map_of (cb_map s) fd = Some a"
  shows "registry (erase_node fd a s) = (registry s)(fd := None)"
proof
  fix g
  have "map_of (cb_map s) g \<noteq> Some a" if "g \<noteq> fd"
    using es_wfD(3) [OF assms(1), of g a] es_wfD(3) [OF assms(1,2)] that by auto
  then show "registry (erase_node fd a s) g = ((registry s)(fd := None)) g"
    by (auto simp: registry_def erase_node_def split: option.split)
qed

lemma registry_node:
  assumes "map_of (cb_map s) f = Some a" "nodes s a = Some n"
  shows "registry s f = map_option (\<lambda>c. (c, ce_event_mask n)) (ce_cb n)"
  using assms by (simp add: registry_def)

lemma RemoveFromReadyList_frame:
  fixes s :: "('cb, 'al, 'w) es"
  assumes "es_wf s rs ts" "nodes s a = Some n"
  obtains s' n' where "RemoveFromReadyList a s = Inr s'" "es_wf s' (remove1 a rs) (remove1 a ts)"
    "registry s' = registry s" "env s' = env s" "epoll_fd s' = epoll_fd s" "calls s' = calls s"
    "cb_map s' = cb_map s" "nodes s' a = Some n'" "payload n' = payload n" "le_prev n' = None"
proof -
  obtain s' n' where s': "RemoveFromReadyList a s = Inr s'" "es_wf s' (remove1 a rs) (remove1 a ts)"
    "same_data s s'" "nodes s' a = Some n'" "payload n' = payload n" "le_prev n' = None"
    by (rule RemoveFromReadyList_wf [OF assms])
  from s'(3) have m: "ready_lists.more s' = ready_lists.more s" by (simp add: same_data_def)
  show ?thesis
    using that [OF s'(1,2) registry_same_data [OF s'(3)] more_fields(3) [OF m] more_fields(5) [OF m]
        more_fields(4) [OF m] more_fields(1) [OF m] s'(4-6)] .
qed

section \<open>Functional behaviour\<close>

text \<open>The abstract operations: what each does to the registry and which virtual calls it makes.\<close>

definition full_mask :: "mask \<Rightarrow> mask" where
  "full_mask m = m OR EPOLLERR OR EPOLLHUP"

definition register_calls :: "('cb \<times> mask) option \<Rightarrow> 'cb \<Rightarrow> int \<Rightarrow> mask \<Rightarrow> 'cb cb_call list" where
  "register_calls old c fd m =
     (case old of None \<Rightarrow> [] | Some (other, _) \<Rightarrow> [OnUnregistration other fd True]) @
     [OnRegistration c fd m]"

definition register_op :: "('cb \<times> mask) option \<Rightarrow> ctl_op" where
  "register_op old = (case old of None \<Rightarrow> EPOLL_CTL_ADD | Some _ \<Rightarrow> EPOLL_CTL_MOD)"

text \<open>\<open>outcome_is s reg cs w s'\<close>: registry, log and world of \<open>s'\<close>, the epoll descriptor unchanged.\<close>

definition outcome_is ::
  "('cb, 'al, 'w) es \<Rightarrow> (int \<rightharpoonup> 'cb \<times> mask) \<Rightarrow> 'cb cb_call list \<Rightarrow> 'w \<Rightarrow> ('cb, 'al, 'w) es \<Rightarrow> bool" where
  "outcome_is s reg cs w s' \<longleftrightarrow>
     registry s' = reg \<and> calls s' = calls s @ cs \<and> env s' = w \<and> epoll_fd s' = epoll_fd s"

lemma outcome_is_refl: "outcome_is s (registry s) [] (env s) s"
  by (simp add: outcome_is_def)

lemma registry_unmapped: "map_of (cb_map s) fd = None \<Longrightarrow> registry s fd = None"
  by (simp add: registry_def)

lemma log_call_fields [simp]:
  "calls (log_call c s) = calls s @ [c]" "env (log_call c s) = env s"
  "epoll_fd (log_call c s) = epoll_fd s" "next_addr (log_call c s) = next_addr s"
  by (simp_all add: log_call_def)

lemma es_wf_frame [simp]:
  "es_wf (s\<lparr>env := w\<rparr>) rs ts = es_wf s rs ts" "es_wf (log_call c s) rs ts = es_wf s rs ts"
  by (simp_all add: es_wf_def log_call_def)

lemma insert_node_fields [simp]:
  "calls (insert_node n s) = calls s" "env (insert_node n s) = env s"
  "epoll_fd (insert_node n s) = epoll_fd s"
  by (simp_all add: insert_node_def)

lemma erase_node_fields [simp]:
  "calls (erase_node f a s) = calls s" "env (erase_node f a s) = env s"
  "epoll_fd (erase_node f a s) = epoll_fd s"
  by (simp_all add: erase_node_def)

lemma ctl_ok:
  "netdpsock_epoll_ctl N (epoll_fd s) EPOLL_CTL_DEL fd 0 (env s) = (0, w) \<Longrightarrow>
     DelFD N fd s = Inr (s\<lparr>env := w\<rparr>)"
  "netdpsock_epoll_ctl N (epoll_fd s) EPOLL_CTL_ADD fd (full_mask m) (env s) = (0, w) \<Longrightarrow>
     AddFD N fd m s = Inr (s\<lparr>env := w\<rparr>)"
  "netdpsock_epoll_ctl N (epoll_fd s) EPOLL_CTL_MOD fd (full_mask m) (env s) = (0, w) \<Longrightarrow>
     ModFD N fd m s = Inr (s\<lparr>env := w\<rparr>)"
  by (simp_all add: DelFD_def AddFD_def ModFD_def full_mask_def)

lemma RegisterFD_outcome:
  fixes s :: "('cb, 'al, 'w) es"
  assumes w: "es_wf s rs ts"
    and ctl: "netdpsock_epoll_ctl N (epoll_fd s) (register_op (registry s fd)) fd (full_mask m) (env s)
      = (0, w')"
  obtains s' where "RegisterFD N fd (Some c) m s = Inr s'"
    "outcome_is s ((registry s)(fd \<mapsto> (c, m))) (register_calls (registry s fd) c fd m) w' s'"
proof (cases "map_of (cb_map s) fd")
  case None
  let ?n = "mk_CBAndEventMask (Some c) m fd"
  have r: "registry s fd = None" by (rule registry_unmapped [OF None])
  with ctl have "AddFD N fd m s = Inr (s\<lparr>env := w'\<rparr>)" by (simp add: register_op_def ctl_ok)
  moreover have "registry (insert_node ?n (s\<lparr>env := w'\<rparr>)) = (registry s)(fd \<mapsto> (c, m))"
    using registry_insert_node [of "s\<lparr>env := w'\<rparr>" rs ts ?n] w None
    by (simp add: mk_CBAndEventMask_def)
  ultimately show ?thesis
    using that [of "log_call (OnRegistration c fd m) (insert_node ?n (s\<lparr>env := w'\<rparr>))"] None r
    by (simp add: RegisterFD_def outcome_is_def register_calls_def)
next
  case a: (Some a)
  obtain n where n: "nodes s a = Some n" "ce_fd n = fd" "deref a s = Inr n" by (rule es_wf_node [OF w a])
  let ?g = "\<lambda>n. n\<lparr>ce_cb := Some c, ce_event_mask := m, ce_events_to_fake := 0\<rparr>"
  have reg: "registry s fd = map_option (\<lambda>c. (c, ce_event_mask n)) (ce_cb n)"
    by (rule registry_node [OF a n(1)])
  show ?thesis
  proof (cases "ce_cb n")
    case None
    let ?s = "s\<lparr>env := w'\<rparr>"
    from None ctl reg have "AddFD N fd m s = Inr ?s" by (simp add: register_op_def ctl_ok)
    moreover have "registry (?s\<lparr>nodes := (nodes ?s)(a \<mapsto> ?g n)\<rparr>) = (registry s)(fd \<mapsto> (c, m))"
      using registry_upd [of ?s rs ts a n fd "?g n"] w n by simp
    ultimately show ?thesis
      using that [of "log_call (OnRegistration c fd m) (?s\<lparr>nodes := (nodes ?s)(a \<mapsto> ?g n)\<rparr>)"] None a n reg
      by (simp add: RegisterFD_def outcome_is_def register_calls_def upd_node_Inr)
  next
    case cb: (Some old)
    obtain t n' where t: "RemoveFromReadyList a s = Inr t" "es_wf t (remove1 a rs) (remove1 a ts)"
      "registry t = registry s" "env t = env s" "epoll_fd t = epoll_fd s" "calls t = calls s"
      "nodes t a = Some n'" "payload n' = payload n"
      by (rule RemoveFromReadyList_frame [OF w n(1)])
    let ?t = "(log_call (OnUnregistration old fd True) t)\<lparr>env := w'\<rparr>"
    from cb ctl reg t have "ModFD N fd m (log_call (OnUnregistration old fd True) t) = Inr ?t"
      by (simp add: register_op_def ctl_ok)
    moreover have "registry (?t\<lparr>nodes := (nodes ?t)(a \<mapsto> ?g n')\<rparr>) = (registry s)(fd \<mapsto> (c, m))"
      using registry_upd [of ?t _ _ a n' fd "?g n'"] t n(2) payload_fields(2) [OF t(8)] by simp
    ultimately show ?thesis
      using that [of "log_call (OnRegistration c fd m) (?t\<lparr>nodes := (nodes ?t)(a \<mapsto> ?g n')\<rparr>)"]
        cb a n reg t
      by (simp add: RegisterFD_def outcome_is_def register_calls_def upd_node_Inr)
  qed
qed

text \<open>A registration that returns has been accepted by the epoll.\<close>

lemma RegisterFD_accepted:
  fixes s :: "('cb, 'al, 'w) es"
  assumes w: "es_wf s rs ts" and r: "RegisterFD N fd (Some c) m s = Inr s'"
  obtains w' where "netdpsock_epoll_ctl N (epoll_fd s) (register_op (registry s fd)) fd (full_mask m) (env s) = (0, w')"
proof (cases "map_of (cb_map s) fd")
  case None
  with r have "fst (netdpsock_epoll_ctl N (epoll_fd s) EPOLL_CTL_ADD fd (full_mask m) (env s)) = 0"
    by (auto simp: RegisterFD_def rbind_eq_Inr AddFD_def full_mask_def split: prod.splits if_splits)
  with that registry_unmapped [OF None] show ?thesis by (metis prod.collapse register_op_def option.case(1))
next
  case a: (Some a)
  obtain n where n: "nodes s a = Some n" "deref a s = Inr n" by (rule es_wf_node [OF w a]) blast
  have reg: "registry s fd = map_option (\<lambda>c. (c, ce_event_mask n)) (ce_cb n)" by (rule registry_node [OF a n(1)])
  show ?thesis
  proof (cases "ce_cb n")
    case None
    with r a n have "fst (netdpsock_epoll_ctl N (epoll_fd s) EPOLL_CTL_ADD fd (full_mask m) (env s)) = 0"
      by (auto simp: RegisterFD_def rbind_eq_Inr AddFD_def full_mask_def split: prod.splits if_splits)
    with that reg None show ?thesis by (metis prod.collapse register_op_def option.case(1) option.map_disc_iff)
  next
    case cb: (Some old)
    obtain t where t: "RemoveFromReadyList a s = Inr t" "env t = env s" "epoll_fd t = epoll_fd s"
      by (rule RemoveFromReadyList_frame [OF w n(1)]) blast
    have "fst (netdpsock_epoll_ctl N (epoll_fd s) EPOLL_CTL_MOD fd (full_mask m) (env s)) = 0"
      using r a n cb t
      by (auto simp: RegisterFD_def rbind_eq_Inr ModFD_def full_mask_def split: prod.splits if_splits)
    with that reg cb show ?thesis by (metis prod.collapse register_op_def option.case(2) option.simps(9))
  qed
qed

lemma UnregisterFD_unknown:
  assumes "es_wf s rs ts" and "registry s fd = None"
  shows "UnregisterFD N fd s = Inr s"
proof (cases "map_of (cb_map s) fd")
  case (Some a)
  obtain n where "nodes s a = Some n" "deref a s = Inr n" by (rule es_wf_node [OF assms(1) Some])
  with Some assms(2) registry_node [OF Some] show ?thesis by (simp add: UnregisterFD_def)
qed (simp add: UnregisterFD_def)

lemma registry_SomeE:
  assumes "es_wf s rs ts" and "registry s fd = Some (c, m)"
  obtains a n where "map_of (cb_map s) fd = Some a" "nodes s a = Some n" "deref a s = Inr n"
    "ce_fd n = fd" "ce_cb n = Some c" "ce_event_mask n = m"
proof -
  from assms(2) obtain a where a: "map_of (cb_map s) fd = Some a"
    by (auto simp: registry_def split: option.splits)
  obtain n where "nodes s a = Some n" "deref a s = Inr n" "ce_fd n = fd"
    by (rule es_wf_node [OF assms(1) a])
  with a that [of a n] registry_node [OF a] assms(2) show ?thesis by (cases "ce_cb n") simp_all
qed

lemma UnregisterFD_outcome:
  fixes s :: "('cb, 'al, 'w) es"
  assumes w: "es_wf s rs ts" and reg: "registry s fd = Some (c, m)"
    and ctl: "netdpsock_epoll_ctl N (epoll_fd s) EPOLL_CTL_DEL fd 0 (env s) = (0, w')"
  obtains s' where "UnregisterFD N fd s = Inr s'"
    "outcome_is s ((registry s)(fd := None)) [OnUnregistration c fd False] w' s'"
proof -
  obtain a n where a: "map_of (cb_map s) fd = Some a" and n: "nodes s a = Some n" "deref a s = Inr n"
    "ce_fd n = fd" "ce_cb n = Some c" by (rule registry_SomeE [OF w reg])
  obtain t n' where t: "RemoveFromReadyList a s = Inr t" "es_wf t (remove1 a rs) (remove1 a ts)"
    "registry t = registry s" "env t = env s" "epoll_fd t = epoll_fd s" "calls t = calls s"
    "cb_map t = cb_map s" "nodes t a = Some n'" "payload n' = payload n"
    by (rule RemoveFromReadyList_frame [OF w n(1)])
  let ?u = "log_call (OnUnregistration c fd False) (t\<lparr>env := w'\<rparr>)"
  let ?g = "\<lambda>n. n\<lparr>ce_cb := None, ce_event_mask := 0, ce_events_to_fake := 0\<rparr>"
  have d: "DelFD N fd t = Inr (t\<lparr>env := w'\<rparr>)" using ctl t by (simp add: ctl_ok)
  have u: "es_wf ?u (remove1 a rs) (remove1 a ts)" "nodes ?u a = Some n'" "map_of (cb_map ?u) fd = Some a"
    "ce_fd n' = fd" "deref a ?u = Inr n'"
    using t n a payload_fields(2) [OF t(9)] by (simp_all add: deref_def)
  note eq = UnregisterFD_def a n t(1) d Let_def u(5)
  show ?thesis
  proof (cases "ce_in_use n'")
    case True
    have "registry (?u\<lparr>nodes := (nodes ?u)(a \<mapsto> ?g n')\<rparr>) = (registry s)(fd := None)"
      using registry_upd [OF u(1,2,4), of "?g n'"] t(3) by simp
    with True that [of "?u\<lparr>nodes := (nodes ?u)(a \<mapsto> ?g n')\<rparr>"] t u show ?thesis
      by (simp add: eq outcome_is_def upd_node_Inr)
  next
    case False
    have "registry (erase_node fd a ?u) = (registry s)(fd := None)"
      using registry_erase_node [OF u(1,3)] t(3) by simp
    with False that [of "erase_node fd a ?u"] t u show ?thesis
      by (simp add: eq outcome_is_def)
  qed
qed

definition modified_mask :: "mask \<Rightarrow> mask \<Rightarrow> mask \<Rightarrow> mask" where
  "modified_mask m r d = (m AND NOT r) OR d"

lemma ModifyFD_unknown:
  assumes "es_wf s rs ts" and "registry s fd = None"
  shows "ModifyFD N fd r d s = Inr s"
proof (cases "map_of (cb_map s) fd")
  case (Some a)
  obtain n where "nodes s a = Some n" "deref a s = Inr n" by (rule es_wf_node [OF assms(1) Some])
  with Some assms(2) registry_node [OF Some] show ?thesis by (simp add: ModifyFD_def)
qed (simp add: ModifyFD_def)

lemma ModifyFD_outcome:
  fixes s :: "('cb, 'al, 'w) es"
  assumes w: "es_wf s rs ts" and reg: "registry s fd = Some (c, m)"
    and ctl: "netdpsock_epoll_ctl N (epoll_fd s) EPOLL_CTL_MOD fd (full_mask (modified_mask m r d)) (env s)
      = (0, w')"
  obtains s' where "ModifyFD N fd r d s = Inr s'"
    "outcome_is s ((registry s)(fd \<mapsto> (c, modified_mask m r d)))
       [OnModification c fd (modified_mask m r d)] w' s'"
proof -
  obtain a n where a: "map_of (cb_map s) fd = Some a" and n: "nodes s a = Some n" "deref a s = Inr n"
    "ce_fd n = fd" "ce_cb n = Some c" "ce_event_mask n = m" by (rule registry_SomeE [OF w reg])
  let ?m = "modified_mask m r d"
  let ?t = "s\<lparr>nodes := (nodes s)(a \<mapsto> n\<lparr>ce_event_mask := ?m\<rparr>)\<rparr>"
  have "registry ?t = (registry s)(fd \<mapsto> (c, ?m))"
    using registry_upd [OF w n(1,3), of "n\<lparr>ce_event_mask := ?m\<rparr>"] n(4) by simp
  moreover have "ModFD N fd ?m ?t = Inr (?t\<lparr>env := w'\<rparr>)" using ctl by (simp add: ctl_ok)
  ultimately show ?thesis
    using that [of "log_call (OnModification c fd ?m) (?t\<lparr>env := w'\<rparr>)"] a n
    by (simp add: ModifyFD_def modified_mask_def upd_node_Inr outcome_is_def Let_def)
qed

text \<open>The operations on the ready list leave registry, log and world alone.\<close>

lemma relink_outcome:
  fixes s s' :: "('cb, 'al, 'w) es"
  assumes "same_data s s'"
  shows "outcome_is s (registry s) [] (env s) s'"
proof -
  from assms have m: "ready_lists.more s' = ready_lists.more s" by (simp add: same_data_def)
  show ?thesis
    by (simp add: outcome_is_def registry_same_data [OF assms] more_fields(3-5) [OF m])
qed

lemma mark_ready_outcome:
  fixes s :: "('cb, 'al, 'w) es"
  assumes w: "es_wf s rs ts" and n: "nodes s a = Some n"
    and g: "\<And>n. le_next (g n) = le_next n" "\<And>n. le_prev (g n) = le_prev n" "\<And>n. ce_fd (g n) = ce_fd n"
      "\<And>n. ce_event_mask (g n) = ce_event_mask n" "\<And>n. ce_cb (g n) = ce_cb n"
  shows "\<exists>s'. rbind (upd_node a g s) (AddToReadyList a) = Inr s' \<and>
    outcome_is s (registry s) [] (env s) s'"
proof -
  let ?t = "s\<lparr>nodes := (nodes s)(a \<mapsto> g n)\<rparr>"
  have "rl_view ?t rs ts" by (rule lists_same_links [OF n g(1,2) es_wfD(1) [OF w]])
  then obtain s' where s': "AddToReadyList a ?t = Inr s'" "same_data ?t s'"
    using AddToReadyList_lists [of ?t rs ts a "g n"] by auto
  have "registry ?t = registry s"
    using registry_upd [OF w n refl, of "g n"] registry_node [OF es_wfD(4) [OF w n] n] g(4,5)
    by (simp add: fun_upd_idem)
  with relink_outcome [OF s'(2)] have "outcome_is s (registry s) [] (env s) s'"
    by (simp add: outcome_is_def)
  with s'(1) show ?thesis by (simp add: upd_node_Inr [OF n])
qed

lemma HandleEvent_outcome:
  fixes s :: "('cb, 'al, 'w) es"
  assumes w: "es_wf s rs ts"
  obtains s' where "HandleEvent fd m s = Inr s'" "outcome_is s (registry s) [] (env s) s'"
proof (cases "map_of (cb_map s) fd")
  case None
  with that [of s] show ?thesis by (simp add: HandleEvent_def outcome_is_def)
next
  case (Some a)
  obtain n where n: "nodes s a = Some n" "deref a s = Inr n" by (rule es_wf_node [OF w Some])
  have "\<exists>s'. rbind (upd_node a (\<lambda>n. n\<lparr>ce_events_asserted := m\<rparr>) s) (AddToReadyList a) = Inr s' \<and>
    outcome_is s (registry s) [] (env s) s'"
    by (rule mark_ready_outcome [OF w n(1)]) simp_all
  then obtain s' where "rbind (upd_node a (\<lambda>n. n\<lparr>ce_events_asserted := m\<rparr>) s) (AddToReadyList a) = Inr s'"
    "outcome_is s (registry s) [] (env s) s'" by blast
  then show ?thesis using that [of s'] that [OF _ outcome_is_refl] Some n
    by (cases "ce_cb n = None") (simp_all add: HandleEvent_def)
qed

lemma SetFDReady_outcome:
  fixes s :: "('cb, 'al, 'w) es"
  assumes w: "es_wf s rs ts"
  obtains s' where "SetFDReady fd m s = Inr s'" "outcome_is s (registry s) [] (env s) s'"
proof (cases "map_of (cb_map s) fd")
  case None
  with that [of s] show ?thesis by (simp add: SetFDReady_def outcome_is_def)
next
  case (Some a)
  obtain n where n: "nodes s a = Some n" "deref a s = Inr n" by (rule es_wf_node [OF w Some])
  have "\<exists>s'. rbind (upd_node a (\<lambda>n. n\<lparr>ce_events_to_fake := m\<rparr>) s) (AddToReadyList a) = Inr s' \<and>
    outcome_is s (registry s) [] (env s) s'"
    by (rule mark_ready_outcome [OF w n(1)]) simp_all
  then obtain s' where "rbind (upd_node a (\<lambda>n. n\<lparr>ce_events_to_fake := m\<rparr>) s) (AddToReadyList a) = Inr s'"
    "outcome_is s (registry s) [] (env s) s'" by blast
  then show ?thesis using that [of s'] that [OF _ outcome_is_refl] Some n
    by (cases "ce_cb n = None") (simp_all add: SetFDReady_def)
qed

lemma SetFDNotReady_outcome:
  fixes s :: "('cb, 'al, 'w) es"
  assumes w: "es_wf s rs ts"
  obtains s' where "SetFDNotReady fd s = Inr s'" "outcome_is s (registry s) [] (env s) s'"
proof (cases "map_of (cb_map s) fd")
  case None
  with that [of s] show ?thesis by (simp add: SetFDNotReady_def outcome_is_def)
next
  case (Some a)
  obtain n where n: "nodes s a = Some n" by (rule es_wf_node [OF w Some])
  obtain s' where "RemoveFromReadyList a s = Inr s'" "same_data s s'"
    by (rule RemoveFromReadyList_wf [OF w n])
  with that [of s'] relink_outcome [of s s'] Some show ?thesis by (simp add: SetFDNotReady_def)
qed

section \<open>Sequences of operations against a conforming epoll\<close>

text \<open>
  The documented behaviour of \<open>epoll_ctl\<close> the server relies on. \<open>I w\<close> is the interest set of
  the epoll instance \<open>ep\<close> in world \<open>w\<close>, \<open>V w\<close> the descriptors that are open there: adding an
  open descriptor that is not in the set, and modifying or deleting one that is, succeed and change
  exactly that entry.
\<close>

definition epoll_ctl_laws ::
  "('w, 'n) netdp_epoll_scheme \<Rightarrow> int \<Rightarrow> ('w \<Rightarrow> int \<rightharpoonup> mask) \<Rightarrow> ('w \<Rightarrow> int \<Rightarrow> bool) \<Rightarrow> bool" where
  "epoll_ctl_laws N ep I V \<longleftrightarrow>
     (\<forall>w fd m. V w fd \<and> I w fd = None \<longrightarrow>
        (\<exists>w'. netdpsock_epoll_ctl N ep EPOLL_CTL_ADD fd m w = (0, w') \<and> I w' = (I w)(fd \<mapsto> m) \<and> V w' = V w)) \<and>
     (\<forall>w fd m. I w fd \<noteq> None \<longrightarrow>
        (\<exists>w'. netdpsock_epoll_ctl N ep EPOLL_CTL_MOD fd m w = (0, w') \<and> I w' = (I w)(fd \<mapsto> m) \<and> V w' = V w)) \<and>
     (\<forall>w fd. I w fd \<noteq> None \<longrightarrow>
        (\<exists>w'. netdpsock_epoll_ctl N ep EPOLL_CTL_DEL fd 0 w = (0, w') \<and> I w' = (I w)(fd := None) \<and> V w' = V w))"

lemma epoll_ctl_lawsD:
  assumes "epoll_ctl_laws N ep I V"
  shows "V w fd \<Longrightarrow> I w fd = None \<Longrightarrow>
      \<exists>w'. netdpsock_epoll_ctl N ep EPOLL_CTL_ADD fd m w = (0, w') \<and> I w' = (I w)(fd \<mapsto> m) \<and> V w' = V w"
    and "I w fd \<noteq> None \<Longrightarrow>
      \<exists>w'. netdpsock_epoll_ctl N ep EPOLL_CTL_MOD fd m w = (0, w') \<and> I w' = (I w)(fd \<mapsto> m) \<and> V w' = V w"
    and "I w fd \<noteq> None \<Longrightarrow>
      \<exists>w'. netdpsock_epoll_ctl N ep EPOLL_CTL_DEL fd 0 w = (0, w') \<and> I w' = (I w)(fd := None) \<and> V w' = V w"
  using assms unfolding epoll_ctl_laws_def by blast+

definition interest_of :: "(int \<rightharpoonup> 'cb \<times> mask) \<Rightarrow> int \<rightharpoonup> mask" where
  "interest_of r f = map_option (\<lambda>(c, m). full_mask m) (r f)"

lemma interest_of_upd [simp]:
  "interest_of (r(f \<mapsto> (c, m))) = (interest_of r)(f \<mapsto> full_mask m)"
  "interest_of (r(f := None)) = (interest_of r)(f := None)"
  by (auto simp: interest_of_def)

lemma interest_of_None [simp]: "interest_of r f = None \<longleftrightarrow> r f = None"
  by (simp add: interest_of_def)

definition kernel_agrees :: "('w \<Rightarrow> int \<rightharpoonup> mask) \<Rightarrow> ('cb, 'al, 'w) es \<Rightarrow> bool" where
  "kernel_agrees I s \<longleftrightarrow> I (env s) = interest_of (registry s)"

datatype 'cb fd_op =
    Do_Register int 'cb mask
  | Do_Unregister int
  | Do_Modify int mask mask
  | Do_HandleEvent int mask
  | Do_SetReady int mask
  | Do_SetNotReady int

fun run_fd_op :: "('w, 'n) netdp_epoll_scheme \<Rightarrow> 'cb fd_op \<Rightarrow> ('cb, 'al, 'w) es \<Rightarrow> ('cb, 'al, 'w) es res" where
  "run_fd_op N (Do_Register fd c m) s = RegisterFD N fd (Some c) m s"
| "run_fd_op N (Do_Unregister fd) s = UnregisterFD N fd s"
| "run_fd_op N (Do_Modify fd r d) s = ModifyFD N fd r d s"
| "run_fd_op N (Do_HandleEvent fd m) s = HandleEvent fd m s"
| "run_fd_op N (Do_SetReady fd m) s = SetFDReady fd m s"
| "run_fd_op N (Do_SetNotReady fd) s = SetFDNotReady fd s"

fun run_fd_ops ::
  "('w, 'n) netdp_epoll_scheme \<Rightarrow> 'cb fd_op list \<Rightarrow> ('cb, 'al, 'w) es \<Rightarrow> ('cb, 'al, 'w) es res" where
  "run_fd_ops N [] s = Inr s"
| "run_fd_ops N (op # ops) s = rbind (run_fd_op N op s) (run_fd_ops N ops)"

text \<open>The specification: the same operations on the registry map, with the calls they make.\<close>

fun spec_fd_op :: "'cb fd_op \<Rightarrow> (int \<rightharpoonup> 'cb \<times> mask) \<Rightarrow> (int \<rightharpoonup> 'cb \<times> mask) \<times> 'cb cb_call list" where
  "spec_fd_op (Do_Register fd c m) r = (r(fd \<mapsto> (c, m)), register_calls (r fd) c fd m)"
| "spec_fd_op (Do_Unregister fd) r =
     (r(fd := None), case r fd of None \<Rightarrow> [] | Some (c, _) \<Rightarrow> [OnUnregistration c fd False])"
| "spec_fd_op (Do_Modify fd x d) r =
     (case r fd of
        None \<Rightarrow> (r, [])
      | Some (c, m) \<Rightarrow> (r(fd \<mapsto> (c, modified_mask m x d)), [OnModification c fd (modified_mask m x d)]))"
| "spec_fd_op (Do_HandleEvent _ _) r = (r, [])"
| "spec_fd_op (Do_SetReady _ _) r = (r, [])"
| "spec_fd_op (Do_SetNotReady _) r = (r, [])"

fun spec_fd_ops :: "'cb fd_op list \<Rightarrow> (int \<rightharpoonup> 'cb \<times> mask) \<Rightarrow> (int \<rightharpoonup> 'cb \<times> mask) \<times> 'cb cb_call list" where
  "spec_fd_ops [] r = (r, [])"
| "spec_fd_ops (op # ops) r =
     (let (r', cs) = spec_fd_op op r; (r'', cs') = spec_fd_ops ops r' in (r'', cs @ cs'))"

fun op_opens :: "(int \<Rightarrow> bool) \<Rightarrow> 'cb fd_op \<Rightarrow> bool" where
  "op_opens V (Do_Register fd _ _) = V fd"
| "op_opens V _ = True"

lemma keeps_run_fd_op [keeps_intros]: "keeps s (run_fd_op N op s)"
  by (cases op) (simp_all add: keeps_RegisterFD keeps_UnregisterFD keeps_ModifyFD keeps_HandleEvent
      keeps_SetFDReady keeps_SetFDNotReady)

lemma keeps_run_fd_ops: "keeps s (run_fd_ops N ops s)"
  by (induction ops arbitrary: s) (auto intro: keeps_bind keeps_run_fd_op)

definition op_done ::
  "('w \<Rightarrow> int \<rightharpoonup> mask) \<Rightarrow> ('w \<Rightarrow> int \<Rightarrow> bool) \<Rightarrow> ('cb, 'al, 'w) es \<Rightarrow>
   (int \<rightharpoonup> 'cb \<times> mask) \<times> 'cb cb_call list \<Rightarrow> ('cb, 'al, 'w) es \<Rightarrow> bool" where
  "op_done I V s spec s' \<longleftrightarrow>
     registry s' = fst spec \<and> calls s' = calls s @ snd spec \<and>
     kernel_agrees I s' \<and> V (env s') = V (env s) \<and> epoll_fd s' = epoll_fd s"

lemma op_doneI:
  assumes "outcome_is s reg cs w s'" "I w = interest_of reg" "V w = V (env s)"
  shows "op_done I V s (reg, cs) s'"
  using assms by (simp add: op_done_def outcome_is_def kernel_agrees_def)

lemma register_spec:
  fixes s :: "('cb, 'al, 'w) es"
  assumes w: "es_wf s rs ts" and L: "epoll_ctl_laws N (epoll_fd s) I V" and K: "kernel_agrees I s"
    and V: "V (env s) fd"
  shows "\<exists>s'. RegisterFD N fd (Some c) m s = Inr s' \<and>
    op_done I V s ((registry s)(fd \<mapsto> (c, m)), register_calls (registry s fd) c fd m) s'"
proof -
  have K: "I (env s) = interest_of (registry s)" using K by (simp add: kernel_agrees_def)
  have "\<exists>w'. netdpsock_epoll_ctl N (epoll_fd s) (register_op (registry s fd)) fd (full_mask m) (env s) = (0, w') \<and>
    I w' = (I (env s))(fd \<mapsto> full_mask m) \<and> V w' = V (env s)"
    using epoll_ctl_lawsD(1,2) [OF L, of "env s" fd "full_mask m"] V K
    by (cases "registry s fd") (simp_all add: register_op_def)
  then obtain w' where w': "netdpsock_epoll_ctl N (epoll_fd s) (register_op (registry s fd)) fd (full_mask m) (env s) = (0, w')"
    "I w' = interest_of ((registry s)(fd \<mapsto> (c, m)))" "V w' = V (env s)" using K by auto
  obtain s' where "RegisterFD N fd (Some c) m s = Inr s'"
    "outcome_is s ((registry s)(fd \<mapsto> (c, m))) (register_calls (registry s fd) c fd m) w' s'"
    by (rule RegisterFD_outcome [OF w w'(1)])
  with op_doneI [where I = I and V = V, OF _ w'(2,3)] show ?thesis by auto
qed

lemma unregister_spec:
  fixes s :: "('cb, 'al, 'w) es"
  assumes w: "es_wf s rs ts" and L: "epoll_ctl_laws N (epoll_fd s) I V" and K: "kernel_agrees I s"
    and r: "registry s fd = Some (c, m)"
  shows "\<exists>s'. UnregisterFD N fd s = Inr s' \<and>
    op_done I V s ((registry s)(fd := None), [OnUnregistration c fd False]) s'"
proof -
  obtain w' where w': "netdpsock_epoll_ctl N (epoll_fd s) EPOLL_CTL_DEL fd 0 (env s) = (0, w')"
    "I w' = interest_of ((registry s)(fd := None))" "V w' = V (env s)"
    using epoll_ctl_lawsD(3) [OF L, of "env s" fd] r K by (auto simp: kernel_agrees_def interest_of_def [of _ fd])
  obtain s' where "UnregisterFD N fd s = Inr s'"
    "outcome_is s ((registry s)(fd := None)) [OnUnregistration c fd False] w' s'"
    by (rule UnregisterFD_outcome [OF w r w'(1)])
  with op_doneI [where I = I and V = V, OF _ w'(2,3)] show ?thesis by auto
qed

lemma modify_spec:
  fixes s :: "('cb, 'al, 'w) es"
  assumes w: "es_wf s rs ts" and L: "epoll_ctl_laws N (epoll_fd s) I V" and K: "kernel_agrees I s"
    and r: "registry s fd = Some (c, m)"
  shows "\<exists>s'. ModifyFD N fd x d s = Inr s' \<and>
    op_done I V s ((registry s)(fd \<mapsto> (c, modified_mask m x d)),
      [OnModification c fd (modified_mask m x d)]) s'"
proof -
  let ?m = "modified_mask m x d"
  obtain w' where w': "netdpsock_epoll_ctl N (epoll_fd s) EPOLL_CTL_MOD fd (full_mask ?m) (env s) = (0, w')"
    "I w' = interest_of ((registry s)(fd \<mapsto> (c, ?m)))" "V w' = V (env s)"
    using epoll_ctl_lawsD(2) [OF L, of "env s" fd "full_mask ?m"] r K by (auto simp: kernel_agrees_def interest_of_def [of _ fd])
  obtain s' where "ModifyFD N fd x d s = Inr s'"
    "outcome_is s ((registry s)(fd \<mapsto> (c, ?m))) [OnModification c fd ?m] w' s'"
    by (rule ModifyFD_outcome [OF w r w'(1)])
  with op_doneI [where I = I and V = V, OF _ w'(2,3)] show ?thesis by auto
qed

lemma run_fd_op_spec:
  fixes s :: "('cb, 'al, 'w) es"
  assumes w: "es_wf s rs ts" and L: "epoll_ctl_laws N (epoll_fd s) I V" and K: "kernel_agrees I s"
    and V: "op_opens (V (env s)) op"
  shows "\<exists>s'. run_fd_op N op s = Inr s' \<and> op_done I V s (spec_fd_op op (registry s)) s'"
proof -
  have same: "op_done I V s (registry s, []) s'" if "outcome_is s (registry s) [] (env s) s'" for s'
    using that K by (simp add: op_done_def outcome_is_def kernel_agrees_def)
  show ?thesis
  proof (cases op)
    case (Do_Register fd c m)
    with register_spec [OF w L K, of fd] V show ?thesis by simp
  next
    case (Do_Unregister fd)
    with unregister_spec [OF w L K, of fd] UnregisterFD_unknown [OF w, of fd] same [OF outcome_is_refl]
    show ?thesis by (cases "registry s fd") (auto simp: fun_upd_idem)
  next
    case (Do_Modify fd x d)
    with modify_spec [OF w L K, of fd] ModifyFD_unknown [OF w, of fd] same [OF outcome_is_refl]
    show ?thesis by (cases "registry s fd") auto
  next
    case (Do_HandleEvent fd m)
    show ?thesis by (rule HandleEvent_outcome [OF w, of fd m]) (use same Do_HandleEvent in auto)
  next
    case (Do_SetReady fd m)
    show ?thesis by (rule SetFDReady_outcome [OF w, of fd m]) (use same Do_SetReady in auto)
  next
    case (Do_SetNotReady fd)
    show ?thesis by (rule SetFDNotReady_outcome [OF w, of fd]) (use same Do_SetNotReady in auto)
  qed
qed

lemma run_fd_ops_spec:
  fixes s :: "('cb, 'al, 'w) es"
  assumes "es_inv s" "epoll_ctl_laws N (epoll_fd s) I V" "kernel_agrees I s"
    "list_all (op_opens (V (env s))) ops"
  shows "\<exists>s'. run_fd_ops N ops s = Inr s' \<and> op_done I V s (spec_fd_ops ops (registry s)) s'"
  using assms
proof (induction ops arbitrary: s)
  case Nil
  then show ?case by (simp add: op_done_def)
next
  case (Cons op ops)
  from Cons.prems(1) obtain rs ts where w: "es_wf s rs ts" by (auto simp: es_inv_def)
  from Cons.prems(4) have V: "op_opens (V (env s)) op" "list_all (op_opens (V (env s))) ops" by simp_all
  obtain t where t: "run_fd_op N op s = Inr t" "op_done I V s (spec_fd_op op (registry s)) t"
    using run_fd_op_spec [OF w Cons.prems(2,3) V(1)] by blast
  have "es_inv t" using keeps_run_fd_op [of s N op] t(1) Cons.prems(1) evolves_inv by simp
  then obtain u where "run_fd_ops N ops t = Inr u" "op_done I V t (spec_fd_ops ops (registry t)) u"
    using Cons.IH [of t] t(2) Cons.prems(2) V(2) by (auto simp: op_done_def)
  with t show ?case by (auto simp: op_done_def split: prod.split)
qed

end
