(* ===== verification/Epoll_Alarm.thy ===== *)
theory Epoll_Alarm
  imports Epoll_Registry
begin

text \<open>
  Alarms of \<open>EpollServer\<close> and the class \<open>EpollAlarm\<close> (epoll_server.cc and .h).

  The multimap \<open>alarm_map_\<close> keeps its entries sorted by time, a new entry after those of equal
  time; an \<open>AlarmRegToken\<close> is an iterator, here the token of the entry it points to, and using the
  token of an erased entry is \<open>Dangling\<close>. \<open>OnAlarm\<close> is the one virtual function the classes of
  the repository override; it is the parameter \<open>on_alarm\<close> of the loop that fires alarms.
  \<open>alarm_wf cur s\<close> is the invariant: map, set and alarm objects agree, up to the entry \<open>cur\<close> that is
  being fired.
\<close>

section \<open>EpollAlarm\<close>

definition EpollAlarm_new :: EpollAlarm where
  "EpollAlarm_new = \<lparr>ea_token = None, ea_eps = False, ea_registered = False\<rparr>"

definition upd_alarm :: "'al \<Rightarrow> (EpollAlarm \<Rightarrow> EpollAlarm) \<Rightarrow> ('cb, 'al, 'w) es \<Rightarrow> ('cb, 'al, 'w) es" where
  "upd_alarm al f s = s\<lparr>alarm_objs := (alarm_objs s)(al := f (alarm_objs s al))\<rparr>"

definition EpollAlarm_OnAlarm :: "'al \<Rightarrow> ('cb, 'al, 'w) es \<Rightarrow> int \<times> ('cb, 'al, 'w) es" where
  "EpollAlarm_OnAlarm al s = (0, upd_alarm al (\<lambda>a. a\<lparr>ea_registered := False\<rparr>) s)"

definition EpollAlarm_OnRegistration :: "'al \<Rightarrow> nat \<Rightarrow> ('cb, 'al, 'w) es \<Rightarrow> ('cb, 'al, 'w) es" where
  "EpollAlarm_OnRegistration al token s =
     upd_alarm al (\<lambda>a. a\<lparr>ea_token := Some token, ea_eps := True, ea_registered := True\<rparr>) s"

definition EpollAlarm_OnUnregistration :: "'al \<Rightarrow> ('cb, 'al, 'w) es \<Rightarrow> ('cb, 'al, 'w) es" where
  "EpollAlarm_OnUnregistration al s = upd_alarm al (\<lambda>a. a\<lparr>ea_registered := False\<rparr>) s"

definition EpollAlarm_OnShutdown :: "'al \<Rightarrow> ('cb, 'al, 'w) es \<Rightarrow> ('cb, 'al, 'w) es" where
  "EpollAlarm_OnShutdown al s = upd_alarm al (\<lambda>a. a\<lparr>ea_registered := False, ea_eps := False\<rparr>) s"

section \<open>Alarm registration\<close>

definition ContainsAlarm :: "'al \<Rightarrow> ('cb, 'al, 'w) es \<Rightarrow> bool" where
  "ContainsAlarm al s \<longleftrightarrow> al \<in> all_alarms s"

fun multimap_insert :: "nat \<Rightarrow> int \<Rightarrow> 'al \<Rightarrow> (nat \<times> int \<times> 'al) list \<Rightarrow> (nat \<times> int \<times> 'al) list" where
  "multimap_insert k t al [] = [(k, t, al)]"
| "multimap_insert k t al ((j, u, b) # es) =
     (if u \<le> t then (j, u, b) # multimap_insert k t al es else (k, t, al) # (j, u, b) # es)"

definition RegisterAlarm :: "int \<Rightarrow> 'al option \<Rightarrow> ('cb, 'al, 'w) es \<Rightarrow> ('cb, 'al, 'w) es res" where
  "RegisterAlarm timeout_time_in_us ac s =
     (case ac of
        None \<Rightarrow> Inl (Check_failed ''ac'')
      | Some al \<Rightarrow>
          if ContainsAlarm al s then Inl (Log_fatal ''Alarm already exists'')
          else
            let token = next_token s;
                s = s\<lparr>alarm_map := multimap_insert token timeout_time_in_us al (alarm_map s),
                      next_token := Suc token, all_alarms := insert al (all_alarms s)\<rparr>
            in Inr (EpollAlarm_OnRegistration al token s))"

definition RegisterAlarmApproximateDelta ::
  "('w, 'n) netdp_epoll_scheme \<Rightarrow> int \<Rightarrow> 'al option \<Rightarrow> ('cb, 'al, 'w) es \<Rightarrow> ('cb, 'al, 'w) es res" where
  "RegisterAlarmApproximateDelta N delta_in_us ac s =
     (let (now, s) = ApproximateNowInUsec N s in RegisterAlarm (now + delta_in_us) ac s)"

definition UnregisterAlarm :: "nat \<Rightarrow> ('cb, 'al, 'w) es \<Rightarrow> ('cb, 'al, 'w) es res" where
  "UnregisterAlarm token s =
     (case map_of (alarm_map s) token of
        None \<Rightarrow> Inl Dangling
      | Some (_, cb) \<Rightarrow>
          Inr (EpollAlarm_OnUnregistration cb
                 (s\<lparr>alarm_map := AList.delete token (alarm_map s), all_alarms := all_alarms s - {cb}\<rparr>)))"

definition UnregisterIfRegistered :: "'al \<Rightarrow> ('cb, 'al, 'w) es \<Rightarrow> ('cb, 'al, 'w) es res" where
  "UnregisterIfRegistered al s =
     (let a = alarm_objs s al in
      if \<not> ea_registered a then Inr s
      else if \<not> ea_eps a then Inl Null_deref
      else case ea_token a of None \<Rightarrow> Inl Dangling | Some token \<Rightarrow> UnregisterAlarm token s)"

text \<open>The destructor; what is left of the object is a fresh one.\<close>

definition EpollAlarm_delete :: "'al \<Rightarrow> ('cb, 'al, 'w) es \<Rightarrow> ('cb, 'al, 'w) es res" where
  "EpollAlarm_delete al s =
     rbind (UnregisterIfRegistered al s) (\<lambda>s. Inr (upd_alarm al (\<lambda>_. EpollAlarm_new) s))"

section \<open>Firing\<close>

text \<open>\<open>++i\<close> on an iterator, \<open>None\<close> being \<open>end()\<close>.\<close>

fun next_iter :: "nat \<Rightarrow> (nat \<times> 'v) list \<Rightarrow> nat option" where
  "next_iter k [] = None"
| "next_iter k ((j, _) # es) =
     (if j = k then (case es of [] \<Rightarrow> None | (k', _) # _ \<Rightarrow> Some k') else next_iter k es)"

definition begin_iter :: "(nat \<times> 'v) list \<Rightarrow> nat option" where
  "begin_iter es = (case es of [] \<Rightarrow> None | (k, _) # _ \<Rightarrow> Some k)"

text \<open>The part of a turn after \<open>OnAlarm\<close>: advance, erase, and register again when asked to.\<close>

definition end_OnAlarm ::
  "int \<Rightarrow> nat \<Rightarrow> 'al \<Rightarrow> int \<Rightarrow> ('cb, 'al, 'w) es \<Rightarrow> (nat option \<times> ('cb, 'al, 'w) es) res" where
  "end_OnAlarm now_in_us k cb new_timeout_time_in_us s =
     (if map_of (alarm_map s) k = None then Inl Dangling
      else
        let i = next_iter k (alarm_map s);
            s = s\<lparr>alarm_map := AList.delete k (alarm_map s)\<rparr>
        in if new_timeout_time_in_us > 0
           then
             let s = (if new_timeout_time_in_us \<le> now_in_us
                      then s\<lparr>alarms_reregistered_and_should_be_skipped :=
                               insert cb (alarms_reregistered_and_should_be_skipped s)\<rparr>
                      else s)
             in rbind (RegisterAlarm new_timeout_time_in_us (Some cb) s) (\<lambda>s. Inr (i, s))
           else Inr (i, s))"

partial_function (option) alarm_loop ::
  "('al \<Rightarrow> ('cb, 'al, 'w) es \<Rightarrow> (int \<times> ('cb, 'al, 'w) es) outcome) \<Rightarrow> int \<Rightarrow> nat option \<Rightarrow>
   ('cb, 'al, 'w) es \<Rightarrow> ('cb, 'al, 'w) es outcome" where
  "alarm_loop on_alarm now_in_us i s =
     (case i of
        None \<Rightarrow> Some (Inr s)
      | Some k \<Rightarrow>
          (case map_of (alarm_map s) k of
             None \<Rightarrow> Some (Inl Dangling)
           | Some (t, cb) \<Rightarrow>
               if t > now_in_us then Some (Inr s)
               else if cb \<in> alarms_reregistered_and_should_be_skipped s
               then alarm_loop on_alarm now_in_us (next_iter k (alarm_map s)) s
               else
                 Option.bind (on_alarm cb (s\<lparr>all_alarms := all_alarms s - {cb}\<rparr>)) (\<lambda>r.
                 case r of
                   Inl e \<Rightarrow> Some (Inl e)
                 | Inr (new_timeout_time_in_us, s) \<Rightarrow>
                     (case end_OnAlarm now_in_us k cb new_timeout_time_in_us s of
                        Inl e \<Rightarrow> Some (Inl e)
                      | Inr (i, s) \<Rightarrow> alarm_loop on_alarm now_in_us i s))))"

definition CallAndReregisterAlarmEvents ::
  "('al \<Rightarrow> ('cb, 'al, 'w) es \<Rightarrow> (int \<times> ('cb, 'al, 'w) es) outcome) \<Rightarrow>
   ('cb, 'al, 'w) es \<Rightarrow> ('cb, 'al, 'w) es outcome" where
  "CallAndReregisterAlarmEvents on_alarm s =
     obind (alarm_loop on_alarm (recorded_now_in_us s) (begin_iter (alarm_map s)) s) (\<lambda>s.
     Some (Inr (s\<lparr>alarms_reregistered_and_should_be_skipped := {}\<rparr>)))"

text \<open>The loop of the destructor: OnShutdown on every alarm, then erase its entry.\<close>

fun shutdown_alarms :: "(nat \<times> int \<times> 'al) list \<Rightarrow> ('cb, 'al, 'w) es \<Rightarrow> ('cb, 'al, 'w) es" where
  "shutdown_alarms [] s = s"
| "shutdown_alarms ((k, t, al) # es) s =
     shutdown_alarms es
       ((EpollAlarm_OnShutdown al s)\<lparr>alarm_map := AList.delete k (alarm_map s)\<rparr>)"

definition CleanupTimeToAlarmCBMap :: "('cb, 'al, 'w) es \<Rightarrow> ('cb, 'al, 'w) es" where
  "CleanupTimeToAlarmCBMap s = shutdown_alarms (alarm_map s) s"

section \<open>The invariant\<close>

text \<open>
  Entries are in order of time and, among equal times, of registration (tokens count up).
\<close>

definition alarm_time :: "nat \<times> int \<times> 'al \<Rightarrow> int" where
  "alarm_time e = fst (snd e)"

definition alarm_less :: "nat \<times> int \<times> 'al \<Rightarrow> nat \<times> int \<times> 'al \<Rightarrow> bool" where
  "alarm_less e e' \<longleftrightarrow> alarm_time e < alarm_time e' \<or> alarm_time e = alarm_time e' \<and> fst e < fst e'"

definition alarm_ok ::
  "nat option \<Rightarrow> (nat \<times> int \<times> 'al) list \<Rightarrow> 'al set \<Rightarrow> ('al \<Rightarrow> EpollAlarm) \<Rightarrow> nat \<Rightarrow> bool" where
  "alarm_ok cur M A Ob nt \<longleftrightarrow>
     sorted_wrt alarm_less M \<and> keys_distinct M \<and>
     (\<forall>k e. map_of M k = Some e \<longrightarrow> k < nt) \<and>
     (\<forall>k t al. map_of M k = Some (t, al) \<longrightarrow> cur \<noteq> Some k \<longrightarrow> al \<in> A \<and> ea_token (Ob al) = Some k) \<and>
     (\<forall>al. al \<in> A \<longrightarrow> ea_registered (Ob al) \<and> ea_eps (Ob al) \<and>
        (\<exists>k t. ea_token (Ob al) = Some k \<and> cur \<noteq> Some k \<and> map_of M k = Some (t, al))) \<and>
     (\<forall>al. ea_registered (Ob al) \<longrightarrow> al \<in> A)"

definition alarm_wf :: "nat option \<Rightarrow> ('cb, 'al, 'w) es \<Rightarrow> bool" where
  "alarm_wf cur s \<longleftrightarrow> alarm_ok cur (alarm_map s) (all_alarms s) (alarm_objs s) (next_token s)"

lemma alarm_okI:
  assumes "sorted_wrt alarm_less M" "keys_distinct M" "\<And>k e. map_of M k = Some e \<Longrightarrow> k < nt"
    "\<And>k t al. map_of M k = Some (t, al) \<Longrightarrow> cur \<noteq> Some k \<Longrightarrow> al \<in> A \<and> ea_token (Ob al) = Some k"
    "\<And>al. al \<in> A \<Longrightarrow> ea_registered (Ob al) \<and> ea_eps (Ob al) \<and>
        (\<exists>k t. ea_token (Ob al) = Some k \<and> cur \<noteq> Some k \<and> map_of M k = Some (t, al))"
    "\<And>al. ea_registered (Ob al) \<Longrightarrow> al \<in> A"
  shows "alarm_ok cur M A Ob nt"
  using assms unfolding alarm_ok_def by blast

lemma alarm_okD:
  assumes "alarm_ok cur M A Ob nt"
  shows "sorted_wrt alarm_less M" "keys_distinct M" "\<And>k e. map_of M k = Some e \<Longrightarrow> k < nt"
    "\<And>k t al. map_of M k = Some (t, al) \<Longrightarrow> cur \<noteq> Some k \<Longrightarrow> al \<in> A \<and> ea_token (Ob al) = Some k"
    "\<And>al. al \<in> A \<Longrightarrow> ea_registered (Ob al) \<and> ea_eps (Ob al) \<and>
        (\<exists>k t. ea_token (Ob al) = Some k \<and> cur \<noteq> Some k \<and> map_of M k = Some (t, al))"
    "\<And>al. ea_registered (Ob al) \<Longrightarrow> al \<in> A"
  using assms unfolding alarm_ok_def by blast+

lemma set_multimap_insert [simp]: "set (multimap_insert k t al es) = insert (k, t, al) (set es)"
  by (induction k t al es rule: multimap_insert.induct) auto

lemma sorted_multimap_insert:
  "sorted_wrt alarm_less es \<Longrightarrow> (\<And>e. e \<in> set es \<Longrightarrow> fst e < k) \<Longrightarrow>
   sorted_wrt alarm_less (multimap_insert k t al es)"
proof (induction k t al es rule: multimap_insert.induct)
  case (2 k t al j u b es)
  have j: "j < k" using "2.prems"(2) [of "(j, u, b)"] by simp
  have ord: "alarm_less (j, u, b) e" if "e \<in> set es" for e using "2.prems"(1) that by simp
  show ?case
  proof (cases "u \<le> t")
    case True
    with j ord 2 show ?thesis by (auto simp: alarm_less_def [of "(j, u, b)" "(k, t, al)"] alarm_time_def)
  next
    case False
    have "alarm_less (k, t, al) e" if "e \<in> set es" for e
      using ord [OF that] False by (auto simp: alarm_less_def alarm_time_def)
    with False "2.prems"(1) show ?thesis by (simp add: alarm_less_def [of _ "(j, u, b)"] alarm_time_def)
  qed
qed simp

lemma multimap_insert_place:
  "sorted_wrt alarm_less es \<Longrightarrow>
   \<exists>xs ys. es = xs @ ys \<and> multimap_insert k t al es = xs @ (k, t, al) # ys \<and>
     (\<forall>e \<in> set xs. alarm_time e \<le> t) \<and> (\<forall>e \<in> set ys. t < alarm_time e)"
proof (induction k t al es rule: multimap_insert.induct)
  case (2 k t al j u b es)
  show ?case
  proof (cases "u \<le> t")
    case True
    with 2 obtain xs ys where "es = xs @ ys" "multimap_insert k t al es = xs @ (k, t, al) # ys"
      "\<forall>e \<in> set xs. alarm_time e \<le> t" "\<forall>e \<in> set ys. t < alarm_time e" by auto
    with True show ?thesis
      by (intro exI [of _ "(j, u, b) # xs"] exI [of _ ys]) (simp add: alarm_time_def)
  next
    case False
    have "alarm_less (j, u, b) e" if "e \<in> set es" for e using "2.prems" that by simp
    with False have "\<forall>e \<in> set es. t < alarm_time e" by (fastforce simp: alarm_less_def alarm_time_def)
    with False show ?thesis
      by (intro exI [of _ "[]"] exI [of _ "(j, u, b) # es"]) (simp add: alarm_time_def)
  qed
qed simp

lemma map_of_multimap_insert:
  "map_of es k = None \<Longrightarrow> map_of (multimap_insert k t al es) = (map_of es)(k \<mapsto> (t, al))"
  by (induction k t al es rule: multimap_insert.induct) (auto simp: fun_eq_iff split: if_splits)

lemma keys_distinct_multimap_insert:
  "map_of es k = None \<Longrightarrow> keys_distinct es \<Longrightarrow> keys_distinct (multimap_insert k t al es)"
  by (induction k t al es rule: multimap_insert.induct)
     (auto simp: map_of_multimap_insert split: if_splits)

lemma sorted_delete: "sorted_wrt alarm_less es \<Longrightarrow> sorted_wrt alarm_less (AList.delete k es)"
  by (simp add: AList.delete_eq sorted_wrt_filter)

lemma map_of_in_set: "keys_distinct M \<Longrightarrow> (k, v) \<in> set M \<longleftrightarrow> map_of M k = Some v"
  by (simp add: keys_distinct_def)

lemma alarm_ok_insert:
  assumes w: "alarm_ok cur M A Ob nt" and al: "al \<notin> A" and cur: "cur \<noteq> Some nt"
  shows "alarm_ok cur (multimap_insert nt t al M) (insert al A)
    (Ob(al := (Ob al)\<lparr>ea_token := Some nt, ea_eps := True, ea_registered := True\<rparr>)) (Suc nt)"
proof -
  note W = alarm_okD [OF w]
  have new: "map_of M nt = None" using W(3) [of nt] by (cases "map_of M nt") auto
  have old: "ea_token (Ob b) \<noteq> Some nt" if "b \<in> A" for b
    using W(5) [OF that] W(3) by fastforce
  have small: "fst e < nt" if "e \<in> set M" for e
    using that W(3) [of "fst e" "snd e"] map_of_in_set [OF W(2), of "fst e" "snd e"] by simp
  show ?thesis
  proof (rule alarm_okI)
    fix k e assume "map_of (multimap_insert nt t al M) k = Some e"
    then show "k < Suc nt" using W(3) [of k e] new
      by (auto simp: map_of_multimap_insert less_Suc_eq split: if_splits)
  next
    fix k u b assume "map_of (multimap_insert nt t al M) k = Some (u, b)" "cur \<noteq> Some k"
    then show "b \<in> insert al A \<and> ea_token ((Ob(al := (Ob al)\<lparr>ea_token := Some nt,
        ea_eps := True, ea_registered := True\<rparr>)) b) = Some k"
      using W(4) [of k u b] al new by (auto simp: map_of_multimap_insert split: if_splits)
  next
    fix b assume "b \<in> insert al A"
    then show "ea_registered ((Ob(al := (Ob al)\<lparr>ea_token := Some nt, ea_eps := True,
        ea_registered := True\<rparr>)) b) \<and> ea_eps ((Ob(al := (Ob al)\<lparr>ea_token := Some nt, ea_eps := True,
        ea_registered := True\<rparr>)) b) \<and> (\<exists>k u. ea_token ((Ob(al := (Ob al)\<lparr>ea_token := Some nt,
        ea_eps := True, ea_registered := True\<rparr>)) b) = Some k \<and> cur \<noteq> Some k \<and>
        map_of (multimap_insert nt t al M) k = Some (u, b))"
      using W(5) [of b] old [of b] al new cur by (auto simp: map_of_multimap_insert) blast
  next
    fix b assume "ea_registered ((Ob(al := (Ob al)\<lparr>ea_token := Some nt, ea_eps := True,
        ea_registered := True\<rparr>)) b)"
    then show "b \<in> insert al A" using W(6) [of b] by (auto split: if_splits)
  qed (use W(1,2) new small in \<open>auto simp: sorted_multimap_insert keys_distinct_multimap_insert\<close>)
qed

lemma alarm_ok_delete:
  assumes w: "alarm_ok cur M A Ob nt" and k: "map_of M k = Some (t, al)" "cur \<noteq> Some k"
  shows "alarm_ok cur (AList.delete k M) (A - {al}) (Ob(al := (Ob al)\<lparr>ea_registered := False\<rparr>)) nt"
proof -
  note W = alarm_okD [OF w]
  have tok: "ea_token (Ob al) = Some k" using W(4) [OF k] by simp
  have other: "b \<noteq> al" if "map_of M j = Some (u, b)" "j \<noteq> k" "cur \<noteq> Some j" for j u b
    using W(4) [OF that(1,3)] tok that(2) by auto
  have kb: "map_of M k \<noteq> Some (u, b)" if "b \<noteq> al" for u b using k(1) that by auto
  show ?thesis
  proof (rule alarm_okI)
    fix j u b assume "map_of (AList.delete k M) j = Some (u, b)" "cur \<noteq> Some j"
    then show "b \<in> A - {al} \<and> ea_token ((Ob(al := (Ob al)\<lparr>ea_registered := False\<rparr>)) b) = Some j"
      using W(4) [of j u b] other [of j u b] by (auto split: if_splits)
  next
    fix b assume "b \<in> A - {al}"
    then show "ea_registered ((Ob(al := (Ob al)\<lparr>ea_registered := False\<rparr>)) b) \<and>
        ea_eps ((Ob(al := (Ob al)\<lparr>ea_registered := False\<rparr>)) b) \<and>
        (\<exists>j u. ea_token ((Ob(al := (Ob al)\<lparr>ea_registered := False\<rparr>)) b) = Some j \<and> cur \<noteq> Some j \<and>
          map_of (AList.delete k M) j = Some (u, b))"
      using W(5) [of b] kb by auto metis
  qed (use W(1-3) W(6) in \<open>auto simp: sorted_delete split: if_splits\<close>)
qed

text \<open>Firing: the entry \<open>k\<close> leaves the agreement when its alarm is told, and the map afterwards.\<close>

lemma alarm_ok_fire:
  assumes w: "alarm_ok None M A Ob nt" and k: "map_of M k = Some (t, al)"
  shows "alarm_ok (Some k) M (A - {al}) (Ob(al := (Ob al)\<lparr>ea_registered := False\<rparr>)) nt"
proof -
  note W = alarm_okD [OF w]
  have tok: "ea_token (Ob al) = Some k" using W(4) [OF k] by simp
  have other: "b \<noteq> al" if "map_of M j = Some (u, b)" "j \<noteq> k" for j u b
    using W(4) [OF that(1)] tok that(2) by auto
  show ?thesis
  proof (rule alarm_okI)
    fix j u b assume "map_of M j = Some (u, b)" "Some k \<noteq> Some j"
    then show "b \<in> A - {al} \<and> ea_token ((Ob(al := (Ob al)\<lparr>ea_registered := False\<rparr>)) b) = Some j"
      using W(4) [of j u b] other [of j u b] by auto
  next
    fix b assume "b \<in> A - {al}"
    then show "ea_registered ((Ob(al := (Ob al)\<lparr>ea_registered := False\<rparr>)) b) \<and>
        ea_eps ((Ob(al := (Ob al)\<lparr>ea_registered := False\<rparr>)) b) \<and>
        (\<exists>j u. ea_token ((Ob(al := (Ob al)\<lparr>ea_registered := False\<rparr>)) b) = Some j \<and> Some k \<noteq> Some j \<and>
          map_of M j = Some (u, b))"
      using W(5) [of b] k by auto
  qed (use W(1-3) W(6) in \<open>auto split: if_splits\<close>)
qed

lemma alarm_ok_fired:
  assumes w: "alarm_ok (Some k) M A Ob nt"
  shows "alarm_ok None (AList.delete k M) A Ob nt"
proof -
  note W = alarm_okD [OF w]
  show ?thesis
  proof (rule alarm_okI)
    fix j u b assume "map_of (AList.delete k M) j = Some (u, b)"
    then show "b \<in> A \<and> ea_token (Ob b) = Some j" using W(4) [of j u b] by (auto split: if_splits)
  next
    fix b assume "b \<in> A"
    then show "ea_registered (Ob b) \<and> ea_eps (Ob b) \<and> (\<exists>j u. ea_token (Ob b) = Some j \<and> None \<noteq> Some j \<and>
          map_of (AList.delete k M) j = Some (u, b))"
      using W(5) [of b] by auto
  qed (use W(1-3) W(6) in \<open>auto simp: sorted_delete split: if_splits\<close>)
qed

section \<open>The operations keep it\<close>

lemma RegisterAlarm_wf:
  assumes "alarm_wf cur s" "RegisterAlarm t ac s = Inr s'"
    and "\<And>k. cur = Some k \<Longrightarrow> map_of (alarm_map s) k \<noteq> None"
  shows "alarm_wf cur s'"
proof -
  from assms(2) obtain al where al: "ac = Some al" "al \<notin> all_alarms s"
    by (auto simp: RegisterAlarm_def ContainsAlarm_def Let_def split: option.splits if_splits)
  have "cur \<noteq> Some (next_token s)"
    using assms(1,3) alarm_okD(3) unfolding alarm_wf_def by fastforce
  from alarm_ok_insert [OF assms(1) [unfolded alarm_wf_def] al(2) this, of t] assms(2) al(1)
  show ?thesis
    by (auto simp: RegisterAlarm_def ContainsAlarm_def Let_def alarm_wf_def upd_alarm_def
        EpollAlarm_OnRegistration_def split: if_splits)
qed

lemma UnregisterIfRegistered_idle:
  "\<not> ea_registered (alarm_objs s al) \<Longrightarrow> UnregisterIfRegistered al s = Inr s"
  by (simp add: UnregisterIfRegistered_def)

lemma UnregisterIfRegistered_wf:
  assumes w: "alarm_wf cur s"
  obtains s' where "UnregisterIfRegistered al s = Inr s'" "alarm_wf cur s'" "al \<notin> all_alarms s'"
    "\<And>k. cur = Some k \<Longrightarrow> map_of (alarm_map s') k = map_of (alarm_map s) k"
    "\<And>k e. map_of (alarm_map s') k = Some e \<Longrightarrow> map_of (alarm_map s) k = Some e"
proof (cases "ea_registered (alarm_objs s al)")
  case False
  note W = alarm_okD [OF w [unfolded alarm_wf_def]]
  from False have "al \<notin> all_alarms s" using W(5) by blast
  with that [of s] False w show ?thesis by (simp add: UnregisterIfRegistered_idle)
next
  case True
  note W = alarm_okD [OF w [unfolded alarm_wf_def]]
  obtain k t where k: "ea_token (alarm_objs s al) = Some k" "cur \<noteq> Some k"
    "map_of (alarm_map s) k = Some (t, al)" "ea_eps (alarm_objs s al)"
    using W(5) [OF W(6) [OF True]] by blast
  let ?s' = "EpollAlarm_OnUnregistration al
      (s\<lparr>alarm_map := AList.delete k (alarm_map s), all_alarms := all_alarms s - {al}\<rparr>)"
  have "UnregisterIfRegistered al s = Inr ?s'"
    using True k by (simp add: UnregisterIfRegistered_def UnregisterAlarm_def)
  moreover have "alarm_wf cur ?s'"
    using alarm_ok_delete [OF w [unfolded alarm_wf_def] k(3,2)]
    by (simp add: alarm_wf_def EpollAlarm_OnUnregistration_def upd_alarm_def)
  ultimately show ?thesis using k
    by (intro that [of ?s']) (auto simp: EpollAlarm_OnUnregistration_def upd_alarm_def split: if_splits)
qed

end
