(* ===== verification/Epoll_Callbacks.thy ===== *)
theory Epoll_Callbacks
  imports Epoll_Alarm
begin

text \<open>
  What a callback may do to the event loop that runs it.

  Code outside the event loop (an \<open>OnEvent\<close> or \<open>OnAlarm\<close> body and everything it calls) reaches
  the server through the public operations \<open>api_op\<close>. A body is an interaction tree over them
  (\<open>client\<close>): it returns, or performs an operation and continues according to the state it finds.
  The tree is well-founded, so a body returns. The locales \<open>event_callbacks\<close> and
  \<open>alarm_callbacks\<close> state the contract the loops rely on; their interpretations show that every
  body built from public operations fulfils it.
\<close>

section \<open>Public operations\<close>

datatype ('cb, 'al, 'w) api_op =
    Api_fd "'cb fd_op"
  | Api_register_alarm int 'al
  | Api_unregister_alarm 'al
  | Api_set_timeout int
  | Api_world "'w \<Rightarrow> 'w"

fun run_api_op ::
  "('w, 'n) netdp_epoll_scheme \<Rightarrow> ('cb, 'al, 'w) api_op \<Rightarrow> ('cb, 'al, 'w) es \<Rightarrow> ('cb, 'al, 'w) es res" where
  "run_api_op N (Api_fd op) s = run_fd_op N op s"
| "run_api_op N (Api_register_alarm t al) s = RegisterAlarm t (Some al) s"
| "run_api_op N (Api_unregister_alarm al) s = UnregisterIfRegistered al s"
| "run_api_op N (Api_set_timeout t) s = Inr (set_timeout_in_us t s)"
| "run_api_op N (Api_world f) s = Inr (s\<lparr>env := f (env s)\<rparr>)"

section \<open>Descriptor operations do not touch the alarm side\<close>

definition alarm_side ::
  "('cb, 'al, 'w) es \<Rightarrow> 'al set \<times> (nat \<times> int \<times> 'al) list \<times> nat \<times> ('al \<Rightarrow> EpollAlarm) \<times>
    int \<times> 'al set \<times> bool \<times> bool" where
  "alarm_side s =
     (all_alarms s, alarm_map s, next_token s, alarm_objs s,
      recorded_now_in_us s, alarms_reregistered_and_should_be_skipped s,
      in_wait_for_events_and_execute_callbacks s, in_shutdown s)"

named_theorems side_frame \<open>operations that leave the alarm side alone\<close>

lemma alarm_side_base [simp]:
  "alarm_side (s\<lparr>nodes := h\<rparr>) = alarm_side s" "alarm_side (s\<lparr>ready_first := p\<rparr>) = alarm_side s"
  "alarm_side (s\<lparr>tmp_first := p\<rparr>) = alarm_side s" "alarm_side (s\<lparr>ready_list_size := n\<rparr>) = alarm_side s"
  "alarm_side (s\<lparr>env := w\<rparr>) = alarm_side s" "alarm_side (log_call c s) = alarm_side s"
  "alarm_side (insert_node m s) = alarm_side s" "alarm_side (erase_node fd a s) = alarm_side s"
  "alarm_side (set_timeout_in_us t s) = alarm_side s"
  by (simp_all add: alarm_side_def log_call_def insert_node_def erase_node_def set_timeout_in_us_def)

lemma side_upd_node [side_frame]: "upd_node a f s = Inr s' \<Longrightarrow> alarm_side s' = alarm_side s"
  by (auto simp: upd_node_def rbind_eq_Inr)

lemma side_write_slot [side_frame]: "write_slot sl p s = Inr s' \<Longrightarrow> alarm_side s' = alarm_side s"
  by (cases sl) (auto dest: side_upd_node)

lemma side_AddToReadyList [side_frame]: "AddToReadyList a s = Inr s' \<Longrightarrow> alarm_side s' = alarm_side s"
  by (auto simp: AddToReadyList_def LIST_INSERT_HEAD_def rbind_eq_Inr
      dest!: side_upd_node side_write_slot split: if_splits option.splits)

lemma side_RemoveFromReadyList [side_frame]:
  "RemoveFromReadyList a s = Inr s' \<Longrightarrow> alarm_side s' = alarm_side s"
  by (auto simp: RemoveFromReadyList_def LIST_REMOVE_def rbind_eq_Inr
      dest!: side_upd_node side_write_slot split: if_splits option.splits)

lemma side_swap_lists [side_frame]: "swap_lists s = Inr s' \<Longrightarrow> alarm_side s' = alarm_side s"
  by (auto simp: swap_lists_def Let_def dest!: side_upd_node split: option.splits)

lemma side_ctl [side_frame]:
  "DelFD N fd s = Inr s' \<Longrightarrow> alarm_side s' = alarm_side s"
  "AddFD N fd m s = Inr s' \<Longrightarrow> alarm_side s' = alarm_side s"
  "ModFD N fd m s = Inr s' \<Longrightarrow> alarm_side s' = alarm_side s"
  by (auto simp: DelFD_def AddFD_def ModFD_def Let_def split: prod.splits if_splits)

lemma side_run_fd_op [side_frame]:
  assumes "run_fd_op N op s = Inr s'"
  shows "alarm_side s' = alarm_side s"
proof (cases op)
  case (Do_Register fd c m)
  with assms show ?thesis
    by (auto simp: RegisterFD_def rbind_eq_Inr dest!: side_frame split: option.splits)
next
  case (Do_Unregister fd)
  with assms show ?thesis
    by (auto simp: UnregisterFD_def rbind_eq_Inr Let_def dest!: side_frame split: option.splits if_splits)
next
  case (Do_Modify fd r d)
  with assms show ?thesis
    by (auto simp: ModifyFD_def rbind_eq_Inr Let_def dest!: side_frame split: option.splits)
next
  case (Do_HandleEvent fd m)
  with assms show ?thesis
    by (auto simp: HandleEvent_def rbind_eq_Inr dest!: side_frame split: option.splits if_splits)
next
  case (Do_SetReady fd m)
  with assms show ?thesis
    by (auto simp: SetFDReady_def rbind_eq_Inr dest!: side_frame split: option.splits if_splits)
next
  case (Do_SetNotReady fd)
  with assms show ?thesis
    by (auto simp: SetFDNotReady_def dest!: side_frame split: option.splits)
qed

section \<open>Every public operation keeps the whole invariant\<close>

text \<open>
  \<open>server_ok cur s\<close>: both invariants; \<open>cur\<close> is the alarm entry being fired, which has to stay.
  \<open>call_ok cur s s'\<close>: what a call into the server from a callback may do.
\<close>

definition server_ok :: "nat option \<Rightarrow> ('cb, 'al, 'w) es \<Rightarrow> bool" where
  "server_ok cur s \<longleftrightarrow> es_inv s \<and> alarm_wf cur s \<and> (\<forall>k. cur = Some k \<longrightarrow> map_of (alarm_map s) k \<noteq> None)"

definition loop_side :: "('cb, 'al, 'w) es \<Rightarrow> int \<times> 'al set \<times> bool \<times> bool" where
  "loop_side s = (recorded_now_in_us s, alarms_reregistered_and_should_be_skipped s,
     in_wait_for_events_and_execute_callbacks s, in_shutdown s)"

definition call_ok :: "nat option \<Rightarrow> ('cb, 'al, 'w) es \<Rightarrow> ('cb, 'al, 'w) es \<Rightarrow> bool" where
  "call_ok cur s s' \<longleftrightarrow>
     server_ok cur s' \<and> evolves s s' \<and> loop_side s' = loop_side s \<and>
     (\<forall>k. cur = Some k \<longrightarrow> map_of (alarm_map s') k = map_of (alarm_map s) k)"

lemma call_ok_refl: "server_ok cur s \<Longrightarrow> call_ok cur s s"
  by (simp add: call_ok_def)

lemma call_ok_trans: "call_ok cur s t \<Longrightarrow> call_ok cur t u \<Longrightarrow> call_ok cur s u"
  by (auto simp: call_ok_def intro: evolves_trans)

lemma evolves_same_fd:
  assumes "\<And>rs ts. es_wf s' rs ts = es_wf s rs ts" and "busy s' = busy s"
  shows "evolves s s'"
  using assms unfolding evolves_def by (metis empty_iff filter_True)

lemma es_wf_alarm_fields:
  "es_wf (s\<lparr>alarm_map := M\<rparr>) rs ts = es_wf s rs ts" "es_wf (s\<lparr>all_alarms := A\<rparr>) rs ts = es_wf s rs ts"
  "es_wf (s\<lparr>next_token := k\<rparr>) rs ts = es_wf s rs ts" "es_wf (s\<lparr>alarm_objs := f\<rparr>) rs ts = es_wf s rs ts"
  "es_wf (s\<lparr>timeout_in_us := i\<rparr>) rs ts = es_wf s rs ts"
  "es_wf (s\<lparr>recorded_now_in_us := i\<rparr>) rs ts = es_wf s rs ts"
  "es_wf (s\<lparr>alarms_reregistered_and_should_be_skipped := A\<rparr>) rs ts = es_wf s rs ts"
  "es_wf (s\<lparr>in_wait_for_events_and_execute_callbacks := b\<rparr>) rs ts = es_wf s rs ts"
  by (simp_all add: es_wf_def rl_view_def)

lemma busy_alarm_fields:
  "busy (s\<lparr>alarm_map := M\<rparr>) = busy s" "busy (s\<lparr>all_alarms := A\<rparr>) = busy s"
  "busy (s\<lparr>next_token := k\<rparr>) = busy s" "busy (s\<lparr>alarm_objs := f\<rparr>) = busy s"
  "busy (s\<lparr>timeout_in_us := i\<rparr>) = busy s" "busy (s\<lparr>recorded_now_in_us := i\<rparr>) = busy s"
  "busy (s\<lparr>alarms_reregistered_and_should_be_skipped := A\<rparr>) = busy s"
  "busy (s\<lparr>in_wait_for_events_and_execute_callbacks := b\<rparr>) = busy s"
  by (simp_all add: busy_def)

lemmas fd_frame = es_wf_alarm_fields busy_alarm_fields

lemma es_inv_alarm_fields:
  "es_inv (s\<lparr>alarm_map := M\<rparr>) = es_inv s" "es_inv (s\<lparr>all_alarms := A\<rparr>) = es_inv s"
  "es_inv (s\<lparr>next_token := k\<rparr>) = es_inv s" "es_inv (s\<lparr>alarm_objs := f\<rparr>) = es_inv s"
  "es_inv (s\<lparr>timeout_in_us := i\<rparr>) = es_inv s"
  "es_inv (s\<lparr>recorded_now_in_us := i\<rparr>) = es_inv s"
  "es_inv (s\<lparr>alarms_reregistered_and_should_be_skipped := A\<rparr>) = es_inv s"
  "es_inv (s\<lparr>in_wait_for_events_and_execute_callbacks := b\<rparr>) = es_inv s"
  by (simp_all add: es_inv_def fd_frame)

lemma RegisterAlarm_evolves:
  assumes "RegisterAlarm t ac s = Inr s'"
  shows "evolves s s'" "loop_side s' = loop_side s"
    "map_of (alarm_map s) k \<noteq> None \<Longrightarrow> map_of (alarm_map s) (next_token s) = None \<Longrightarrow>
       map_of (alarm_map s') k = map_of (alarm_map s) k"
  using assms
  by (auto simp: RegisterAlarm_def Let_def EpollAlarm_OnRegistration_def upd_alarm_def loop_side_def
      map_of_multimap_insert fd_frame
      intro!: evolves_same_fd split: option.splits if_splits)

lemma UnregisterIfRegistered_evolves:
  assumes "UnregisterIfRegistered al s = Inr s'"
  shows "evolves s s'" "loop_side s' = loop_side s"
  using assms
  by (auto simp: UnregisterIfRegistered_def UnregisterAlarm_def Let_def EpollAlarm_OnUnregistration_def
      upd_alarm_def loop_side_def fd_frame intro!: evolves_same_fd split: option.splits if_splits)

lemma alarm_side_frame:
  assumes "alarm_side s' = alarm_side s"
  shows "alarm_wf cur s' = alarm_wf cur s" "alarm_map s' = alarm_map s" "loop_side s' = loop_side s"
  using assms by (simp_all add: alarm_side_def alarm_wf_def loop_side_def)

lemma fresh_token: "alarm_wf cur s \<Longrightarrow> map_of (alarm_map s) (next_token s) = None"
  unfolding alarm_wf_def using alarm_okD(3) [of cur "alarm_map s" _ _ "next_token s" "next_token s"]
  by (cases "map_of (alarm_map s) (next_token s)") auto

lemma run_api_op_ok:
  fixes s :: "('cb, 'al, 'w) es"
  assumes ok: "server_ok cur s"
  shows "case run_api_op N op s of Inl e \<Rightarrow> benign e | Inr s' \<Rightarrow> call_ok cur s s'"
proof (cases op)
  case (Api_fd op')
  have "keeps s (run_fd_op N op' s)" by (rule keeps_run_fd_op)
  then have k: "case run_fd_op N op' s of Inl e \<Rightarrow> benign e | Inr s' \<Rightarrow> evolves s s'"
    using ok by (simp add: keeps_def server_ok_def)
  show ?thesis
  proof (cases "run_fd_op N op' s")
    case (Inl e)
    with k Api_fd show ?thesis by simp
  next
    case (Inr s')
    with k have e: "evolves s s'" by simp
    moreover have "es_inv s'" using evolves_inv [OF e] ok by (simp add: server_ok_def)
    ultimately have "call_ok cur s s'"
      using alarm_side_frame [OF side_run_fd_op [OF Inr]] ok by (simp add: call_ok_def server_ok_def)
    with Inr Api_fd show ?thesis by simp
  qed
next
  case (Api_register_alarm t al)
  have new: "map_of (alarm_map s) (next_token s) = None"
    using ok fresh_token [of cur s] by (simp add: server_ok_def)
  show ?thesis
  proof (cases "RegisterAlarm t (Some al) s")
    case (Inl e)
    with Api_register_alarm show ?thesis by (auto simp: RegisterAlarm_def Let_def split: if_splits)
  next
    case (Inr s')
    have "call_ok cur s s'"
      using RegisterAlarm_evolves [OF Inr] RegisterAlarm_wf [OF _ Inr] new ok
      unfolding call_ok_def server_ok_def by (metis evolves_inv)
    with Inr Api_register_alarm show ?thesis by simp
  qed
next
  case (Api_unregister_alarm al)
  from ok have w: "alarm_wf cur s" by (simp add: server_ok_def)
  obtain s' where s': "UnregisterIfRegistered al s = Inr s'" "alarm_wf cur s'"
    "\<And>k. cur = Some k \<Longrightarrow> map_of (alarm_map s') k = map_of (alarm_map s) k"
    by (rule UnregisterIfRegistered_wf [OF w, of al]) blast
  have "call_ok cur s s'"
    using UnregisterIfRegistered_evolves [OF s'(1)] s'(2,3) ok
    unfolding call_ok_def server_ok_def by (metis evolves_inv)
  with s'(1) Api_unregister_alarm show ?thesis by simp
next
  case (Api_set_timeout t)
  with ok show ?thesis
    by (auto simp: call_ok_def server_ok_def set_timeout_in_us_def loop_side_def alarm_wf_def fd_frame
        es_inv_alarm_fields intro!: evolves_same_fd)
next
  case (Api_world f)
  with ok show ?thesis
    by (auto simp: call_ok_def server_ok_def loop_side_def alarm_wf_def es_inv_def evolves_frame)
qed

section \<open>Callback bodies\<close>

datatype ('s, 'o, 'r) client = Return 'r | Perform 'o "'s \<Rightarrow> ('s, 'o, 'r) client"

primrec run_client :: "('o \<Rightarrow> 's \<Rightarrow> 's res) \<Rightarrow> ('s, 'o, 'r) client \<Rightarrow> 's \<Rightarrow> ('r \<times> 's) res" where
  "run_client run (Return r) s = Inr (r, s)"
| "run_client run (Perform op k) s = rbind (run op s) (\<lambda>s'. run_client run (k s') s')"

lemma run_client_ok:
  fixes s :: "('cb, 'al, 'w) es"
  assumes "server_ok cur s"
  shows "case run_client (run_api_op N) p s of Inl e \<Rightarrow> benign e | Inr (r, s') \<Rightarrow> call_ok cur s s'"
  using assms
proof (induction p arbitrary: s)
  case (Return r)
  then show ?case by (simp add: call_ok_refl)
next
  case (Perform op k)
  show ?case
  proof (cases "run_api_op N op s")
    case (Inl e)
    with run_api_op_ok [OF Perform.prems, of N op] show ?thesis by simp
  next
    case (Inr t)
    with run_api_op_ok [OF Perform.prems, of N op] have t: "call_ok cur s t" by simp
    then have "server_ok cur t" by (simp add: call_ok_def)
    from Perform.IH [OF rangeI this, of t] t Inr show ?thesis
      by (auto split: sum.splits intro: call_ok_trans)
  qed
qed

end
