(* ===== verification/Epoll_Loop.thy ===== *)
theory Epoll_Loop
  imports Epoll_Callbacks
begin

unbundle bit_operations_syntax

text \<open>
  The event loop of \<open>EpollServer\<close>: \<open>CallReadyListCallbacks\<close>,
  \<open>WaitForEventsAndCallHandleEvents\<close>, \<open>WaitForEventsAndExecuteCallbacks\<close> and the destructor.

  The virtual functions \<open>OnEvent\<close> and \<open>OnAlarm\<close> are the parameters \<open>on_event\<close> and
  \<open>on_alarm\<close>; under the contracts of the locales \<open>event_callbacks\<close> and \<open>alarm_callbacks\<close> the loops
  return, never touch an erased node, and leave the server in a state in which the next round can
  start.
\<close>

type_synonym ('cb, 'al, 'w) event_fn =
  "'cb \<Rightarrow> int \<Rightarrow> mask \<Rightarrow> ('cb, 'al, 'w) es \<Rightarrow> (mask \<times> ('cb, 'al, 'w) es) outcome"

type_synonym ('cb, 'al, 'w) alarm_fn =
  "'al \<Rightarrow> ('cb, 'al, 'w) es \<Rightarrow> (int \<times> ('cb, 'al, 'w) es) outcome"

section \<open>CallReadyListCallbacks\<close>

text \<open>
  One turn of the loop up to the call of \<open>OnEvent\<close>: the node is taken off the list, its pending
  events are collected and cleared, and it is marked in use. The turn after the call: the mark is
  cleared, a node whose callback has gone is erased, one that asks for more goes back on the list.
\<close>

definition begin_OnEvent ::
  "addr \<Rightarrow> ('cb, 'al, 'w) es \<Rightarrow> (('cb \<times> int \<times> mask) \<times> ('cb, 'al, 'w) es) res" where
  "begin_OnEvent a s =
     rbind (RemoveFromReadyList a s) (\<lambda>s.
     rbind (deref a s) (\<lambda>n.
     rbind (upd_node a (\<lambda>n. n\<lparr>ce_events_asserted := 0, ce_events_to_fake := 0, ce_in_use := True\<rparr>) s) (\<lambda>s.
     case ce_cb n of
       None \<Rightarrow> Inl Null_deref
     | Some cb \<Rightarrow>
         let in_events = ce_events_asserted n OR ce_events_to_fake n
         in Inr ((cb, ce_fd n, in_events), log_call (OnEvent cb (ce_fd n) in_events) s))))"

definition erase_key :: "int \<Rightarrow> ('cb, 'al, 'w) es \<Rightarrow> ('cb, 'al, 'w) es" where
  "erase_key fd s = (case map_of (cb_map s) fd of None \<Rightarrow> s | Some a \<Rightarrow> erase_node fd a s)"

definition end_OnEvent :: "addr \<Rightarrow> mask \<Rightarrow> ('cb, 'al, 'w) es \<Rightarrow> ('cb, 'al, 'w) es res" where
  "end_OnEvent a out_ready_mask s =
     rbind (upd_node a (\<lambda>n. n\<lparr>ce_in_use := False\<rparr>) s) (\<lambda>s.
     rbind (deref a s) (\<lambda>n.
     if ce_cb n = None then Inr (erase_key (ce_fd n) s)
     else if out_ready_mask \<noteq> 0
     then rbind (upd_node a (\<lambda>n. n\<lparr>ce_events_to_fake := out_ready_mask\<rparr>) s) (AddToReadyList a)
     else Inr s))"

partial_function (option) ready_loop ::
  "('cb, 'al, 'w) event_fn \<Rightarrow> ('cb, 'al, 'w) es \<Rightarrow> ('cb, 'al, 'w) es outcome" where
  "ready_loop on_event s =
     (case tmp_first s of
        None \<Rightarrow> Some (Inr s)
      | Some a \<Rightarrow>
          (case begin_OnEvent a s of
             Inl e \<Rightarrow> Some (Inl e)
           | Inr ((cb, fd, in_events), s) \<Rightarrow>
               Option.bind (on_event cb fd in_events s) (\<lambda>r.
               case r of
                 Inl e \<Rightarrow> Some (Inl e)
               | Inr (out_ready_mask, s) \<Rightarrow>
                   (case end_OnEvent a out_ready_mask s of
                      Inl e \<Rightarrow> Some (Inl e)
                    | Inr s \<Rightarrow> ready_loop on_event s))))"

definition CallReadyListCallbacks ::
  "('cb, 'al, 'w) event_fn \<Rightarrow> ('cb, 'al, 'w) es \<Rightarrow> ('cb, 'al, 'w) es outcome" where
  "CallReadyListCallbacks on_event s =
     (case swap_lists s of Inl e \<Rightarrow> Some (Inl e) | Inr s \<Rightarrow> ready_loop on_event s)"

section \<open>WaitForEventsAndCallHandleEvents\<close>

definition events_size :: int where "events_size = 256"

text \<open>
  The timeout handed to epoll_wait, in milliseconds, as an int. Every value that reaches the
  division is -1000, 0 or at least 1000, so truncation and \<open>div\<close> agree.
\<close>

definition timeout_in_ms :: "int \<Rightarrow> bool \<Rightarrow> int" where
  "timeout_in_ms t ready_pending =
     int32_of
       ((if t = 0 \<or> ready_pending then 0
         else if t < 0 then -1000
         else if t < 1000 then 1000
         else t) div 1000)"

fun handle_events :: "(int \<times> mask) list \<Rightarrow> ('cb, 'al, 'w) es \<Rightarrow> ('cb, 'al, 'w) es res" where
  "handle_events [] s = Inr s"
| "handle_events ((fd, event_mask) # es) s = rbind (HandleEvent fd event_mask s) (handle_events es)"

text \<open>\<open>poll_events\<close>: the part before the ready list is run.\<close>

definition poll_events ::
  "('w, 'n) netdp_epoll_scheme \<Rightarrow> int \<Rightarrow> ('cb, 'al, 'w) es \<Rightarrow> ('cb, 'al, 'w) es res" where
  "poll_events N t s =
     (let ((nfds, events, errno), w) =
            netdpsock_epoll_wait N (epoll_fd s) events_size
              (timeout_in_ms t (ready_first s \<noteq> None)) (env s);
          (now, s) = NowInUsec N (s\<lparr>env := w\<rparr>);
          s = s\<lparr>recorded_now_in_us := now\<rparr>
      in if nfds > 0 then handle_events (take (nat nfds) events) s
         else if nfds < 0 \<and> errno \<noteq> NETDP_EINTR N \<and> errno \<noteq> 0
         then Inl (Log_fatal ''in epoll_wait'')
         else Inr s)"

definition WaitForEventsAndCallHandleEvents ::
  "('w, 'n) netdp_epoll_scheme \<Rightarrow> ('cb, 'al, 'w) event_fn \<Rightarrow> int \<Rightarrow>
   ('cb, 'al, 'w) es \<Rightarrow> ('cb, 'al, 'w) es outcome" where
  "WaitForEventsAndCallHandleEvents N on_event t s =
     obind (Some (poll_events N t s)) (\<lambda>s.
     if ready_first s \<noteq> None then CallReadyListCallbacks on_event s else Some (Inr s))"

section \<open>WaitForEventsAndExecuteCallbacks\<close>

definition wait_time_in_us :: "int \<Rightarrow> int \<Rightarrow> int \<Rightarrow> int" where
  "wait_time_in_us timeout next_alarm_time now =
     (let alarm_timeout = int64_of (next_alarm_time - now)
      in if alarm_timeout < timeout \<or> timeout < 0 then max alarm_timeout 0 else timeout)"

text \<open>
  A nested call is refused: \<open>LOG(DFATAL)\<close> only logs in a release build. The guard object sets the
  flag for the rest of the function and clears it on every return.
\<close>

definition WaitForEventsAndExecuteCallbacks ::
  "('w, 'n) netdp_epoll_scheme \<Rightarrow> ('cb, 'al, 'w) event_fn \<Rightarrow> ('cb, 'al, 'w) alarm_fn \<Rightarrow>
   ('cb, 'al, 'w) es \<Rightarrow> ('cb, 'al, 'w) es outcome" where
  "WaitForEventsAndExecuteCallbacks N on_event on_alarm s =
     (if in_wait_for_events_and_execute_callbacks s then Some (Inr s)
      else
        let s = s\<lparr>in_wait_for_events_and_execute_callbacks := True\<rparr>
        in obind (case alarm_map s of
                    [] \<Rightarrow> WaitForEventsAndCallHandleEvents N on_event (timeout_in_us s) s
                  | (_, next_alarm_time_in_us, _) # _ \<Rightarrow>
                      let (now_in_us, s) = NowInUsec N s in
                      obind (WaitForEventsAndCallHandleEvents N on_event
                               (wait_time_in_us (timeout_in_us s) next_alarm_time_in_us now_in_us) s)
                        (CallAndReregisterAlarmEvents on_alarm)) (\<lambda>s.
           Some (Inr (s\<lparr>recorded_now_in_us := 0, in_wait_for_events_and_execute_callbacks := False\<rparr>))))"

section \<open>The destructor\<close>

text \<open>
  \<open>CleanupFDToCBMap\<close>: the first node of the map is marked in use, told, and erased, until the map is
  empty; \<open>OnShutdown\<close> changes nothing in any class of the repository.
\<close>

fun shutdown_fds :: "(int \<times> addr) list \<Rightarrow> ('cb, 'al, 'w) es \<Rightarrow> ('cb, 'al, 'w) es res" where
  "shutdown_fds [] s = Inr s"
| "shutdown_fds ((fd, a) # es) s =
     rbind (upd_node a (\<lambda>n. n\<lparr>ce_in_use := True\<rparr>) s) (\<lambda>s.
     rbind (deref a s) (\<lambda>n.
     let s = (case ce_cb n of None \<Rightarrow> s | Some cb \<Rightarrow> log_call (OnShutdown cb fd) s)
     in shutdown_fds es (erase_node fd a s)))"

definition CleanupFDToCBMap :: "('cb, 'al, 'w) es \<Rightarrow> ('cb, 'al, 'w) es res" where
  "CleanupFDToCBMap s = shutdown_fds (cb_map s) s"

definition EpollServer_delete ::
  "('w, 'n) netdp_epoll_scheme \<Rightarrow> ('cb, 'al, 'w) es \<Rightarrow> ('cb, 'al, 'w) es res" where
  "EpollServer_delete N s =
     rbind (CleanupFDToCBMap (s\<lparr>in_shutdown := True\<rparr>)) (\<lambda>s.
     let s = CleanupTimeToAlarmCBMap (s\<lparr>ready_first := None, tmp_first := None\<rparr>)
     in Inr (s\<lparr>env := snd (netdpsock_close N (epoll_fd s) (env s))\<rparr>))"

end
