(* ===== verification/Epoll_Ready_Correct.thy ===== *)
theory Epoll_Ready_Correct
  imports Epoll_Loop
begin

unbundle bit_operations_syntax

text \<open>
  Correctness of \<open>CallReadyListCallbacks\<close>: with callbacks that fulfil the contract of
  \<open>event_callbacks\<close> the loop ends, every node it touches is live, and the temporary list is empty
  afterwards; with callbacks that leave the event loop alone, exactly the descriptors that were on
  the ready list get one \<open>OnEvent\<close> call each, in list order.
\<close>

section \<open>Operations that leave the world alone\<close>

named_theorems env_frame \<open>operations that leave the world alone\<close>

lemma env_upd_node [env_frame]: "upd_node a f s = Inr s' \<Longrightarrow> env s' = env s"
  by (auto simp: upd_node_def rbind_eq_Inr)

lemma env_write_slot [env_frame]: "write_slot sl p s = Inr s' \<Longrightarrow> env s' = env s"
  by (cases sl) (auto dest: env_upd_node)

lemma env_AddToReadyList [env_frame]: "AddToReadyList a s = Inr s' \<Longrightarrow> env s' = env s"
  by (auto simp: AddToReadyList_def LIST_INSERT_HEAD_def rbind_eq_Inr
      dest!: env_upd_node env_write_slot split: if_splits option.splits)

lemma env_RemoveFromReadyList [env_frame]: "RemoveFromReadyList a s = Inr s' \<Longrightarrow> env s' = env s"
  by (auto simp: RemoveFromReadyList_def LIST_REMOVE_def rbind_eq_Inr
      dest!: env_upd_node env_write_slot split: if_splits option.splits)

lemma env_swap_lists [env_frame]: "swap_lists s = Inr s' \<Longrightarrow> env s' = env s"
  by (auto simp: swap_lists_def Let_def dest!: env_upd_node split: option.splits)

lemma env_begin_OnEvent [env_frame]: "begin_OnEvent a s = Inr (e, s') \<Longrightarrow> env s' = env s"
  by (auto simp: begin_OnEvent_def rbind_eq_Inr Let_def log_call_def
      dest!: env_upd_node env_RemoveFromReadyList split: option.splits)

lemma env_end_OnEvent [env_frame]: "end_OnEvent a out s = Inr s' \<Longrightarrow> env s' = env s"
  by (auto simp: end_OnEvent_def rbind_eq_Inr erase_key_def erase_node_def
      dest!: env_upd_node env_AddToReadyList split: if_splits option.splits)

lemma env_HandleEvent [env_frame]: "HandleEvent fd m s = Inr s' \<Longrightarrow> env s' = env s"
  by (auto simp: HandleEvent_def rbind_eq_Inr dest!: env_upd_node env_AddToReadyList split: if_splits option.splits)

lemma env_handle_events [env_frame]: "handle_events es s = Inr s' \<Longrightarrow> env s' = env s"
proof (induction es arbitrary: s)
  case (Cons e es)
  then show ?case by (cases e) (auto simp: rbind_eq_Inr dest!: env_HandleEvent)
qed simp

lemma env_RegisterAlarm [env_frame]: "RegisterAlarm t al s = Inr s' \<Longrightarrow> env s' = env s"
  by (auto simp: RegisterAlarm_def Let_def EpollAlarm_OnRegistration_def upd_alarm_def split: option.splits if_splits)

lemma env_UnregisterIfRegistered [env_frame]: "UnregisterIfRegistered al s = Inr s' \<Longrightarrow> env s' = env s"
  by (auto simp: UnregisterIfRegistered_def UnregisterAlarm_def EpollAlarm_OnUnregistration_def upd_alarm_def Let_def
      split: option.splits if_splits)

lemma env_end_OnAlarm [env_frame]: "end_OnAlarm now k al t s = Inr (i, s') \<Longrightarrow> env s' = env s"
  by (auto simp: end_OnAlarm_def Let_def rbind_eq_Inr dest!: env_RegisterAlarm split: if_splits)

section \<open>One turn\<close>

lemma begin_OnEvent_wf:
  fixes s :: "('cb, 'al, 'w) es"
  assumes w: "es_wf s rs (a # ts)"
  obtains n c s' n' where "nodes s a = Some n" "ce_cb n = Some c"
    "begin_OnEvent a s = Inr ((c, ce_fd n, ce_events_asserted n OR ce_events_to_fake n), s')"
    "es_wf s' rs ts" "busy s' = insert a (busy s)" "alarm_side s' = alarm_side s"
    "calls s' = calls s @ [OnEvent c (ce_fd n) (ce_events_asserted n OR ce_events_to_fake n)]"
    "\<And>b. b \<noteq> a \<Longrightarrow> map_option payload (nodes s' b) = map_option payload (nodes s b)"
    "nodes s' a = Some n'"
    "payload n' = payload (n\<lparr>ce_events_asserted := 0, ce_events_to_fake := 0, ce_in_use := True\<rparr>)"
    "env s' = env s" "epoll_fd s' = epoll_fd s" "registry s' = registry s"
proof -
  let ?clear = "\<lambda>n. n\<lparr>ce_events_asserted := 0, ce_events_to_fake := 0, ce_in_use := True\<rparr>"
  note W = es_wfD [OF w]
  from lists_in_store [OF W(1), of a] obtain n where n: "nodes s a = Some n" by auto
  with listsD(4) [OF W(1) n] W(6) [OF n] obtain c where c: "ce_cb n = Some c" by auto
  from listsD(3) [OF W(1)] have a: "a \<notin> set rs" by auto
  obtain t m where t: "RemoveFromReadyList a s = Inr t" "es_wf t (remove1 a rs) (remove1 a (a # ts))"
    "registry t = registry s" "env t = env s" "epoll_fd t = epoll_fd s" "calls t = calls s"
    "nodes t a = Some m" "payload m = payload n"
    by (rule RemoveFromReadyList_frame [OF w n])
  obtain t' where t': "RemoveFromReadyList a s = Inr t'" "busy t' = busy s" "same_data s t'"
    by (rule RemoveFromReadyList_wf [OF w n])
  with t have [simp]: "t' = t" by simp
  note F = payload_fields [OF t(8)]
  let ?u = "t\<lparr>nodes := (nodes t)(a \<mapsto> ?clear m)\<rparr>"
  let ?e = "ce_events_asserted n OR ce_events_to_fake n"
  have wt: "es_wf t rs ts" using t(2) a by (simp add: remove1_idem)
  have u: "es_wf ?u rs ts" "busy ?u = insert a (busy t)"
    using es_wf_upd_use [OF wt t(7), of "?clear m"] c F by auto
  have r: "registry ?u = registry s"
    using registry_upd [OF wt t(7) refl, of "?clear m"] registry_node [OF es_wfD(4) [OF wt t(7)] t(7)] t(3)
    by (simp add: fun_upd_idem)
  have "begin_OnEvent a s = Inr ((c, ce_fd n, ?e), log_call (OnEvent c (ce_fd n) ?e) ?u)"
    using t t(7) c F by (simp add: begin_OnEvent_def deref_def upd_node_Inr [OF t(7)] Let_def)
  moreover have "payload (?clear m) = payload (?clear n)" using F by (simp add: payload_def)
  moreover have "alarm_side ?u = alarm_side s" using side_RemoveFromReadyList [OF t(1)] by simp
  moreover have "busy (log_call (OnEvent c (ce_fd n) ?e) ?u) = busy ?u"
    by (simp add: busy_def log_call_def)
  ultimately show ?thesis using t' u r t n c
    by (intro that [of n c "log_call (OnEvent c (ce_fd n) ?e) ?u" "?clear m"])
       (auto simp: same_data_def)
qed

lemma end_OnEvent_live:
  fixes s :: "('cb, 'al, 'w) es"
  assumes w: "es_wf s rs ts" and n: "nodes s a = Some n" and c: "ce_cb n = Some c"
  obtains s' where "end_OnEvent a out s = Inr s'"
    "es_wf s' (if out = 0 \<or> a \<in> set (rs @ ts) then rs else a # rs) ts" "busy s' = busy s - {a}"
    "alarm_side s' = alarm_side s" "calls s' = calls s"
    "\<And>b. b \<noteq> a \<Longrightarrow> map_option payload (nodes s' b) = map_option payload (nodes s b)"
proof -
  let ?n = "n\<lparr>ce_in_use := False\<rparr>"
  let ?s = "s\<lparr>nodes := (nodes s)(a \<mapsto> ?n)\<rparr>"
  have s: "es_wf ?s rs ts" "busy ?s = busy s - {a}"
    using es_wf_upd_use [OF w n, of ?n] c by auto
  let ?m = "?n\<lparr>ce_events_to_fake := out\<rparr>"
  let ?t = "s\<lparr>nodes := (nodes s)(a \<mapsto> ?m)\<rparr>"
  have t: "es_wf ?t rs ts" "busy ?t = busy s - {a}"
    using es_wf_upd_use [OF w n, of ?m] c by auto
  obtain s' where s': "AddToReadyList a ?t = Inr s'"
    "es_wf s' (if a \<in> set (rs @ ts) then rs else a # rs) ts" "busy s' = busy ?t" "same_data ?t s'"
    by (rule AddToReadyList_wf [OF t(1), of a ?m]) (use c in simp_all)
  show ?thesis
  proof (cases "out = 0")
    case True
    with c s n that [of ?s] show ?thesis by (simp add: end_OnEvent_def upd_node_Inr [OF n] deref_def)
  next
    case False
    have "end_OnEvent a out s = Inr s'"
      using False c s'(1) n by (simp add: end_OnEvent_def deref_def upd_node_def)
    moreover have "calls s' = calls s"
      using more_fields(4) [of s' ?t] s'(4) by (simp add: same_data_def)
    ultimately show ?thesis using that [of s'] False s' t side_AddToReadyList [OF s'(1)]
      by (simp add: same_data_def)
  qed
qed

lemma end_OnEvent_wf:
  fixes s :: "('cb, 'al, 'w) es"
  assumes w: "es_wf s rs ts" and b: "a \<in> busy s"
  obtains s' rs' where "end_OnEvent a out s = Inr s'" "es_wf s' rs' ts" "busy s' = busy s - {a}"
    "alarm_side s' = alarm_side s"
proof -
  from b obtain n where n: "nodes s a = Some n" "ce_in_use n" by (auto simp: busy_def)
  note W = es_wfD [OF w]
  show ?thesis
  proof (cases "ce_cb n")
    case None
    have m: "map_of (cb_map s) (ce_fd n) = Some a" by (rule W(4) [OF n(1)])
    have "erase_key (ce_fd n) (s\<lparr>nodes := (nodes s)(a \<mapsto> n\<lparr>ce_in_use := False\<rparr>)\<rparr>) = erase_node (ce_fd n) a s"
      using m by (simp add: erase_key_def erase_node_def)
    moreover have "le_prev n = None" using W(6) [OF n(1)] None by blast
    ultimately show ?thesis
      using es_wf_erase_node [OF w m n(1)] None that [of "erase_node (ce_fd n) a s"]
      by (simp add: end_OnEvent_def upd_node_Inr [OF n(1)] deref_def)
  next
    case (Some c)
    obtain s' where "end_OnEvent a out s = Inr s'"
      "es_wf s' (if out = 0 \<or> a \<in> set (rs @ ts) then rs else a # rs) ts" "busy s' = busy s - {a}"
      "alarm_side s' = alarm_side s"
      by (rule end_OnEvent_live [OF w n(1) Some])
    then show ?thesis by (rule that)
  qed
qed

section \<open>The loop under the callback contract\<close>

lemma server_ok_side:
  assumes "server_ok cur s" "es_wf s' rs ts" "alarm_side s' = alarm_side s"
  shows "server_ok cur s'"
  using assms alarm_side_frame [OF assms(3)] by (auto simp: server_ok_def es_inv_def)

definition round_done :: "('cb, 'al, 'w) es \<Rightarrow> ('cb, 'al, 'w) es \<Rightarrow> bool" where
  "round_done s s' \<longleftrightarrow>
     server_ok None s' \<and> tmp_first s' = None \<and> busy s' = {} \<and> loop_side s' = loop_side s"

text \<open>
  Callbacks may rely on an invariant \<open>J\<close> of their own, about the world and the registered alarms. The event
  loop keeps every such invariant: between callbacks it neither changes the world nor registers alarms
  its callbacks did not ask for.
\<close>

locale loop_invariant =
  fixes J :: "('cb, 'al, 'w) es \<Rightarrow> bool"
  assumes J_frame: "J s \<Longrightarrow> env s' = env s \<Longrightarrow> all_alarms s' \<subseteq> all_alarms s \<Longrightarrow> J s'"
begin

lemma J_side: "J s \<Longrightarrow> env s' = env s \<Longrightarrow> alarm_side s' = alarm_side s \<Longrightarrow> J s'"
  by (erule J_frame) (simp_all add: alarm_side_def)

end

locale event_callbacks = loop_invariant J
  for J :: "('cb, 'al, 'w) es \<Rightarrow> bool" +
  fixes on_event :: "('cb, 'al, 'w) event_fn"
  assumes on_event_ok: "server_ok None s \<Longrightarrow> J s \<Longrightarrow>
    returns_ok (\<lambda>(out, s'). call_ok None s s' \<and> J s') (on_event c fd m s)"
begin

lemma ready_loop_ok:
  assumes "server_ok None s" "es_wf s rs ts" "busy s = {}" "J s"
  shows "returns_ok (\<lambda>s'. round_done s s' \<and> J s') (ready_loop on_event s)"
  using assms
proof (induction ts arbitrary: s rs rule: length_induct)
  case (1 ts)
  note w = \<open>es_wf s rs ts\<close>
  have first: "tmp_first s = (case ts of [] \<Rightarrow> None | a # _ \<Rightarrow> Some a)"
    by (rule lists_tmp_first [OF es_wfD(1) [OF w]])
  show ?case
  proof (cases ts)
    case Nil
    with first 1 show ?thesis by (simp add: ready_loop.simps round_done_def)
  next
    case (Cons a ts')
    obtain n :: "'cb CBAndEventMask" and c s1 where s1:
      "begin_OnEvent a s = Inr ((c, ce_fd n, ce_events_asserted n OR ce_events_to_fake n), s1)"
      "es_wf s1 rs ts'" "busy s1 = insert a (busy s)" "alarm_side s1 = alarm_side s"
      by (rule begin_OnEvent_wf [OF w [unfolded Cons]]) blast
    have ok1: "server_ok None s1" by (rule server_ok_side [OF 1(2) s1(2,4)])
    have J1: "J s1" by (rule J_side [OF 1(5) env_begin_OnEvent [OF s1(1)] s1(4)])
    let ?r = "on_event c (ce_fd n) (ce_events_asserted n OR ce_events_to_fake n) s1"
    have step: "ready_loop on_event s = Option.bind ?r (\<lambda>r. case r of Inl e \<Rightarrow> Some (Inl e)
        | Inr (out, s) \<Rightarrow> (case end_OnEvent a out s of Inl e \<Rightarrow> Some (Inl e)
                          | Inr s \<Rightarrow> ready_loop on_event s))"
      using first Cons s1(1) by (subst ready_loop.simps) simp
    from on_event_ok [OF ok1 J1, of c "ce_fd n" "ce_events_asserted n OR ce_events_to_fake n"]
    show ?thesis
    proof (cases rule: returns_okE)
      case (abort e)
      then show ?thesis by (simp add: step)
    next
      case (result y)
      then obtain out s2 where y: "?r = Some (Inr (out, s2))" "call_ok None s1 s2" "J s2" by (cases y) auto
      then have e: "evolves s1 s2" "server_ok None s2" "loop_side s2 = loop_side s1"
        by (simp_all add: call_ok_def)
      from e(1) s1(2) obtain rs2 A where w2: "es_wf s2 rs2 (filter (\<lambda>x. x \<notin> A) ts')"
        unfolding evolves_def by blast
      have b2: "busy s2 = {a}" using e(1) s1(2,3) 1(4) unfolding evolves_def es_inv_def by blast
      then have "a \<in> busy s2" by simp
      then obtain s3 rs3 where s3: "end_OnEvent a out s2 = Inr s3"
        "es_wf s3 rs3 (filter (\<lambda>x. x \<notin> A) ts')" "busy s3 = busy s2 - {a}" "alarm_side s3 = alarm_side s2"
        by (rule end_OnEvent_wf [OF w2])
      have shorter: "length (filter (\<lambda>x. x \<notin> A) ts') < length ts"
        using Cons length_filter_le [of _ ts'] by (simp add: less_Suc_eq_le)
      have "J s3" by (rule J_side [OF y(3) env_end_OnEvent [OF s3(1)] s3(4)])
      then have "returns_ok (\<lambda>s'. round_done s3 s' \<and> J s') (ready_loop on_event s3)"
        using 1(1) [rule_format, OF shorter server_ok_side [OF e(2) s3(2,4)] s3(2)] s3(3) b2 by simp
      moreover have "loop_side s3 = loop_side s"
        using alarm_side_frame(3) [OF s3(4)] alarm_side_frame(3) [OF s1(4)] e(3) by simp
      ultimately show ?thesis
        using y(1) s3(1) by (auto simp: step round_done_def elim: returns_ok_mono)
    qed
  qed
qed

lemma CallReadyListCallbacks_ok:
  assumes ok: "server_ok None s" and "tmp_first s = None" "busy s = {}" "J s"
  shows "returns_ok (\<lambda>s'. round_done s s' \<and> J s') (CallReadyListCallbacks on_event s)"
proof -
  from ok obtain rs ts where w: "es_wf s rs ts" by (auto simp: server_ok_def es_inv_def)
  with lists_tmp_first [OF es_wfD(1) [OF w]] assms(2) have [simp]: "ts = []"
    by (simp split: list.splits)
  obtain s' where s': "swap_lists s = Inr s'" "rl_view s' [] rs" "same_data s s'"
    using swap_lists_lists [of s rs] es_wfD(1) [OF w] by auto
  have "ce_cb n \<noteq> None" if "a \<in> set ([] @ rs)" "nodes s a = Some n" for a n
    using that listsD(4) [OF es_wfD(1) [OF w] that(2)] es_wfD(6) [OF w that(2)] by auto
  then have w': "es_wf s' [] rs" "busy s' = busy s" using es_wf_relink [OF w s'(3,2)] by blast+
  have "loop_side s' = loop_side s" by (rule alarm_side_frame(3) [OF side_swap_lists [OF s'(1)]])
  moreover have "J s'" by (rule J_side [OF assms(4) env_swap_lists [OF s'(1)] side_swap_lists [OF s'(1)]])
  ultimately show ?thesis
    using ready_loop_ok [OF server_ok_side [OF ok w'(1) side_swap_lists [OF s'(1)]] w'(1)] w'(2) assms(3) s'(1)
    by (auto simp: CallReadyListCallbacks_def round_done_def elim: returns_ok_mono)
qed

end

section \<open>Instances of the contract\<close>

text \<open>An \<open>OnEvent\<close> body that works through the public operations.\<close>

definition client_event ::
  "('w, 'n) netdp_epoll_scheme \<Rightarrow>
   ('cb \<Rightarrow> int \<Rightarrow> mask \<Rightarrow> (('cb, 'al, 'w) es, ('cb, 'al, 'w) api_op, mask) client) \<Rightarrow>
   ('cb, 'al, 'w) event_fn" where
  "client_event N body c fd m s = Some (run_client (run_api_op N) (body c fd m) s)"

lemma client_event_ok:
  assumes "server_ok None s"
  shows "returns_ok (\<lambda>(out, s'). call_ok None s s') (client_event N body c fd m s)"
  using run_client_ok [OF assms, of N "body c fd m"]
  by (auto simp: client_event_def returns_ok_def split: sum.splits)

interpretation evc: event_callbacks "\<lambda>_. True" "client_event N body" for N body
  by unfold_locales (use client_event_ok in auto)

section \<open>Callbacks that leave the event loop alone\<close>

text \<open>
  \<open>OnEvent\<close> changes only the world and answers with a mask, as the server's and the client's
  socket callbacks do while no connection is opened or closed.
\<close>

definition quiet_event ::
  "('cb \<Rightarrow> int \<Rightarrow> mask \<Rightarrow> mask) \<Rightarrow> ('cb \<Rightarrow> int \<Rightarrow> mask \<Rightarrow> 'w \<Rightarrow> 'w) \<Rightarrow> ('cb, 'al, 'w) event_fn" where
  "quiet_event out f c fd m s = Some (Inr (out c fd m, s\<lparr>env := f c fd m (env s)\<rparr>))"

text \<open>The event pending for a node: callback, descriptor and the union of both masks.\<close>

definition pending_event :: "('cb, 'al, 'w) es \<Rightarrow> addr \<Rightarrow> ('cb \<times> int \<times> mask) option" where
  "pending_event s a =
     (case nodes s a of
        None \<Rightarrow> None
      | Some n \<Rightarrow> map_option (\<lambda>c. (c, ce_fd n, ce_events_asserted n OR ce_events_to_fake n)) (ce_cb n))"

definition event_calls :: "('cb, 'al, 'w) es \<Rightarrow> addr list \<Rightarrow> 'cb cb_call list" where
  "event_calls s as = map (\<lambda>(c, fd, m). OnEvent c fd m) (List.map_filter (pending_event s) as)"

definition asks_again ::
  "('cb \<Rightarrow> int \<Rightarrow> mask \<Rightarrow> mask) \<Rightarrow> ('cb, 'al, 'w) es \<Rightarrow> addr \<Rightarrow> bool" where
  "asks_again out s a \<longleftrightarrow> (case pending_event s a of None \<Rightarrow> False | Some (c, fd, m) \<Rightarrow> out c fd m \<noteq> 0)"

lemma pending_event_payload:
  assumes "map_option payload (nodes s' a) = map_option payload (nodes s a)"
  shows "pending_event s' a = pending_event s a"
proof (cases "nodes s a")
  case (Some n)
  with assms obtain n' where n': "nodes s' a = Some n'" "payload n' = payload n" by auto
  with Some payload_fields [OF n'(2)] show ?thesis by (simp add: pending_event_def)
qed (use assms in \<open>simp add: pending_event_def\<close>)

lemma event_calls_cong:
  assumes "\<And>a. a \<in> set as \<Longrightarrow> pending_event s' a = pending_event s a"
  shows "event_calls s' as = event_calls s as"
proof -
  have "List.map_filter (pending_event s') as = List.map_filter (pending_event s) as"
    using assms by (induction as) (auto simp: map_filter_simps split: option.splits)
  then show ?thesis by (simp add: event_calls_def)
qed

lemma asks_again_cong: "pending_event s' a = pending_event s a \<Longrightarrow> asks_again out s' a = asks_again out s a"
  by (simp add: asks_again_def)

lemma ready_loop_quiet:
  fixes s :: "('cb, 'al, 'w) es"
  assumes "es_wf s rs ts"
  shows "\<exists>s'. ready_loop (quiet_event out f) s = Some (Inr s') \<and>
    es_wf s' (rev (filter (asks_again out s) ts) @ rs) [] \<and> calls s' = calls s @ event_calls s ts"
  using assms
proof (induction ts arbitrary: s rs)
  case Nil
  then show ?case
    using lists_tmp_first [OF es_wfD(1) [OF Nil]]
    by (simp add: ready_loop.simps event_calls_def map_filter_simps)
next
  case (Cons a ts)
  note w = Cons.prems
  from listsD(3) [OF es_wfD(1) [OF w]] have a: "a \<notin> set (rs @ ts)" by auto
  obtain n :: "'cb CBAndEventMask" and c s1 n1 where n: "nodes s a = Some n" "ce_cb n = Some c" and s1:
    "begin_OnEvent a s = Inr ((c, ce_fd n, ce_events_asserted n OR ce_events_to_fake n), s1)"
    "es_wf s1 rs ts"
    "calls s1 = calls s @ [OnEvent c (ce_fd n) (ce_events_asserted n OR ce_events_to_fake n)]"
    "\<And>b. b \<noteq> a \<Longrightarrow> map_option payload (nodes s1 b) = map_option payload (nodes s b)"
    "nodes s1 a = Some n1"
    "payload n1 = payload (n\<lparr>ce_events_asserted := 0, ce_events_to_fake := 0, ce_in_use := True\<rparr>)"
    by (rule begin_OnEvent_wf [OF w]) blast
  let ?e = "ce_events_asserted n OR ce_events_to_fake n"
  let ?o = "out c (ce_fd n) ?e" and ?s2 = "s1\<lparr>env := f c (ce_fd n) ?e (env s1)\<rparr>"
  have c1: "ce_cb n1 = Some c" using payload_fields(1) [OF s1(6)] n(2) by simp
  have w2: "es_wf ?s2 rs ts" "nodes ?s2 a = Some n1" using s1 by simp_all
  obtain s3 where s3: "end_OnEvent a ?o ?s2 = Inr s3"
    "es_wf s3 (if ?o = 0 \<or> a \<in> set (rs @ ts) then rs else a # rs) ts" "calls s3 = calls ?s2"
    "\<And>b. b \<noteq> a \<Longrightarrow> map_option payload (nodes s3 b) = map_option payload (nodes ?s2 b)"
    by (rule end_OnEvent_live [OF w2 c1]) blast
  have p: "pending_event s3 b = pending_event s b" if "b \<in> set ts" for b
    using that a s3(4) [of b] s1(4) [of b] by (intro pending_event_payload) auto
  have pa: "pending_event s a = Some (c, ce_fd n, ?e)" using n by (simp add: pending_event_def)
  have "tmp_first s = Some a" using lists_tmp_first [OF es_wfD(1) [OF w]] by simp
  then have "ready_loop (quiet_event out f) s = ready_loop (quiet_event out f) s3"
    using s1(1) s3(1) by (simp add: ready_loop.simps [of _ s] quiet_event_def)
  moreover have f: "filter (asks_again out s3) ts = filter (asks_again out s) ts"
    by (rule filter_cong [OF refl asks_again_cong [OF p]])
  obtain s4 where "ready_loop (quiet_event out f) s3 = Some (Inr s4)"
    "es_wf s4 (rev (filter (asks_again out s3) ts) @
       (if ?o = 0 \<or> a \<in> set (rs @ ts) then rs else a # rs)) []" "calls s4 = calls s3 @ event_calls s3 ts"
    using Cons.IH [OF s3(2)] by blast
  moreover have "rev (filter (asks_again out s) (a # ts)) @ rs =
      rev (filter (asks_again out s3) ts) @ (if ?o = 0 \<or> a \<in> set (rs @ ts) then rs else a # rs)"
    using a pa by (simp add: f asks_again_def [of _ s a])
  moreover have "event_calls s (a # ts) = OnEvent c (ce_fd n) ?e # event_calls s3 ts"
    using event_calls_cong [OF p, of ts] pa by (simp add: event_calls_def map_filter_simps)
  ultimately show ?case using s3(3) s1(3) by simp
qed

end
