(* ===== verification/Epoll_Alarm_Correct.thy ===== *)
theory Epoll_Alarm_Correct
  imports Epoll_Ready_Correct "HOL-Library.Multiset"
begin

text \<open>
  Correctness of \<open>CallAndReregisterAlarmEvents\<close>.

  The loop walks the multimap while the callbacks it calls insert and erase entries. Under the
  contract \<open>alarm_callbacks\<close> the iterator it holds stays valid. If a callback registers alarms that are
  already due only for this very moment, and only alarms of a lower rank than its own, the loop ends, and
  what is left and due are only alarms whose \<open>OnAlarm\<close> asked, by its return value, to be called again at once.
\<close>

lemma mult_lex_induct:
  fixes f :: "'a \<Rightarrow> nat multiset" and g :: "'a \<Rightarrow> nat"
  assumes "\<And>x. (\<And>y. (f y, f x) \<in> mult less_than \<or> f y = f x \<and> g y < g x \<Longrightarrow> P y) \<Longrightarrow> P x"
  shows "P x"
proof -
  have "wf (inv_image (mult less_than <*lex*> less_than) (\<lambda>x. (f x, g x)))" by (intro wf_inv_image wf_lex_prod wf_mult wf_less_than)
  then show ?thesis by (induction x) (auto intro: assms)
qed

section \<open>Iterators\<close>

lemma split_facts:
  assumes "keys_distinct (xs @ (k, v) # ys)"
  shows "map_of (xs @ (k, v) # ys) k = Some v" "next_iter k (xs @ (k, v) # ys) = begin_iter ys"
    "AList.delete k (xs @ (k, v) # ys) = xs @ ys"
proof -
  have d: "k \<notin> fst ` set xs" "k \<notin> fst ` set ys" using assms by (auto simp: keys_distinct_def)
  then show "map_of (xs @ (k, v) # ys) k = Some v"
    by (induction xs) auto
  show "AList.delete k (xs @ (k, v) # ys) = xs @ ys"
    using d by (simp add: delete_append delete_absent map_of_eq_None_iff)
  show "next_iter k (xs @ (k, v) # ys) = begin_iter ys"
    using d(1) by (induction xs) (auto simp: begin_iter_def)
qed

lemma multimap_insert_split:
  "(\<exists>xs'. multimap_insert k t al (xs @ e # ys) = xs' @ e # ys \<and> set xs' = insert (k, t, al) (set xs)) \<or>
   (\<exists>ys'. multimap_insert k t al (xs @ e # ys) = xs @ e # ys' \<and> set ys' = insert (k, t, al) (set ys))"
proof (induction xs)
  case Nil
  obtain j u b where e: "e = (j, u, b)" by (cases e)
  show ?case
  proof (cases "u \<le> t")
    case True
    with e show ?thesis by (intro disjI2 exI [of _ "multimap_insert k t al ys"]) simp
  next
    case False
    with e show ?thesis by (intro disjI1 exI [of _ "[(k, t, al)]"]) simp
  qed
next
  case (Cons x xs)
  obtain j u b where x: "x = (j, u, b)" by (cases x)
  show ?case
  proof (cases "u \<le> t")
    case True
    from Cons show ?thesis
    proof (elim disjE exE conjE)
      fix xs' assume "multimap_insert k t al (xs @ e # ys) = xs' @ e # ys" "set xs' = insert (k, t, al) (set xs)"
      with True x show ?thesis by (intro disjI1 exI [of _ "x # xs'"]) auto
    next
      fix ys' assume "multimap_insert k t al (xs @ e # ys) = xs @ e # ys'" "set ys' = insert (k, t, al) (set ys)"
      with True x show ?thesis by (intro disjI2 exI [of _ ys']) auto
    qed
  next
    case False
    with x show ?thesis by (intro disjI1 exI [of _ "(k, t, al) # x # xs"]) simp
  qed
qed

section \<open>Due entries\<close>

definition due :: "int \<Rightarrow> 'al set \<Rightarrow> nat \<times> int \<times> 'al \<Rightarrow> bool" where
  "due now skip e \<longleftrightarrow> alarm_time e \<le> now \<and> snd (snd e) \<notin> skip"

text \<open>Position of the loop: nothing due is left behind the iterator.\<close>

definition pos_ok :: "int \<Rightarrow> 'al set \<Rightarrow> nat option \<Rightarrow> (nat \<times> int \<times> 'al) list \<Rightarrow> bool" where
  "pos_ok now skip i M \<longleftrightarrow>
     (case i of
        None \<Rightarrow> \<forall>e \<in> set M. \<not> due now skip e
      | Some k \<Rightarrow> \<exists>xs v ys. M = xs @ (k, v) # ys \<and> (\<forall>e \<in> set xs. \<not> due now skip e))"

lemma pos_okI:
  "M = xs @ (k, v) # ys \<Longrightarrow> \<forall>e \<in> set xs. \<not> due now skip e \<Longrightarrow> pos_ok now skip (Some k) M"
  unfolding pos_ok_def option.case by blast

lemma pos_okE:
  assumes "pos_ok now skip (Some k) M"
  obtains xs v ys where "M = xs @ (k, v) # ys" "\<forall>e \<in> set xs. \<not> due now skip e"
  using assms unfolding pos_ok_def by auto

definition iter_rank :: "nat option \<Rightarrow> (nat \<times> 'v) list \<Rightarrow> nat" where
  "iter_rank i M = (case i of None \<Rightarrow> 0 | Some k \<Rightarrow> length (dropWhile (\<lambda>e. fst e \<noteq> k) M))"

lemma iter_rank_split: "keys_distinct (xs @ (k, v) # ys) \<Longrightarrow> iter_rank (Some k) (xs @ (k, v) # ys) = Suc (length ys)"
  by (induction xs) (auto simp: iter_rank_def keys_distinct_def)

lemma iter_rank_next:
  assumes "keys_distinct (xs @ e # ys)"
  shows "iter_rank (begin_iter ys) (xs @ e # ys) = length ys"
proof (cases ys)
  case (Cons e' ys')
  obtain k' v' where e': "e' = (k', v')" by (cases e')
  show ?thesis
    using iter_rank_split [of "xs @ [e]" k' v' ys'] assms Cons e' by (simp add: begin_iter_def)
qed (simp add: begin_iter_def iter_rank_def)

lemma pos_ok_begin: "pos_ok now skip (begin_iter M) M"
  by (cases M) (fastforce simp: pos_ok_def begin_iter_def)+

lemma pos_ok_next:
  assumes "\<forall>e \<in> set xs. \<not> due now skip e"
  shows "pos_ok now skip (begin_iter ys) (xs @ ys)"
  using assms by (cases ys) (fastforce simp: pos_ok_def begin_iter_def)+

lemma pos_ok_insert:
  assumes "pos_ok now skip i M" and "\<not> due now skip (k, t, al)"
  shows "pos_ok now skip i (multimap_insert k t al M)"
proof (cases i)
  case None
  with assms show ?thesis by (simp add: pos_ok_def)
next
  case (Some j)
  with assms(1) obtain xs v ys where M: "M = xs @ (j, v) # ys" "\<forall>e \<in> set xs. \<not> due now skip e"
    by (auto elim: pos_okE)
  from multimap_insert_split [of k t al xs "(j, v)" ys] show ?thesis
  proof (elim disjE exE conjE)
    fix xs' assume "multimap_insert k t al (xs @ (j, v) # ys) = xs' @ (j, v) # ys"
      "set xs' = insert (k, t, al) (set xs)"
    with M assms(2) Some show ?thesis using pos_okI [of _ xs' j v ys now skip] by simp
  next
    fix ys' assume "multimap_insert k t al (xs @ (j, v) # ys) = xs @ (j, v) # ys'"
    with M Some show ?thesis using pos_okI [of _ xs j v ys' now skip] by simp
  qed
qed

lemma pos_ok_skip: "pos_ok now skip i M \<Longrightarrow> pos_ok now (insert a skip) i M"
  by (cases i) (auto simp: pos_ok_def due_def)

text \<open>Order decides positions, so a callback that adds nothing due behind the iterator keeps the position.\<close>

lemma pos_ok_callback:
  assumes M: "M = xs @ (k, v) # ys" "\<forall>e \<in> set xs. \<not> due now skip e" and s: "sorted_wrt alarm_less M"
    and M': "M' = xs' @ (k, v) # ys'" and s': "sorted_wrt alarm_less M'"
    and new: "\<And>e. e \<in> set M' \<Longrightarrow> alarm_time e \<le> now \<Longrightarrow> e \<in> set M \<or> alarm_less (k, v) e"
  shows "\<forall>e \<in> set xs'. \<not> due now skip e"
proof
  fix e assume e: "e \<in> set xs'"
  show "\<not> due now skip e"
  proof
    assume d: "due now skip e"
    have "alarm_less e (k, v)" using s' M' e by (simp add: sorted_wrt_append)
    then have less: "\<not> alarm_less (k, v) e" "e \<noteq> (k, v)" by (auto simp: alarm_less_def)
    with new [of e] e M' d have "e \<in> set M" by (simp add: due_def)
    with less have "e \<in> set xs" using s M(1) by (auto simp: sorted_wrt_append)
    with M(2) d show False by blast
  qed
qed

section \<open>One turn\<close>

definition told :: "'al \<Rightarrow> ('cb, 'al, 'w) es \<Rightarrow> ('cb, 'al, 'w) es" where
  "told al s = snd (EpollAlarm_OnAlarm al (s\<lparr>all_alarms := all_alarms s - {al}\<rparr>))"

lemma told_frame:
  "alarm_map (told al s) = alarm_map s" "loop_side (told al s) = loop_side s" "evolves s (told al s)"
  by (auto simp: told_def EpollAlarm_OnAlarm_def upd_alarm_def loop_side_def fd_frame intro!: evolves_same_fd)

lemma told_ok:
  assumes "server_ok None s" "map_of (alarm_map s) k = Some (t, al)"
  shows "server_ok (Some k) (told al s)"
proof -
  have "es_inv (told al s)" using evolves_inv [OF told_frame(3) [of s al]] assms(1) by (simp add: server_ok_def)
  moreover have "alarm_wf (Some k) (told al s)"
    using alarm_ok_fire [OF _ assms(2)] assms(1)
    by (auto simp: server_ok_def alarm_wf_def told_def EpollAlarm_OnAlarm_def upd_alarm_def)
  ultimately show ?thesis using assms(2) by (simp add: server_ok_def told_frame)
qed

definition idle :: "('cb, 'al, 'w) es \<Rightarrow> bool" where
  "idle s \<longleftrightarrow> tmp_first s = None \<and> busy s = {}"

lemma idle_evolves: "idle s \<Longrightarrow> es_inv s \<Longrightarrow> evolves s s' \<Longrightarrow> idle s'"
proof -
  assume i: "idle s" and e: "evolves s s'" and "es_inv s"
  then obtain rs ts where w: "es_wf s rs ts" by (auto simp: es_inv_def)
  with lists_tmp_first [OF es_wfD(1) [OF w]] i have "ts = []" by (auto simp: idle_def split: list.splits)
  with e w obtain rs' where w': "es_wf s' rs' []" unfolding evolves_def by fastforce
  have "tmp_first s' = None" using lists_tmp_first [OF es_wfD(1) [OF w']] by simp
  then show ?thesis using e i w unfolding idle_def evolves_def es_inv_def by blast
qed

abbreviation skipped :: "('cb, 'al, 'w) es \<Rightarrow> 'al set" where
  "skipped s \<equiv> alarms_reregistered_and_should_be_skipped s"

definition due_set :: "int \<Rightarrow> ('cb, 'al, 'w) es \<Rightarrow> (nat \<times> int \<times> 'al) set" where
  "due_set now s = {e \<in> set (alarm_map s). due now (skipped s) e}"

definition other_side :: "('cb, 'al, 'w) es \<Rightarrow> int \<times> bool \<times> bool" where
  "other_side s = (recorded_now_in_us s, in_wait_for_events_and_execute_callbacks s, in_shutdown s)"

text \<open>The state between two turns, relative to the state \<open>s\<close> of an earlier one.\<close>

definition turn_ok ::
  "int \<Rightarrow> ('cb, 'al, 'w) es \<Rightarrow> nat option \<Rightarrow> ('cb, 'al, 'w) es \<Rightarrow> bool" where
  "turn_ok now s i s' \<longleftrightarrow>
     server_ok None s' \<and> evolves s s' \<and> other_side s' = other_side s \<and>
     pos_ok now (skipped s') i (alarm_map s') \<and> due_set now s' \<subseteq> due_set now s"

lemma turn_ok_erase:
  assumes ok: "server_ok (Some k) s" and i: "alarm_map s = xs @ (k, v) # ys" "\<forall>e \<in> set xs. \<not> due now (skipped s) e"
  shows "turn_ok now s (begin_iter ys) (s\<lparr>alarm_map := AList.delete k (alarm_map s)\<rparr>)"
proof -
  from ok have w: "alarm_ok (Some k) (alarm_map s) (all_alarms s) (alarm_objs s) (next_token s)"
    by (simp add: server_ok_def alarm_wf_def)
  have d: "keys_distinct (alarm_map s)" by (rule alarm_okD(2) [OF w])
  then have "AList.delete k (alarm_map s) = xs @ ys" unfolding i(1) by (rule split_facts)
  with i have "pos_ok now (skipped s) (begin_iter ys) (AList.delete k (alarm_map s))"
    "set (AList.delete k (alarm_map s)) \<subseteq> set (alarm_map s)"
    by (auto simp: pos_ok_next)
  then show ?thesis
    using alarm_ok_fired [OF w] ok
    by (auto simp: turn_ok_def server_ok_def alarm_wf_def es_inv_alarm_fields fd_frame other_side_def
        due_set_def intro!: evolves_same_fd)
qed

lemma turn_ok_skip:
  assumes "turn_ok now s i s'"
  shows "turn_ok now s i (s'\<lparr>alarms_reregistered_and_should_be_skipped := insert a (skipped s')\<rparr>)"
proof -
  let ?t = "s'\<lparr>alarms_reregistered_and_should_be_skipped := insert a (skipped s')\<rparr>"
  have "evolves s' ?t" by (auto simp: fd_frame intro!: evolves_same_fd)
  with assms have "evolves s ?t" unfolding turn_ok_def using evolves_trans by blast
  moreover have "due_set now ?t \<subseteq> due_set now s'" by (auto simp: due_set_def due_def)
  ultimately show ?thesis using assms pos_ok_skip [of now "skipped s'" i "alarm_map s'" a]
    by (auto simp: turn_ok_def server_ok_def es_inv_alarm_fields alarm_wf_def other_side_def)
qed

lemma RegisterAlarm_fields:
  assumes "RegisterAlarm t (Some al) s = Inr s'"
  shows "alarm_map s' = multimap_insert (next_token s) t al (alarm_map s)" "skipped s' = skipped s"
    "other_side s' = other_side s"
  using assms
  by (auto simp: RegisterAlarm_def Let_def EpollAlarm_OnRegistration_def upd_alarm_def other_side_def
      split: if_splits)

lemma turn_ok_register:
  assumes t: "turn_ok now s i s'" and r: "RegisterAlarm t (Some al) s' = Inr s''"
    and d: "\<not> due now (skipped s') (next_token s', t, al)"
  shows "turn_ok now s i s''"
proof -
  note F = RegisterAlarm_fields [OF r]
  from t have ok: "server_ok None s'" by (simp add: turn_ok_def)
  have "alarm_wf None s''" using RegisterAlarm_wf [OF _ r, of None] ok by (simp add: server_ok_def)
  moreover have e: "evolves s' s''" by (rule RegisterAlarm_evolves(1) [OF r])
  moreover have "es_inv s''" using evolves_inv [OF e] ok by (simp add: server_ok_def)
  moreover have "due_set now s'' = due_set now s'" using d F by (auto simp: due_set_def)
  ultimately show ?thesis using t pos_ok_insert [OF _ d] F evolves_trans [OF _ e]
    by (simp add: turn_ok_def server_ok_def)
qed

lemma end_OnAlarm_ok:
  assumes ok: "server_ok (Some k) s" and M: "alarm_map s = xs @ (k, v) # ys"
    "\<forall>e \<in> set xs. \<not> due now (skipped s) e"
  shows "case end_OnAlarm now k al t' s of Inl e \<Rightarrow> benign e
    | Inr (i, s') \<Rightarrow> turn_ok now s i s' \<and> (k, v) \<notin> due_set now s'"
proof -
  let ?s = "s\<lparr>alarm_map := AList.delete k (alarm_map s)\<rparr>"
  let ?t = "?s\<lparr>alarms_reregistered_and_should_be_skipped := insert al (skipped ?s)\<rparr>"
  let ?u = "if t' \<le> now then ?t else ?s"
  from ok have w: "alarm_ok (Some k) (alarm_map s) (all_alarms s) (alarm_objs s) (next_token s)"
    by (simp add: server_ok_def alarm_wf_def)
  have d: "keys_distinct (alarm_map s)" by (rule alarm_okD(2) [OF w])
  note S = split_facts [OF d [unfolded M(1)], folded M(1)]
  note k = S(1) and n = S(2)
  have s: "turn_ok now s (begin_iter ys) ?s" by (rule turn_ok_erase [OF ok M])
  have u: "turn_ok now s (begin_iter ys) ?u" using turn_ok_skip [OF s] s by auto
  have gone: "(k, v) \<notin> set (AList.delete k (alarm_map s))" by (auto simp: AList.delete_eq)
  have old: "k \<noteq> next_token s" using alarm_okD(3) [OF w k] by simp
  show ?thesis
  proof (cases "t' > 0")
    case False
    with k n s gone show ?thesis by (simp add: end_OnAlarm_def due_set_def)
  next
    case True
    have eq: "end_OnAlarm now k al t' s = rbind (RegisterAlarm t' (Some al) ?u) (\<lambda>s. Inr (begin_iter ys, s))"
      using True k n by (simp add: end_OnAlarm_def Let_def)
    show ?thesis
    proof (cases "RegisterAlarm t' (Some al) ?u")
      case (Inl e)
      then have "benign e" by (auto simp: RegisterAlarm_def Let_def split: if_splits)
      with Inl eq show ?thesis by simp
    next
      case (Inr s'')
      have "\<not> due now (skipped ?u) (next_token ?u, t', al)" by (simp add: due_def alarm_time_def)
      from turn_ok_register [OF u Inr this] have "turn_ok now s (begin_iter ys) s''" .
      moreover have "(k, v) \<notin> due_set now s''"
        using RegisterAlarm_fields(1) [OF Inr] gone old by (auto simp: due_set_def)
      ultimately show ?thesis using Inr eq by simp
    qed
  qed
qed

section \<open>The loop under the callback contract\<close>

text \<open>
  Each alarm has a rank, which depends on the world: an alarm for work that is done in portions has the
  work left for its rank. What a callback adds to the entries that are due is registered for this moment, and
  ranks lower than the alarm that fires did; entries that were due may rise in rank only up to there. With
  all ranks equal: it adds nothing due.
\<close>

definition lower_entry ::
  "('w \<Rightarrow> 'al \<Rightarrow> nat) \<Rightarrow> 'al \<Rightarrow> ('cb, 'al, 'w) es \<Rightarrow> ('cb, 'al, 'w) es \<Rightarrow> nat \<times> int \<times> 'al \<Rightarrow> bool" where
  "lower_entry rank al s s' e \<longleftrightarrow>
     e \<in> set (alarm_map s) \<and> rank (env s') (snd (snd e)) \<le> rank (env s) (snd (snd e)) \<or>
     (e \<in> set (alarm_map s) \<or> alarm_time e = recorded_now_in_us s \<and> next_token s \<le> fst e) \<and>
       rank (env s') (snd (snd e)) < rank (env s) al"

definition adds_lower :: "(('cb, 'al, 'w) es \<Rightarrow> bool) \<Rightarrow> ('w \<Rightarrow> 'al \<Rightarrow> nat) \<Rightarrow> ('cb, 'al, 'w) alarm_fn \<Rightarrow> bool" where
  "adds_lower J rank on_alarm \<longleftrightarrow>
     (\<forall>al s k t t' s' e. server_ok None s \<longrightarrow> J s \<longrightarrow> map_of (alarm_map s) k = Some (t, al) \<longrightarrow>
        on_alarm al (s\<lparr>all_alarms := all_alarms s - {al}\<rparr>) = Some (Inr (t', s')) \<longrightarrow>
        e \<in> set (alarm_map s') \<longrightarrow> alarm_time e \<le> recorded_now_in_us s \<longrightarrow> fst e \<noteq> k \<longrightarrow> lower_entry rank al s s' e)"

definition adds_nothing_due :: "('cb, 'al, 'w) alarm_fn \<Rightarrow> bool" where
  "adds_nothing_due on_alarm \<longleftrightarrow>
     (\<forall>al s t' s'. on_alarm al s = Some (Inr (t', s')) \<longrightarrow>
        (\<forall>e \<in> set (alarm_map s'). alarm_time e \<le> recorded_now_in_us s \<longrightarrow> e \<in> set (alarm_map s)))"

lemma adds_nothing_due_lower:
  fixes on_alarm :: "('cb, 'al, 'w) alarm_fn"
  assumes "adds_nothing_due on_alarm"
  shows "adds_lower J (\<lambda>_ _. 0) on_alarm"
  unfolding adds_lower_def
proof (intro allI impI)
  fix al and s s' :: "('cb, 'al, 'w) es" and t' e
  assume "on_alarm al (s\<lparr>all_alarms := all_alarms s - {al}\<rparr>) = Some (Inr (t', s'))"
    "e \<in> set (alarm_map s')" "alarm_time e \<le> recorded_now_in_us s"
  with assms have "e \<in> set (alarm_map s)" unfolding adds_nothing_due_def by fastforce
  then show "lower_entry (\<lambda>_ _. 0) al s s' e" by (simp add: lower_entry_def)
qed

definition alarms_done :: "int \<Rightarrow> ('cb, 'al, 'w) es \<Rightarrow> ('cb, 'al, 'w) es \<Rightarrow> bool" where
  "alarms_done now s s' \<longleftrightarrow>
     server_ok None s' \<and> evolves s s' \<and> other_side s' = other_side s \<and> due_set now s' = {}"

lemma turn_ok_refl:
  assumes "server_ok None s" "pos_ok now (skipped s) i (alarm_map s)"
  shows "turn_ok now s i s"
  using assms by (simp add: turn_ok_def)

lemma alarms_done_stop:
  assumes ok: "server_ok None s" and M: "alarm_map s = xs @ (k, t, al) # ys" and t: "now < t"
    and p: "\<forall>e \<in> set xs. \<not> due now (skipped s) e"
  shows "alarms_done now s s"
proof -
  have "sorted_wrt alarm_less (alarm_map s)"
    using ok alarm_okD(1) unfolding server_ok_def alarm_wf_def by blast
  with M have "\<forall>e \<in> set ys. alarm_less (k, t, al) e" by (simp add: sorted_wrt_append)
  with t have "\<forall>e \<in> set ((k, t, al) # ys). \<not> alarm_time e \<le> now"
    by (auto simp: alarm_less_def alarm_time_def)
  with p M have "due_set now s = {}" by (auto simp: due_set_def due_def)
  with ok show ?thesis by (simp add: alarms_done_def)
qed

lemma alarms_done_trans:
  "evolves s t \<Longrightarrow> other_side t = other_side s \<Longrightarrow> alarms_done now t u \<Longrightarrow> alarms_done now s u"
  by (auto simp: alarms_done_def intro: evolves_trans)

lemma due_set_finite [simp]: "finite (due_set now s)"
  by (simp add: due_set_def)

text \<open>The ranks of the entries that are due.\<close>

definition due_ranks :: "('w \<Rightarrow> 'al \<Rightarrow> nat) \<Rightarrow> int \<Rightarrow> ('cb, 'al, 'w) es \<Rightarrow> nat multiset" where
  "due_ranks rank now s = image_mset (\<lambda>e. rank (env s) (snd (snd e))) (mset_set (due_set now s))"

lemma due_ranks_step:
  fixes s s' :: "('cb, 'al, 'w) es"
  assumes x: "x \<in> due_set now s" "x \<notin> due_set now s'"
    and low: "\<And>e. e \<in> due_set now s' \<Longrightarrow>
      e \<in> due_set now s \<and> rank (env s') (snd (snd e)) \<le> rank (env s) (snd (snd e)) \<or>
      rank (env s') (snd (snd e)) < rank (env s) (snd (snd x))"
  shows "(due_ranks rank now s', due_ranks rank now s) \<in> mult less_than"
proof -
  let ?f = "\<lambda>e. rank (env s) (snd (snd e))" and ?g = "\<lambda>e. rank (env s') (snd (snd e))"
  let ?same = "{e \<in> due_set now s' \<inter> due_set now s. ?g e = ?f e}"
  let ?new = "due_set now s' - ?same" and ?gone = "due_set now s - ?same"
  have split: "image_mset h (mset_set A) = image_mset h (mset_set B) + image_mset h (mset_set (A - B))"
    if "finite A" "B \<subseteq> A" for h :: "nat \<times> int \<times> 'al \<Rightarrow> nat" and A B
    using mset_set_Union [of B "A - B"] that by (simp add: finite_subset Un_absorb1)
  have "due_ranks rank now s' = image_mset ?f (mset_set ?same) + image_mset ?g (mset_set ?new)"
    unfolding due_ranks_def using split [of "due_set now s'" ?same ?g] by (simp add: subset_iff) (rule image_mset_cong, simp)
  moreover have "due_ranks rank now s = image_mset ?f (mset_set ?same) + image_mset ?f (mset_set ?gone)"
    unfolding due_ranks_def by (rule split) auto
  moreover have "\<exists>j \<in> set_mset (image_mset ?f (mset_set ?gone)). (k, j) \<in> less_than"
    if "k \<in> set_mset (image_mset ?g (mset_set ?new))" for k
  proof -
    from that obtain e where e: "k = ?g e" "e \<in> due_set now s'" "e \<notin> ?same" by auto
    with low [OF e(2)] consider "e \<in> ?gone" "?g e < ?f e" | "?g e < ?f x" by force
    then show ?thesis using e(1) x by cases auto
  qed
  moreover have "image_mset ?f (mset_set ?gone) \<noteq> {#}" using x by (auto simp: mset_set_empty_iff)
  ultimately show ?thesis by (simp add: one_step_implies_mult)
qed

lemma end_OnAlarm_alarms:
  assumes "end_OnAlarm now k al t' s = Inr (i, s')"
  shows "all_alarms s' \<subseteq> (if 0 < t' then insert al (all_alarms s) else all_alarms s)"
  using assms
  by (auto simp: end_OnAlarm_def Let_def rbind_eq_Inr RegisterAlarm_def EpollAlarm_OnRegistration_def upd_alarm_def
      split: if_splits)

text \<open>
  \<open>OnAlarm\<close> is called when the alarm is no longer registered; if it asks to be called again the loop
  registers it once more, which the invariant must allow.
\<close>

locale alarm_callbacks = loop_invariant J
  for J :: "('cb, 'al, 'w) es \<Rightarrow> bool" +
  fixes on_alarm :: "('cb, 'al, 'w) alarm_fn"
  assumes on_alarm_ok:
    "server_ok None s \<Longrightarrow> J s \<Longrightarrow> map_of (alarm_map s) k = Some (t, al) \<Longrightarrow>
     returns_ok (\<lambda>(t', s'). call_ok (Some k) (told al s) s' \<and> J s' \<and> (0 < t' \<longrightarrow> J (s'\<lparr>all_alarms := insert al (all_alarms s')\<rparr>)))
       (on_alarm al (s\<lparr>all_alarms := all_alarms s - {al}\<rparr>))"
begin

lemma fire_ok:
  assumes ok: "server_ok None s" and M: "alarm_map s = xs @ (k, t, al) # ys"
    and p: "\<forall>e \<in> set xs. \<not> due now (skipped s) e" and t: "t \<le> now" "al \<notin> skipped s"
    and f: "adds_lower J rank on_alarm" "recorded_now_in_us s = now" and J: "J s"
    and r: "on_alarm al (s\<lparr>all_alarms := all_alarms s - {al}\<rparr>) = Some (Inr (t', s1))"
    and c: "call_ok (Some k) (told al s) s1" and J1: "J s1" "0 < t' \<Longrightarrow> J (s1\<lparr>all_alarms := insert al (all_alarms s1)\<rparr>)"
  shows "case end_OnAlarm now k al t' s1 of Inl e \<Rightarrow> benign e
    | Inr (i, s2) \<Rightarrow> server_ok None s2 \<and> evolves s s2 \<and> other_side s2 = other_side s \<and>
        pos_ok now (skipped s2) i (alarm_map s2) \<and> J s2 \<and>
        (due_ranks rank now s2, due_ranks rank now s) \<in> mult less_than"
proof -
  have w: "alarm_ok None (alarm_map s) (all_alarms s) (alarm_objs s) (next_token s)"
    using ok by (simp add: server_ok_def alarm_wf_def)
  have k: "map_of (alarm_map s) k = Some (t, al)"
    using split_facts(1) [of xs k "(t, al)" ys] alarm_okD(2) [OF w] M by simp
  from c have ok1: "server_ok (Some k) s1" and e1: "evolves (told al s) s1"
    and l1: "loop_side s1 = loop_side (told al s)" and k1: "map_of (alarm_map s1) k = Some (t, al)"
    using k by (simp_all add: call_ok_def told_frame)
  have w1: "alarm_ok (Some k) (alarm_map s1) (all_alarms s1) (alarm_objs s1) (next_token s1)"
    using ok1 by (simp add: server_ok_def alarm_wf_def)
  have new: "lower_entry rank al s s1 e" if "e \<in> set (alarm_map s1)" "alarm_time e \<le> now" "e \<noteq> (k, t, al)" for e
  proof -
    have "fst e \<noteq> k"
    proof
      assume "fst e = k"
      with that(1) have "map_of (alarm_map s1) k = Some (snd e)"
        using alarm_okD(2) [OF w1] by (auto simp: keys_distinct_def intro!: map_of_is_SomeI)
      with k1 \<open>fst e = k\<close> that(3) show False by (cases e) simp
    qed
    then show ?thesis using f(1) [unfolded adds_lower_def, rule_format, OF ok J k r that(1)] that(2) f(2) by simp
  qed
  have "k < next_token s" by (rule alarm_okD(3) [OF w k])
  then have behind: "e \<in> set (alarm_map s) \<or> alarm_less (k, t, al) e"
    if "e \<in> set (alarm_map s1)" "alarm_time e \<le> now" for e
    using new [OF that] t(1) f(2) M by (cases "e = (k, t, al)") (auto simp: lower_entry_def alarm_less_def alarm_time_def)
  have sk: "skipped s1 = skipped s" "other_side s1 = other_side s"
    using l1 told_frame(2) [of al s] by (simp_all add: loop_side_def other_side_def)
  obtain xs1 ys1 where M1: "alarm_map s1 = xs1 @ (k, t, al) # ys1"
    using map_of_SomeD [OF k1] by (meson split_list)
  have p1: "\<forall>e \<in> set xs1. \<not> due now (skipped s1) e"
    using pos_ok_callback [OF M p alarm_okD(1) [OF w] M1 alarm_okD(1) [OF w1] behind] sk by simp
  have "evolves s s1" by (rule evolves_trans [OF told_frame(3) e1])
  moreover have "e \<in> due_set now s \<and> rank (env s1) (snd (snd e)) \<le> rank (env s) (snd (snd e)) \<or>
      rank (env s1) (snd (snd e)) < rank (env s) al" if "e \<in> due_set now s1" "e \<noteq> (k, t, al)" for e
    using new [of e] that sk by (auto simp: due_set_def due_def lower_entry_def)
  moreover have "(k, t, al) \<in> due_set now s" using M t by (simp add: due_set_def due_def alarm_time_def)
  ultimately have D: "evolves s s1" "(k, t, al) \<in> due_set now s"
    "\<And>e. e \<in> due_set now s1 \<Longrightarrow> e \<noteq> (k, t, al) \<Longrightarrow>
      e \<in> due_set now s \<and> rank (env s1) (snd (snd e)) \<le> rank (env s) (snd (snd e)) \<or>
      rank (env s1) (snd (snd e)) < rank (env s) al" by blast+
  show ?thesis
  proof (cases "end_OnAlarm now k al t' s1")
    case (Inr p)
    obtain i s2 where p: "p = (i, s2)" by (cases p)
    with end_OnAlarm_ok [OF ok1 M1 p1, of al t'] Inr
    have t2: "turn_ok now s1 i s2" "(k, t, al) \<notin> due_set now s2" by simp_all
    have eo: "end_OnAlarm now k al t' s1 = Inr (i, s2)" using Inr p by simp
    have e2: "env s2 = env s1" "all_alarms s2 \<subseteq> (if 0 < t' then insert al (all_alarms s1) else all_alarms s1)"
      using env_end_OnAlarm [OF eo] end_OnAlarm_alarms [OF eo] by blast+
    have "(due_ranks rank now s2, due_ranks rank now s) \<in> mult less_than"
    proof (rule due_ranks_step [OF D(2) t2(2)])
      fix e assume "e \<in> due_set now s2"
      moreover from this have "e \<in> due_set now s1" using t2(1) by (auto simp: turn_ok_def)
      moreover have "e \<noteq> (k, t, al)" using calculation(1) t2(2) by blast
      ultimately show "e \<in> due_set now s \<and> rank (env s2) (snd (snd e)) \<le> rank (env s) (snd (snd e)) \<or>
          rank (env s2) (snd (snd e)) < rank (env s) (snd (snd (k, t, al)))" using D(3) [of e] e2(1) by simp
    qed
    moreover
    have "J s2"
    proof (cases "0 < t'")
      case True
      with e2 show ?thesis by (intro J_frame [OF J1(2) [OF True]]) simp_all
    next
      case False
      with e2 show ?thesis by (intro J_frame [OF J1(1)]) simp_all
    qed
    ultimately show ?thesis using t2 Inr p sk(2) evolves_trans [OF D(1)] by (simp add: turn_ok_def)
  qed (use end_OnAlarm_ok [OF ok1 M1 p1, of al t'] in simp)
qed

lemma alarm_fire_turn:
  assumes ok: "server_ok None s" and M: "alarm_map s = xs @ (k, t, al) # ys"
    and p: "\<forall>e \<in> set xs. \<not> due now (skipped s) e" and t: "t \<le> now" "al \<notin> skipped s"
    and f: "adds_lower J rank on_alarm" "recorded_now_in_us s = now" and k: "map_of (alarm_map s) k = Some (t, al)" and J: "J s"
    and IH: "\<And>i' s'. server_ok None s' \<Longrightarrow> recorded_now_in_us s' = now \<Longrightarrow> pos_ok now (skipped s') i' (alarm_map s') \<Longrightarrow>
      J s' \<Longrightarrow> (due_ranks rank now s', due_ranks rank now s) \<in> mult less_than \<Longrightarrow>
      returns_ok (\<lambda>u. alarms_done now s' u \<and> J u) (alarm_loop on_alarm now i' s')"
  shows "returns_ok (\<lambda>u. alarms_done now s u \<and> J u) (alarm_loop on_alarm now (Some k) s)"
proof -
  let ?r = "on_alarm al (s\<lparr>all_alarms := all_alarms s - {al}\<rparr>)"
  have step: "alarm_loop on_alarm now (Some k) s = Option.bind ?r (\<lambda>r. case r of Inl e \<Rightarrow> Some (Inl e)
      | Inr (t', s) \<Rightarrow> (case end_OnAlarm now k al t' s of Inl e \<Rightarrow> Some (Inl e)
                       | Inr (i, s) \<Rightarrow> alarm_loop on_alarm now i s))"
    using k t by (simp add: alarm_loop.simps [of _ _ "Some k"])
  from on_alarm_ok [OF ok J k] show ?thesis
  proof (cases rule: returns_okE)
    case (abort e)
    then show ?thesis by (simp add: step)
  next
    case (result y)
    then obtain t' s1 where y: "?r = Some (Inr (t', s1))" "call_ok (Some k) (told al s) s1" "J s1"
      "0 < t' \<Longrightarrow> J (s1\<lparr>all_alarms := insert al (all_alarms s1)\<rparr>)" by (cases y) auto
    note fo = fire_ok [OF ok M p t f J y]
    show ?thesis
    proof (cases "end_OnAlarm now k al t' s1")
      case (Inl e)
      with fo y(1) show ?thesis by (simp add: step)
    next
      case (Inr q)
      obtain i2 s2 where q: "q = (i2, s2)" by (cases q)
      with fo Inr have s2: "server_ok None s2" "evolves s s2" "other_side s2 = other_side s"
        "pos_ok now (skipped s2) i2 (alarm_map s2)" "J s2" "(due_ranks rank now s2, due_ranks rank now s) \<in> mult less_than"
        by simp_all
      have now: "recorded_now_in_us s2 = now" using s2(3) f(2) by (simp add: other_side_def)
      from IH [OF s2(1) now s2(4,5,6)] alarms_done_trans [OF s2(2,3)] y(1) Inr q
      show ?thesis by (auto simp: step elim: returns_ok_mono)
    qed
  qed
qed

lemma alarm_turn:
  assumes ok: "server_ok None s" and pos: "pos_ok now (skipped s) i (alarm_map s)"
    and f: "adds_lower J rank on_alarm" "recorded_now_in_us s = now" and J: "J s"
    and IH: "\<And>i' s'. server_ok None s' \<Longrightarrow> recorded_now_in_us s' = now \<Longrightarrow> pos_ok now (skipped s') i' (alarm_map s') \<Longrightarrow>
      J s' \<Longrightarrow> (due_ranks rank now s', due_ranks rank now s) \<in> mult less_than \<or>
        s' = s \<and> iter_rank i' (alarm_map s) < iter_rank i (alarm_map s) \<Longrightarrow>
      returns_ok (\<lambda>u. alarms_done now s' u \<and> J u) (alarm_loop on_alarm now i' s')"
  shows "returns_ok (\<lambda>u. alarms_done now s u \<and> J u) (alarm_loop on_alarm now i s)"
proof (cases i)
  case None
  with pos ok J show ?thesis
    by (simp add: alarm_loop.simps alarms_done_def pos_ok_def due_set_def)
next
  case (Some k)
  obtain xs v ys where "alarm_map s = xs @ (k, v) # ys" "\<forall>e \<in> set xs. \<not> due now (skipped s) e"
    by (rule pos_okE [OF pos [unfolded Some]])
  moreover obtain t al where "v = (t, al)" by (cases v)
  ultimately have M: "alarm_map s = xs @ (k, t, al) # ys" "\<forall>e \<in> set xs. \<not> due now (skipped s) e"
    by simp_all
  have d: "keys_distinct (xs @ (k, t, al) # ys)"
    using ok alarm_okD(2) M(1) unfolding server_ok_def alarm_wf_def by metis
  note S = split_facts [OF d, folded M(1)]
  consider (stop) "now < t" | (skip) "t \<le> now" "al \<in> skipped s" | (fire) "t \<le> now" "al \<notin> skipped s"
    by linarith
  then show ?thesis
  proof cases
    case stop
    with alarms_done_stop [OF ok M(1) _ M(2)] S(1) Some J show ?thesis by (simp add: alarm_loop.simps)
  next
    case skip
    have "\<not> due now (skipped s) (k, t, al)" using skip by (simp add: due_def)
    then have "pos_ok now (skipped s) (begin_iter ys) (alarm_map s)"
      using pos_ok_next [of "xs @ [(k, t, al)]" now "skipped s" ys] M by auto
    moreover have "iter_rank (begin_iter ys) (alarm_map s) < iter_rank i (alarm_map s)"
      using iter_rank_next [OF d] iter_rank_split [OF d] M(1) Some by simp
    ultimately show ?thesis
      using IH [OF ok f(2), of "begin_iter ys"] S(1,2) skip Some J by (simp add: alarm_loop.simps [of _ _ "Some k"])
  next
    case fire
    show ?thesis unfolding Some by (rule alarm_fire_turn [OF ok M fire f S(1) J]) (rule IH, auto)
  qed
qed

lemma alarm_loop_ok:
  assumes "server_ok None s" "recorded_now_in_us s = now" "pos_ok now (skipped s) i (alarm_map s)"
    "adds_lower J rank on_alarm" "J s"
  shows "returns_ok (\<lambda>u. alarms_done now s u \<and> J u) (alarm_loop on_alarm now i s)"
proof -
  have "server_ok None (snd x) \<Longrightarrow> recorded_now_in_us (snd x) = now \<Longrightarrow>
      pos_ok now (skipped (snd x)) (fst x) (alarm_map (snd x)) \<Longrightarrow> J (snd x) \<Longrightarrow>
      returns_ok (\<lambda>u. alarms_done now (snd x) u \<and> J u) (alarm_loop on_alarm now (fst x) (snd x))" for x
  proof (induction x rule: mult_lex_induct
      [where f = "\<lambda>x. due_ranks rank now (snd x)" and g = "\<lambda>x. iter_rank (fst x) (alarm_map (snd x))"])
    case (1 x)
    show ?case
    proof (rule alarm_turn [OF "1.prems"(1,3) assms(4) "1.prems"(2,4)])
      fix i' s'
      assume "server_ok None s'" "recorded_now_in_us s' = now" "pos_ok now (skipped s') i' (alarm_map s')" "J s'"
        "(due_ranks rank now s', due_ranks rank now (snd x)) \<in> mult less_than \<or>
         s' = snd x \<and> iter_rank i' (alarm_map (snd x)) < iter_rank (fst x) (alarm_map (snd x))"
      then show "returns_ok (\<lambda>u. alarms_done now s' u \<and> J u) (alarm_loop on_alarm now i' s')"
        using "1.IH" [of "(i', s')"] by auto
    qed
  qed
  from this [of "(i, s)"] assms show ?thesis by simp
qed

lemma CallAndReregisterAlarmEvents_ok:
  assumes "server_ok None s" "adds_lower J rank on_alarm" "J s"
  shows "returns_ok (\<lambda>s'. server_ok None s' \<and> evolves s s' \<and> other_side s' = other_side s \<and> skipped s' = {} \<and> J s')
    (CallAndReregisterAlarmEvents on_alarm s)"
  unfolding CallAndReregisterAlarmEvents_def
proof (rule returns_ok_obind [OF alarm_loop_ok [OF assms(1) refl pos_ok_begin assms(2,3)]])
  fix s' assume d: "alarms_done (recorded_now_in_us s) s s' \<and> J s'"
  let ?u = "s'\<lparr>alarms_reregistered_and_should_be_skipped := {}\<rparr>"
  have "evolves s' ?u" by (auto simp: fd_frame intro!: evolves_same_fd)
  moreover have "J ?u" by (rule J_frame [of s']) (use d in simp_all)
  ultimately show "returns_ok (\<lambda>s'. server_ok None s' \<and> evolves s s' \<and> other_side s' = other_side s \<and> skipped s' = {} \<and> J s')
      (Some (Inr ?u))"
    using d by (auto simp: alarms_done_def server_ok_def es_inv_alarm_fields alarm_wf_def other_side_def
        intro: evolves_trans)
qed

end

section \<open>Instances of the contract\<close>

text \<open>
  An \<open>OnAlarm\<close> override as the repository writes them: first \<open>EpollAlarm::OnAlarm\<close>, then a body
  that works through the public operations and returns the next deadline.
\<close>

definition client_alarm ::
  "('w, 'n) netdp_epoll_scheme \<Rightarrow>
   ('al \<Rightarrow> (('cb, 'al, 'w) es, ('cb, 'al, 'w) api_op, int) client) \<Rightarrow> ('cb, 'al, 'w) alarm_fn" where
  "client_alarm N body al s = Some (run_client (run_api_op N) (body al) (snd (EpollAlarm_OnAlarm al s)))"

lemma client_alarm_ok:
  assumes "server_ok None s" "map_of (alarm_map s) k = Some (t, al)"
  shows "returns_ok (\<lambda>(t', s'). call_ok (Some k) (told al s) s')
    (client_alarm N body al (s\<lparr>all_alarms := all_alarms s - {al}\<rparr>))"
  using run_client_ok [OF told_ok [OF assms], of N "body al"]
  by (auto simp: client_alarm_def told_def returns_ok_def split: sum.splits)

interpretation alc: alarm_callbacks "\<lambda>_. True" "client_alarm N body" for N body
  by unfold_locales (use client_alarm_ok in auto)

text \<open>Bodies that register alarms only for the future.\<close>

primrec future_client ::
  "(('cb, 'al, 'w) es, ('cb, 'al, 'w) api_op, 'r) client \<Rightarrow> ('cb, 'al, 'w) es \<Rightarrow> bool" where
  "future_client (Return r) s = True"
| "future_client (Perform op k) s =
     ((case op of Api_register_alarm t al \<Rightarrow> recorded_now_in_us s < t | _ \<Rightarrow> True) \<and>
      (\<forall>s'. recorded_now_in_us s' = recorded_now_in_us s \<longrightarrow> future_client (k s') s'))"

lemma run_api_op_entries:
  assumes "run_api_op N op s = Inr s'"
    and "case op of Api_register_alarm t al \<Rightarrow> recorded_now_in_us s < t | _ \<Rightarrow> True"
  shows "recorded_now_in_us s' = recorded_now_in_us s"
    "e \<in> set (alarm_map s') \<Longrightarrow> alarm_time e \<le> recorded_now_in_us s \<Longrightarrow> e \<in> set (alarm_map s)"
proof -
  have r: "recorded_now_in_us s' = recorded_now_in_us s \<and>
    (e \<in> set (alarm_map s') \<longrightarrow> alarm_time e \<le> recorded_now_in_us s \<longrightarrow> e \<in> set (alarm_map s))"
  proof (cases op)
    case (Api_fd op')
    with assms(1) side_run_fd_op [of N op' s s'] show ?thesis by (simp add: alarm_side_def)
  next
    case (Api_register_alarm t al)
    with assms RegisterAlarm_fields [of t al s s'] show ?thesis
      by (auto simp: other_side_def alarm_time_def)
  next
    case (Api_unregister_alarm al)
    with assms(1) show ?thesis
      by (auto simp: UnregisterIfRegistered_def UnregisterAlarm_def Let_def EpollAlarm_OnUnregistration_def
          upd_alarm_def AList.delete_eq split: if_splits option.splits)
  qed (use assms(1) in \<open>auto simp: set_timeout_in_us_def\<close>)
  then show "recorded_now_in_us s' = recorded_now_in_us s"
    "e \<in> set (alarm_map s') \<Longrightarrow> alarm_time e \<le> recorded_now_in_us s \<Longrightarrow> e \<in> set (alarm_map s)" by simp_all
qed

lemma run_client_entries:
  assumes "run_client (run_api_op N) p s = Inr (r, s')" "future_client p s"
    "e \<in> set (alarm_map s')" "alarm_time e \<le> recorded_now_in_us s"
  shows "e \<in> set (alarm_map s)"
  using assms
proof (induction p arbitrary: s)
  case (Return x)
  then show ?case by simp
next
  case (Perform op k)
  from Perform.prems(1) obtain t where t: "run_api_op N op s = Inr t" "run_client (run_api_op N) (k t) t = Inr (r, s')"
    by (auto simp: rbind_eq_Inr)
  note F = run_api_op_entries [OF t(1)]
  from Perform.prems(2) F(1) have "future_client (k t) t" "recorded_now_in_us t = recorded_now_in_us s" by auto
  with Perform.IH [OF rangeI t(2)] Perform.prems F(2) show ?case by simp
qed

lemma client_alarm_future:
  fixes body :: "'al \<Rightarrow> (('cb, 'al, 'w) es, ('cb, 'al, 'w) api_op, int) client"
  assumes "\<And>al s. future_client (body al) s"
  shows "adds_nothing_due (client_alarm N body)"
proof -
  have "e \<in> set (alarm_map s)" if "client_alarm N body al s = Some (Inr (t', s'))"
    "e \<in> set (alarm_map s')" "alarm_time e \<le> recorded_now_in_us s" for al s t' s' e
    using that run_client_entries [of N "body al" "snd (EpollAlarm_OnAlarm al s)" t' s' e]
      assms [of al "snd (EpollAlarm_OnAlarm al s)"]
    by (simp add: client_alarm_def EpollAlarm_OnAlarm_def upd_alarm_def)
  then show ?thesis unfolding adds_nothing_due_def by blast
qed

end
