(* ===== verification/Epoll_Round.thy ===== *)
theory Epoll_Round
  imports Epoll_Alarm_Correct
begin

unbundle bit_operations_syntax

text \<open>
  A whole round of the event loop, and runs of the server.

  \<open>quiescent\<close> describes the server between two calls of \<open>WaitForEventsAndExecuteCallbacks\<close>. The
  constructor establishes it, public operations and rounds keep it, so in every reachable state a
  round returns without touching freed memory; \<open>server_run\<close> is the step relation of such runs.
\<close>

definition quiescent :: "('cb, 'al, 'w) es \<Rightarrow> bool" where
  "quiescent s \<longleftrightarrow>
     server_ok None s \<and> idle s \<and> skipped s = {} \<and> recorded_now_in_us s = 0 \<and>
     \<not> in_wait_for_events_and_execute_callbacks s"

section \<open>Waiting\<close>

lemma keeps_handle_events: "keeps s (handle_events es s)"
proof (induction es arbitrary: s)
  case (Cons e es)
  then show ?case by (cases e) (auto intro: keeps_bind keeps_HandleEvent)
qed simp

lemma side_handle_events: "handle_events es s = Inr s' \<Longrightarrow> alarm_side s' = alarm_side s"
proof (induction es arbitrary: s)
  case (Cons e es)
  obtain fd m where [simp]: "e = (fd, m)" by (cases e)
  from Cons.prems obtain t where "HandleEvent fd m s = Inr t" "handle_events es t = Inr s'"
    by (auto simp: rbind_eq_Inr)
  with Cons.IH [of t] side_run_fd_op [of _ "Do_HandleEvent fd m" s t] show ?case by simp
qed simp

lemma server_ok_evolves:
  "server_ok None s \<Longrightarrow> evolves s s' \<Longrightarrow> alarm_wf None s' = alarm_wf None s \<Longrightarrow> server_ok None s'"
  by (auto simp: server_ok_def dest: evolves_inv)

lemma poll_events_ok:
  assumes ok: "server_ok None s" and i: "idle s"
  shows "case poll_events N t s of Inl e \<Rightarrow> benign e
    | Inr s' \<Rightarrow> server_ok None s' \<and> idle s' \<and> skipped s' = skipped s \<and>
        in_wait_for_events_and_execute_callbacks s' = in_wait_for_events_and_execute_callbacks s \<and>
        in_shutdown s' = in_shutdown s"
proof -
  obtain nfds evs err w where r: "netdpsock_epoll_wait N (epoll_fd s) events_size
      (timeout_in_ms t (ready_first s \<noteq> None)) (env s) = ((nfds, evs, err), w)"
    by (metis surj_pair)
  obtain now w' where now: "time_now N w = (now, w')" by (cases "time_now N w")
  let ?s = "s\<lparr>env := w', recorded_now_in_us := now\<rparr>"
  have eq: "poll_events N t s =
      (if nfds > 0 then handle_events (take (nat nfds) evs) ?s
       else if nfds < 0 \<and> err \<noteq> NETDP_EINTR N \<and> err \<noteq> 0 then Inl (Log_fatal ''in epoll_wait'') else Inr ?s)"
    using r now by (simp add: poll_events_def NowInUsec_def Let_def)
  have e: "evolves s ?s" by (auto simp: fd_frame busy_def intro!: evolves_same_fd)
  have a: "alarm_wf None ?s = alarm_wf None s" by (simp add: alarm_wf_def)
  have s: "server_ok None ?s" by (rule server_ok_evolves [OF ok e a])
  have i': "idle ?s" using idle_evolves [OF i _ e] ok by (simp add: server_ok_def)
  show ?thesis
  proof (cases "handle_events (take (nat nfds) evs) ?s")
    case (Inl x)
    have "benign x" using keeps_handle_events [of ?s "take (nat nfds) evs"] Inl s
      by (simp add: keeps_def server_ok_def)
    with Inl s i' show ?thesis by (simp add: eq)
  next
    case (Inr u)
    have ev: "evolves ?s u" using keeps_handle_events [of ?s "take (nat nfds) evs"] Inr s
      by (simp add: server_ok_def)
    note F = side_handle_events [OF Inr]
    have "server_ok None u" by (rule server_ok_evolves [OF s ev alarm_side_frame(1) [OF F]])
    moreover have "idle u" using idle_evolves [OF i' _ ev] s by (simp add: server_ok_def)
    ultimately show ?thesis using Inr s i' F by (simp add: eq alarm_side_def)
  qed
qed

section \<open>A round\<close>

definition waited :: "('cb, 'al, 'w) es \<Rightarrow> ('cb, 'al, 'w) es \<Rightarrow> bool" where
  "waited s s' \<longleftrightarrow> server_ok None s' \<and> idle s' \<and> skipped s' = skipped s"

locale event_loop = event_callbacks J on_event + alarm_callbacks J on_alarm
  for J :: "('cb, 'al, 'w) es \<Rightarrow> bool" and on_event :: "('cb, 'al, 'w) event_fn" and on_alarm :: "('cb, 'al, 'w) alarm_fn" +
  fixes N :: "('w, 'n) netdp_epoll_scheme" and rank :: "'w \<Rightarrow> 'al \<Rightarrow> nat"
  assumes wait_keeps: "J s \<Longrightarrow> J (s\<lparr>env := snd (netdpsock_epoll_wait N fd n t (env s))\<rparr>)"
    and now_keeps: "J s \<Longrightarrow> J (s\<lparr>env := snd (time_now N (env s))\<rparr>)"
begin

lemma poll_events_keeps:
  assumes "J s" "poll_events N t s = Inr s'"
  shows "J s'"
proof -
  obtain nfds evs err w where r: "netdpsock_epoll_wait N (epoll_fd s) events_size
      (timeout_in_ms t (ready_first s \<noteq> None)) (env s) = ((nfds, evs, err), w)"
    by (metis surj_pair)
  obtain now w' where now: "time_now N w = (now, w')" by (cases "time_now N w")
  let ?s = "s\<lparr>env := w', recorded_now_in_us := now\<rparr>"
  have "J (s\<lparr>env := w'\<rparr>)"
    using now_keeps [OF wait_keeps [OF assms(1), of "epoll_fd s" events_size "timeout_in_ms t (ready_first s \<noteq> None)"]] r now
    by simp
  then have J: "J ?s" by (rule J_frame) simp_all
  have "s' = ?s \<or> (\<exists>es. handle_events es ?s = Inr s')"
    using assms(2) r now by (auto simp: poll_events_def NowInUsec_def Let_def split: if_splits)
  with J J_side [OF J env_handle_events side_handle_events] show ?thesis by blast
qed

lemma wait_ok:
  assumes ok: "server_ok None s" and i: "idle s" and J: "J s"
  shows "returns_ok (\<lambda>s'. waited s s' \<and> J s') (WaitForEventsAndCallHandleEvents N on_event t s)"
proof (cases "poll_events N t s")
  case (Inl e)
  with poll_events_ok [OF ok i, of N t] show ?thesis
    by (simp add: WaitForEventsAndCallHandleEvents_def)
next
  case (Inr u)
  with poll_events_ok [OF ok i, of N t] have u: "server_ok None u" "idle u" "skipped u = skipped s" by simp_all
  have Ju: "J u" by (rule poll_events_keeps [OF J Inr])
  from CallReadyListCallbacks_ok [OF u(1) _ _ Ju] u(2)
  have "returns_ok (\<lambda>s'. round_done u s' \<and> J s') (CallReadyListCallbacks on_event u)" by (simp add: idle_def)
  then have "returns_ok (\<lambda>s'. waited s s' \<and> J s') (CallReadyListCallbacks on_event u)"
    by (rule returns_ok_mono) (use u(3) in \<open>auto simp: round_done_def waited_def idle_def loop_side_def\<close>)
  with u Ju Inr show ?thesis by (simp add: WaitForEventsAndCallHandleEvents_def waited_def)
qed

lemma round_ok:
  assumes q: "quiescent s" and f: "adds_lower J rank on_alarm" and J: "J s"
  shows "returns_ok (\<lambda>s'. quiescent s' \<and> J s') (WaitForEventsAndExecuteCallbacks N on_event on_alarm s)"
proof -
  let ?s = "s\<lparr>in_wait_for_events_and_execute_callbacks := True\<rparr>"
  obtain now w where now: "time_now N (env s) = (now, w)" by (cases "time_now N (env s)")
  let ?t = "?s\<lparr>env := w\<rparr>"
  have e: "evolves s ?s" "evolves s ?t" by (auto simp: fd_frame busy_def intro!: evolves_same_fd)
  have s: "server_ok None ?s" "idle ?s" "server_ok None ?t" "idle ?t"
    using q server_ok_evolves [OF _ e(1)] server_ok_evolves [OF _ e(2)] idle_evolves [OF _ _ e(1)]
      idle_evolves [OF _ _ e(2)]
    by (simp_all add: quiescent_def alarm_wf_def server_ok_def)
  have Js: "J ?s" by (rule J_frame [OF J]) simp_all
  have Jt: "J ?t" using now_keeps [OF Js] now by simp
  define fin where "fin s = s\<lparr>recorded_now_in_us := 0, in_wait_for_events_and_execute_callbacks := False\<rparr>"
    for s :: "('cb, 'al, 'w) es"
  have fin: "quiescent (fin u) \<and> J (fin u)" if "server_ok None u" "idle u" "skipped u = {}" "J u" for u
  proof -
    have "J (fin u)" by (rule J_frame [OF that(4)]) (simp_all add: fin_def)
    moreover
    have eu: "evolves u (fin u)" by (auto simp: fin_def fd_frame intro!: evolves_same_fd)
    moreover have "server_ok None (fin u)" by (rule server_ok_evolves [OF that(1) eu]) (simp add: fin_def alarm_wf_def)
    moreover have "idle (fin u)" using idle_evolves [OF that(2) _ eu] that(1) by (simp add: server_ok_def)
    ultimately show ?thesis using that(3) by (simp add: quiescent_def fin_def)
  qed
  have plain: "returns_ok (\<lambda>s'. quiescent s' \<and> J s') (obind (WaitForEventsAndCallHandleEvents N on_event t ?s) (\<lambda>s. Some (Inr (fin s))))" for t
    by (rule returns_ok_obind [OF wait_ok [OF s(1,2) Js]]) (use q fin in \<open>auto simp: waited_def quiescent_def\<close>)
  have fire: "returns_ok (\<lambda>u. server_ok None u \<and> idle u \<and> skipped u = {} \<and> J u) (CallAndReregisterAlarmEvents on_alarm v)"
    if "waited ?t v \<and> J v" for v
    using CallAndReregisterAlarmEvents_ok [OF _ f, of v] that
    by (auto simp: waited_def server_ok_def elim!: returns_ok_mono dest: idle_evolves)
  have alarms: "returns_ok (\<lambda>s'. quiescent s' \<and> J s') (obind (obind (WaitForEventsAndCallHandleEvents N on_event t ?t)
      (CallAndReregisterAlarmEvents on_alarm)) (\<lambda>s. Some (Inr (fin s))))" for t
    by (rule returns_ok_obind [OF returns_ok_obind [OF wait_ok [OF s(3,4) Jt] fire]]) (use fin in auto)
  have "\<not> in_wait_for_events_and_execute_callbacks s" using q by (simp add: quiescent_def)
  then show ?thesis using plain alarms now
    unfolding WaitForEventsAndExecuteCallbacks_def fin_def
    by (cases "alarm_map s") (auto simp: NowInUsec_def Let_def)
qed

end

interpretation loop: event_loop "\<lambda>_. True" "client_event N body" "client_alarm N abody" N rank for N body abody rank
  by unfold_locales simp_all

lemma client_round_ok:
  assumes "quiescent s" "adds_nothing_due (client_alarm N abody)"
  shows "returns_ok quiescent (WaitForEventsAndExecuteCallbacks N (client_event N body) (client_alarm N abody) s)"
  using loop.round_ok [OF assms(1) adds_nothing_due_lower [OF assms(2)] TrueI] by simp

section \<open>Runs of the server\<close>

inductive server_run ::
  "('w, 'n) netdp_epoll_scheme \<Rightarrow>
   ('cb \<Rightarrow> int \<Rightarrow> mask \<Rightarrow> (('cb, 'al, 'w) es, ('cb, 'al, 'w) api_op, mask) client) \<Rightarrow>
   ('al \<Rightarrow> (('cb, 'al, 'w) es, ('cb, 'al, 'w) api_op, int) client) \<Rightarrow> ('cb, 'al, 'w) es \<Rightarrow> bool"
  for N body abody where
  init: "EpollServer_new fd (\<lambda>_. EpollAlarm_new) w = Inr s \<Longrightarrow> server_run N body abody s"
| call: "server_run N body abody s \<Longrightarrow> run_api_op N op s = Inr s' \<Longrightarrow> server_run N body abody s'"
| round: "server_run N body abody s \<Longrightarrow>
    WaitForEventsAndExecuteCallbacks N (client_event N body) (client_alarm N abody) s = Some (Inr s') \<Longrightarrow>
    server_run N body abody s'"

lemma quiescent_init:
  assumes "EpollServer_new fd (\<lambda>_. EpollAlarm_new) w = Inr (s :: ('cb, 'al, 'w) es)"
  shows "quiescent s"
proof -
  have "es_wf s [] []" using assms
    by (auto simp: EpollServer_new_def es_wf_def rl_view_def split: if_splits)
  moreover have "alarm_wf None s" "tmp_first s = None" "busy s = {}" "skipped s = {}"
    "recorded_now_in_us s = 0" "\<not> in_wait_for_events_and_execute_callbacks s" using assms
    by (auto simp: EpollServer_new_def alarm_wf_def alarm_ok_def EpollAlarm_new_def busy_def split: if_splits)
  ultimately show ?thesis by (auto simp: quiescent_def server_ok_def es_inv_def idle_def)
qed

lemma quiescent_call_ok:
  assumes q: "quiescent s" and c: "call_ok None s s'"
  shows "quiescent s'"
proof -
  have "idle s'" using idle_evolves [of s s'] q c by (simp add: call_ok_def quiescent_def server_ok_def)
  with c q show ?thesis by (simp add: call_ok_def quiescent_def loop_side_def)
qed

lemma quiescent_call:
  assumes q: "quiescent s" and r: "run_api_op N op s = Inr s'"
  shows "quiescent s'"
proof (rule quiescent_call_ok [OF q])
  from q have "server_ok None s" by (simp add: quiescent_def)
  from run_api_op_ok [OF this, of N op] r show "call_ok None s s'" by simp
qed

lemma server_run_quiescent:
  assumes "server_run N body abody s" and f: "\<And>al s. future_client (abody al) s"
  shows "quiescent s"
  using assms(1)
proof (induction rule: server_run.induct)
  case (init fd w s)
  then show ?case by (rule quiescent_init)
next
  case (call s op s')
  then show ?case using quiescent_call by blast
next
  case (round s s')
  from client_round_ok [OF round.IH client_alarm_future [where body = abody, OF f], of N body] round.hyps(2)
  show ?case by simp
qed

subsection \<open>Timeouts\<close>

lemma timeout_in_ms_pos:
  assumes "0 \<le> t" "t < 2 ^ 31 * 1000"
  shows "timeout_in_ms t p = (if t = 0 \<or> p then 0 else if t < 1000 then 1 else t div 1000)"
proof -
  have "in_int32 (t div 1000)" using assms by (auto simp: in_int32_def)
  with assms show ?thesis by (simp add: timeout_in_ms_def in_int32_def)
qed

lemma wait_time_in_us_bounds:
  assumes "in_int64 (next - now)"
  shows "0 \<le> wait_time_in_us t next now" "wait_time_in_us t next now \<le> max 0 (next - now)"
    "0 \<le> t \<Longrightarrow> wait_time_in_us t next now \<le> t"
  using assms by (auto simp: wait_time_in_us_def Let_def)

end
