(* ===== verification/Epoll_Properties.thy ===== *)
theory Epoll_Properties
  imports Epoll_Round
begin

unbundle bit_operations_syntax

text \<open>
  The properties of the event loop, each with a run on a concrete server where it has hypotheses,
  and the behaviour of the destructor. \<open>mem_epoll\<close> is an epoll instance kept in memory that the
  witnesses run on.
\<close>

section \<open>A concrete world\<close>

text \<open>An epoll instance in memory, to run the model on: the world is the interest set and a clock.\<close>

definition mem_epoll :: "((int \<rightharpoonup> mask) \<times> int) netdp_epoll" where
  "mem_epoll = \<lparr>
     netdpsock_epoll_ctl = (\<lambda>ep op fd m (I, t). (0, (case op of EPOLL_CTL_DEL \<Rightarrow> I(fd := None) | _ \<Rightarrow> I(fd \<mapsto> m)), t)),
     netdpsock_epoll_wait = (\<lambda>ep sz ms (I, t). ((0, [], 0), I, t + 1000 * ms)),
     netdpsock_close = (\<lambda>fd w. (0, w)),
     NETDP_EINTR = 4,
     time_now = (\<lambda>(I, t). (t, I, t + 1))\<rparr>"

definition new_server :: "(nat, nat, (int \<rightharpoonup> mask) \<times> int) es" where
  "new_server =
     \<lparr>nodes = Map.empty, ready_first = None, tmp_first = None, ready_list_size = 0,
      next_addr = 0, epoll_fd = 3, cb_map = [], all_alarms = {}, alarm_map = [],
      next_token = 0, timeout_in_us = 0, recorded_now_in_us = 0,
      alarms_reregistered_and_should_be_skipped = {},
      in_wait_for_events_and_execute_callbacks = False, in_shutdown = False,
      read_fd = -1, write_fd = -1, alarm_objs = (\<lambda>_. EpollAlarm_new), calls = [], env = (Map.empty, 1)\<rparr>"

lemma new_server_new: "EpollServer_new 3 (\<lambda>_. EpollAlarm_new) (Map.empty, 1) = Inr new_server"
  by (simp add: EpollServer_new_def new_server_def)

text \<open>The same server with callback 7 registered for descriptor 5, an event pending, and alarm 2 set.\<close>

definition ready_server :: "(nat, nat, (int \<rightharpoonup> mask) \<times> int) es" where
  "ready_server = new_server\<lparr>
     nodes := [0 \<mapsto> \<lparr>ce_cb = Some 7, ce_fd = 5, ce_event_mask = EPOLLIN, ce_events_asserted = EPOLLIN,
                     ce_events_to_fake = 0, ce_in_use = False, le_next = None, le_prev = Some Ready_first\<rparr>],
     ready_first := Some 0, ready_list_size := 1, next_addr := 1, cb_map := [(5, 0)],
     all_alarms := {2}, alarm_map := [(0, 40, 2)], next_token := 1,
     alarm_objs := (\<lambda>_. EpollAlarm_new)(2 := \<lparr>ea_token = Some 0, ea_eps = True, ea_registered = True\<rparr>),
     env := ([5 \<mapsto> full_mask EPOLLIN], 1)\<rparr>"

lemma ready_server_wf: "es_wf ready_server [0] []"
  by (simp add: es_wf_def rl_view_def ready_server_def new_server_def)

lemma ready_server_quiescent: "quiescent ready_server"
proof -
  have "alarm_wf None ready_server" "idle ready_server" "skipped ready_server = {}"
    "recorded_now_in_us ready_server = 0" "\<not> in_wait_for_events_and_execute_callbacks ready_server"
    by (auto simp: ready_server_def new_server_def alarm_wf_def alarm_ok_def EpollAlarm_new_def idle_def
        busy_def keys_distinct_def split: if_splits)
  with ready_server_wf show ?thesis by (auto simp: quiescent_def server_ok_def es_inv_def)
qed

lemma mem_epoll_laws: "epoll_ctl_laws mem_epoll ep fst (\<lambda>w fd. True)"
  by (auto simp: epoll_ctl_laws_def mem_epoll_def)

section \<open>The destructor\<close>

definition shutdown_calls :: "('cb, 'al, 'w) es \<Rightarrow> (int \<times> addr) list \<Rightarrow> 'cb cb_call list" where
  "shutdown_calls s m = List.map_filter (\<lambda>(fd, a). map_option (\<lambda>(c, _). OnShutdown c fd) (registry s fd)) m"

lemma registry_cong:
  assumes "map_of (cb_map s') f = map_of (cb_map s) f"
    "\<And>a. map_of (cb_map s) f = Some a \<Longrightarrow> nodes s' a = nodes s a"
  shows "registry s' f = registry s f"
  using assms by (auto simp: registry_def split: option.split)

lemma map_filter_cong: "(\<And>x. x \<in> set xs \<Longrightarrow> f x = g x) \<Longrightarrow> List.map_filter f xs = List.map_filter g xs"
  by (induction xs) (auto simp: map_filter_simps split: option.split)

lemma shutdown_fds_ok:
  fixes s :: "('cb, 'al, 'w) es"
  assumes "cb_map s = xs" "keys_distinct xs"
    "\<And>f a. map_of xs f = Some a \<Longrightarrow> \<exists>n. nodes s a = Some n \<and> ce_fd n = f"
  shows "\<exists>s'. shutdown_fds xs s = Inr s' \<and> cb_map s' = [] \<and> calls s' = calls s @ shutdown_calls s xs \<and>
    dom (nodes s') = dom (nodes s) - snd ` set xs \<and> alarm_side s' = alarm_side s \<and> epoll_fd s' = epoll_fd s \<and>
    env s' = env s"
  using assms
proof (induction xs arbitrary: s)
  case Nil
  then show ?case by (simp add: shutdown_calls_def map_filter_simps)
next
  case (Cons x xs)
  obtain fd a where x [simp]: "x = (fd, a)" by (cases x)
  obtain n where n: "nodes s a = Some n" "ce_fd n = fd" using Cons.prems(3) [of fd a] by auto
  let ?n = "n\<lparr>ce_in_use := True\<rparr>"
  let ?t = "s\<lparr>nodes := (nodes s)(a \<mapsto> ?n)\<rparr>"
  define u where "u = (case ce_cb n of None \<Rightarrow> ?t | Some cb \<Rightarrow> log_call (OnShutdown cb fd) ?t)"
  let ?s = "erase_node fd a u"
  have u: "nodes u = (nodes s)(a \<mapsto> ?n)" "cb_map u = x # xs" "env u = env s" "epoll_fd u = epoll_fd s"
    "alarm_side u = alarm_side s"
    using Cons.prems(1) by (auto simp: u_def split: option.split)
  have reg: "registry s fd = map_option (\<lambda>c. (c, ce_event_mask n)) (ce_cb n)"
    using registry_node [OF _ n(1)] Cons.prems(1) by simp
  have step: "shutdown_fds (x # xs) s = shutdown_fds xs ?s"
    using n by (simp add: upd_node_Inr deref_def u_def Let_def)
  have fd: "map_of xs fd = None" "keys_distinct xs" using Cons.prems(2) by simp_all
  have ne: "f \<noteq> fd" if "map_of xs f = Some b" for f b using that fd by auto
  have old: "\<exists>n. nodes s b = Some n \<and> ce_fd n = f" if "map_of xs f = Some b" for f b
    using Cons.prems(3) [of f b] ne [OF that] that by simp
  have other: "b \<noteq> a" if "map_of xs f = Some b" for f b
    using old [OF that] ne [OF that] n by auto
  have m: "cb_map ?s = xs" using u fd by (simp add: erase_node_def delete_absent)
  have nodes: "nodes ?s = (nodes s)(a := None)" using u by (simp add: erase_node_def)
  have "\<exists>n. nodes ?s b = Some n \<and> ce_fd n = f" if "map_of xs f = Some b" for f b
    using old [OF that] other [OF that] nodes by simp
  then obtain s' where s': "shutdown_fds xs ?s = Inr s'" "cb_map s' = []"
    "calls s' = calls ?s @ shutdown_calls ?s xs" "dom (nodes s') = dom (nodes ?s) - snd ` set xs"
    "alarm_side s' = alarm_side ?s" "epoll_fd s' = epoll_fd ?s" "env s' = env ?s"
    using Cons.IH [OF m fd(2)] by blast
  have "shutdown_calls ?s xs = shutdown_calls s xs"
    unfolding shutdown_calls_def
  proof (rule map_filter_cong, clarify)
    fix f b assume b: "(f, b) \<in> set xs"
    then have fb: "map_of xs f = Some b" using fd(2) by (simp add: keys_distinct_def)
    with fd have "f \<noteq> fd" by auto
    with fb other [OF fb] m nodes Cons.prems(1) have "registry ?s f = registry s f"
      by (intro registry_cong) auto
    then show "map_option (\<lambda>(c, _). OnShutdown c f) (registry ?s f) = map_option (\<lambda>(c, _). OnShutdown c f) (registry s f)"
      by simp
  qed
  moreover have "calls ?s = calls s @ (case ce_cb n of None \<Rightarrow> [] | Some c \<Rightarrow> [OnShutdown c fd])"
    by (auto simp: u_def split: option.split)
  ultimately show ?case using step s' u nodes reg
    by (auto simp: shutdown_calls_def map_filter_simps split: option.splits)
qed

lemma shutdown_alarms_ok:
  assumes "keys_distinct xs" "alarm_map s = xs"
  shows "alarm_map (shutdown_alarms xs s) = [] \<and>
    (\<forall>al. ea_registered (alarm_objs (shutdown_alarms xs s) al) \<longleftrightarrow>
       ea_registered (alarm_objs s al) \<and> al \<notin> (snd \<circ> snd) ` set xs) \<and>
    nodes (shutdown_alarms xs s) = nodes s \<and> cb_map (shutdown_alarms xs s) = cb_map s \<and>
    calls (shutdown_alarms xs s) = calls s"
  using assms
proof (induction xs arbitrary: s)
  case (Cons x xs)
  obtain k t al where x [simp]: "x = (k, t, al)" by (cases x)
  let ?s = "(EpollAlarm_OnShutdown al s)\<lparr>alarm_map := AList.delete k (alarm_map s)\<rparr>"
  have "alarm_map ?s = xs" using Cons.prems by (simp add: delete_absent)
  from Cons.IH [OF _ this] Cons.prems show ?case
    by (auto simp: EpollAlarm_OnShutdown_def upd_alarm_def)
qed simp

section \<open>Properties\<close>

text \<open>
  C1: In every state a run of the server can reach, whatever its callbacks do through the
  public interface, a round of the event loop (WaitForEventsAndExecuteCallbacks) returns, aborts at
  most by a deliberate LOG(FATAL) or CHECK and never by using a freed node, an invalid iterator or
  a null pointer, and leaves the server ready for the next round. The one condition: alarm callbacks
  register alarms only for times that have not passed yet.
\<close>

theorem round_returns:
  assumes "server_run N body abody s" and "\<And>al t. future_client (abody al) t"
  shows "returns_ok quiescent
    (WaitForEventsAndExecuteCallbacks N (client_event N body) (client_alarm N abody) s)"
  by (rule client_round_ok [OF server_run_quiescent [OF assms] client_alarm_future [OF assms(2)]])

theorem round_returns_witness:
  "returns_ok quiescent
     (WaitForEventsAndExecuteCallbacks mem_epoll (client_event mem_epoll (\<lambda>c fd m. Return 0))
        (client_alarm mem_epoll (\<lambda>al. Perform (Api_world id) (\<lambda>s.
           Perform (Api_register_alarm (recorded_now_in_us s + 5) al) (\<lambda>_. Return 0)))) new_server)"
  by (rule round_returns [OF server_run.init [OF new_server_new]]) simp





text \<open>
  C2: The descriptor interface refines a map from descriptors to (callback, mask). Against an
  epoll that behaves as documented, any sequence of RegisterFD, UnregisterFD, ModifyFD, HandleEvent,
  SetFDReady and SetFDNotReady runs without an abort, changes the registry exactly as the map
  operations do, makes exactly the specified OnRegistration, OnModification and OnUnregistration
  calls in order, and keeps the kernel's interest set equal to the registry (each mask extended by
  EPOLLERR and EPOLLHUP).
\<close>

theorem fd_operations_refine_registry:
  assumes "quiescent s" "epoll_ctl_laws N (epoll_fd s) I V" "kernel_agrees I s"
    "list_all (op_opens (V (env s))) ops"
  shows "\<exists>s'. run_fd_ops N ops s = Inr s' \<and> registry s' = fst (spec_fd_ops ops (registry s)) \<and>
    calls s' = calls s @ snd (spec_fd_ops ops (registry s)) \<and> kernel_agrees I s' \<and> es_inv s'"
proof -
  have i: "es_inv s" using assms(1) by (simp add: quiescent_def server_ok_def)
  from run_fd_ops_spec [OF i assms(2-4)] obtain s' where s': "run_fd_ops N ops s = Inr s'"
    "op_done I V s (spec_fd_ops ops (registry s)) s'" by blast
  have "es_inv s'" using keeps_run_fd_ops [of s N ops] s'(1) i evolves_inv by simp
  with s' show ?thesis by (auto simp: op_done_def)
qed

theorem fd_operations_refine_registry_witness:
  "\<exists>s'. run_fd_ops mem_epoll [Do_Register 5 0 EPOLLIN, Do_SetReady 5 EPOLLIN, Do_Register 5 1 EPOLLOUT,
      Do_Unregister 5] new_server = Inr s' \<and>
    registry s' = fst (spec_fd_ops [Do_Register 5 0 EPOLLIN, Do_SetReady 5 EPOLLIN, Do_Register 5 1 EPOLLOUT,
      Do_Unregister 5] (registry new_server)) \<and>
    calls s' = calls new_server @ snd (spec_fd_ops [Do_Register 5 0 EPOLLIN, Do_SetReady 5 EPOLLIN,
      Do_Register 5 1 EPOLLOUT, Do_Unregister 5] (registry new_server)) \<and>
    kernel_agrees fst s' \<and> es_inv s'"
proof (rule fd_operations_refine_registry [OF quiescent_init [OF new_server_new] mem_epoll_laws])
  show "kernel_agrees fst new_server"
    by (auto simp: kernel_agrees_def new_server_def interest_of_def registry_def fun_eq_iff)
qed simp





text \<open>
  C32: Destroying a server that is not in a callback tells every registered callback OnShutdown
  exactly once, leaves no node and no descriptor entry behind, empties the alarm map, and marks every
  alarm unregistered, so that no EpollAlarm destroyed later calls into the dead server.
\<close>

theorem destructor_complete:
  fixes s :: "('cb, 'al, 'w) es"
  assumes "quiescent s"
  shows "\<exists>s'. EpollServer_delete N s = Inr s' \<and> calls s' = calls s @ shutdown_calls s (cb_map s) \<and>
    nodes s' = Map.empty \<and> cb_map s' = [] \<and> alarm_map s' = [] \<and>
    (\<forall>al. \<not> ea_registered (alarm_objs s' al))"
proof -
  from assms obtain rs ts where w: "es_wf s rs ts" and a: "alarm_wf None s"
    by (auto simp: quiescent_def server_ok_def es_inv_def)
  note W = es_wfD [OF w] and A = alarm_okD [OF a [unfolded alarm_wf_def]]
  let ?s = "s\<lparr>in_shutdown := True\<rparr>"
  obtain t where t: "CleanupFDToCBMap ?s = Inr t" "cb_map t = []" "calls t = calls ?s @ shutdown_calls ?s (cb_map s)"
    "dom (nodes t) = dom (nodes ?s) - snd ` set (cb_map s)" "alarm_side t = alarm_side ?s"
    using shutdown_fds_ok [of ?s "cb_map s"] W(2,3) by (auto simp: CleanupFDToCBMap_def)
  have "dom (nodes s) \<subseteq> snd ` set (cb_map s)"
    using W(4) map_of_SomeD by (force simp: dom_def image_iff)
  with t(4) have "dom (nodes t) = {}" by auto
  then have n: "nodes t = Map.empty" by (simp only: dom_eq_empty_conv)
  let ?t = "t\<lparr>ready_first := None, tmp_first := None\<rparr>"
  have m: "alarm_map ?t = alarm_map s" "alarm_objs ?t = alarm_objs s" using t(5) by (simp_all add: alarm_side_def)
  have "\<not> ea_registered (alarm_objs s al) \<or> al \<in> (snd \<circ> snd) ` set (alarm_map s)" for al
    using A(5) [OF A(6), of al] map_of_SomeD [of "alarm_map s"] by (force simp: image_iff)
  moreover have "shutdown_calls ?s (cb_map s) = shutdown_calls s (cb_map s)"
    by (simp add: shutdown_calls_def registry_def [abs_def] cong: option.case_cong)
  ultimately show ?thesis
    using shutdown_alarms_ok [OF A(2), of ?t] m n t
    by (auto simp: EpollServer_delete_def CleanupTimeToAlarmCBMap_def Let_def)
qed

theorem destructor_complete_witness:
  "\<exists>s'. EpollServer_delete mem_epoll ready_server = Inr s' \<and>
    calls s' = calls ready_server @ shutdown_calls ready_server (cb_map ready_server) \<and>
    nodes s' = Map.empty \<and> cb_map s' = [] \<and> alarm_map s' = [] \<and>
    (\<forall>al. \<not> ea_registered (alarm_objs s' al))"
  by (rule destructor_complete [OF ready_server_quiescent])

text \<open>
  C30: The lists under iteration survive any edit. After CallReadyListCallbacks has moved the
  ready list to the temporary list, any sequence of AddToReadyList and RemoveFromReadyList on live
  nodes, as callbacks cause it, runs without an invalid pointer and has the effect of the same
  operations on two plain lists; it changes nothing but the links.
\<close>

theorem ready_list_edit_during_iteration:
  assumes "rl_view s rs []" and "\<forall>x \<in> set os. op_addr x \<in> dom (nodes s)"
  shows "\<exists>s1 s2. swap_lists s = Inr s1 \<and> run_list_ops AddToReadyList RemoveFromReadyList os s1 = Inr s2 \<and>
    store_data s2 = store_data s \<and>
    rl_view s2 (fst (abs_list_ops os ([], rs))) (snd (abs_list_ops os ([], rs)))"
  using assms by (rule rl.iteration_safe)

theorem ready_list_edit_during_iteration_witness:
  "\<exists>s1 s2. swap_lists ready_server = Inr s1 \<and>
    run_list_ops AddToReadyList RemoveFromReadyList [Add 0, Rem 0, Add 0] s1 = Inr s2 \<and>
    store_data s2 = store_data ready_server \<and>
    rl_view s2 (fst (abs_list_ops [Add 0, Rem 0, Add 0] ([], [0])))
      (snd (abs_list_ops [Add 0, Rem 0, Add 0] ([], [0])))"
  by (rule ready_list_edit_during_iteration [OF es_wfD(1) [OF ready_server_wf]]) (simp add: ready_server_def)

lemma RegisterAlarm_new:
  assumes w: "alarm_wf None s" and new: "al \<notin> all_alarms s"
  shows "\<exists>s1 s2 xs ys. RegisterAlarm t (Some al) s = Inr s1 \<and> alarm_wf None s1 \<and>
       alarm_map s = xs @ ys \<and> alarm_map s1 = xs @ (next_token s, t, al) # ys \<and>
       (\<forall>e \<in> set xs. alarm_time e \<le> t) \<and> (\<forall>e \<in> set ys. t < alarm_time e) \<and>
       UnregisterIfRegistered al s1 = Inr s2 \<and> alarm_map s2 = alarm_map s \<and> all_alarms s2 = all_alarms s"
proof -
  let ?k = "next_token s"
  let ?M = "multimap_insert ?k t al (alarm_map s)"
  obtain s1 where s1: "RegisterAlarm t (Some al) s = Inr s1"
    using new by (simp add: RegisterAlarm_def ContainsAlarm_def Let_def)
  have w1: "alarm_wf None s1" by (rule RegisterAlarm_wf [OF w s1]) simp
  have fresh: "map_of (alarm_map s) ?k = None" by (rule fresh_token [OF w])
  have sorted: "sorted_wrt alarm_less (alarm_map s)" using w alarm_okD(1) unfolding alarm_wf_def by blast
  obtain xs ys where M: "alarm_map s = xs @ ys" "?M = xs @ (?k, t, al) # ys"
    "\<forall>e \<in> set xs. alarm_time e \<le> t" "\<forall>e \<in> set ys. t < alarm_time e"
    using multimap_insert_place [OF sorted] by blast
  have f: "alarm_map s1 = ?M" "all_alarms s1 = insert al (all_alarms s)"
    "alarm_objs s1 al = \<lparr>ea_token = Some ?k, ea_eps = True, ea_registered = True\<rparr>"
    using s1 new by (auto simp: RegisterAlarm_def ContainsAlarm_def Let_def EpollAlarm_OnRegistration_def upd_alarm_def)
  have d: "keys_distinct (alarm_map s1)" using w1 alarm_okD(2) unfolding alarm_wf_def by blast
  note S = split_facts [OF d [unfolded f(1) M(2)], folded M(2), folded f(1)]
  obtain s2 where "UnregisterIfRegistered al s1 = Inr s2" "alarm_map s2 = xs @ ys" "all_alarms s2 = all_alarms s"
    using f S new
    by (simp add: UnregisterIfRegistered_def UnregisterAlarm_def EpollAlarm_OnUnregistration_def upd_alarm_def)
  with s1 w1 M f(1) show ?thesis by auto
qed

text \<open>
  C12: RegisterAlarm refuses (LOG(FATAL)) exactly the alarms that are registered; it files a new
  one behind all entries that are not later and before all later ones, so alarms fire in order of time
  and, at equal times, of registration. Unregistering it again restores the alarm map and the set.
\<close>

theorem register_alarm_spec:
  assumes w: "alarm_wf None s"
  shows "(al \<in> all_alarms s \<longrightarrow> RegisterAlarm t (Some al) s = Inl (Log_fatal ''Alarm already exists'')) \<and>
    (al \<notin> all_alarms s \<longrightarrow> (\<exists>s1 s2 xs ys. RegisterAlarm t (Some al) s = Inr s1 \<and> alarm_wf None s1 \<and>
       alarm_map s = xs @ ys \<and> alarm_map s1 = xs @ (next_token s, t, al) # ys \<and>
       (\<forall>e \<in> set xs. alarm_time e \<le> t) \<and> (\<forall>e \<in> set ys. t < alarm_time e) \<and>
       UnregisterIfRegistered al s1 = Inr s2 \<and> alarm_map s2 = alarm_map s \<and> all_alarms s2 = all_alarms s))"
  using RegisterAlarm_new [OF w, of al t] by (simp add: RegisterAlarm_def ContainsAlarm_def)

theorem register_alarm_spec_witness:
  "RegisterAlarm 40 (Some 2) ready_server = Inl (Log_fatal ''Alarm already exists'') \<and>
    (\<exists>s1 s2 xs ys. RegisterAlarm 40 (Some 9) ready_server = Inr s1 \<and> alarm_wf None s1 \<and>
       alarm_map ready_server = xs @ ys \<and> alarm_map s1 = xs @ (next_token ready_server, 40, 9) # ys \<and>
       (\<forall>e \<in> set xs. alarm_time e \<le> 40) \<and> (\<forall>e \<in> set ys. 40 < alarm_time e) \<and>
       UnregisterIfRegistered 9 s1 = Inr s2 \<and> alarm_map s2 = alarm_map ready_server \<and>
       all_alarms s2 = all_alarms ready_server)"
proof -
  have "alarm_wf None ready_server" using ready_server_quiescent by (simp add: quiescent_def server_ok_def)
  moreover have "2 \<in> all_alarms ready_server" "9 \<notin> all_alarms ready_server" by (simp_all add: ready_server_def)
  ultimately show ?thesis
    using register_alarm_spec [of ready_server 2 40] register_alarm_spec [of ready_server 9 40] by blast
qed

end
