(* ===== verification/Connection_Helper.thy ===== *)
theory Connection_Helper
  imports Epoll_Properties
begin

text \<open>
  \<open>QuicEpollClock\<close>, \<open>QuicEpollAlarm\<close> and \<open>QuicEpollConnectionHelper\<close>
  (net/tools/quic/quic_epoll_clock.cc, quic_epoll_connection_helper.cc): the bridge between libquic's
  clock and alarms and the event loop.

  QuicTime is libquic's: \<open>quic_time\<close> holds the operations used here. \<open>QuicAlarm::Fire\<close>, which runs the
  delegate and may set the alarm again, is libquic's too: it is a \<open>client\<close> of the event loop.
\<close>

record ('t, 'd) quic_time =
  qt_Zero :: 't
  qt_Add :: "'t \<Rightarrow> 'd \<Rightarrow> 't"
  qt_Subtract :: "'t \<Rightarrow> 't \<Rightarrow> 'd"
  qd_FromMicroseconds :: "int \<Rightarrow> 'd"
  qd_ToMicroseconds :: "'d \<Rightarrow> int"

section \<open>QuicEpollClock\<close>

definition QuicEpollClock_ApproximateNow ::
  "('t, 'd) quic_time \<Rightarrow> ('w, 'n) netdp_epoll_scheme \<Rightarrow> ('cb, 'al, 'w) es \<Rightarrow> 't \<times> ('cb, 'al, 'w) es" where
  "QuicEpollClock_ApproximateNow Q N s =
     (let (us, s) = ApproximateNowInUsec N s in (qt_Add Q (qt_Zero Q) (qd_FromMicroseconds Q us), s))"

definition QuicEpollClock_Now ::
  "('t, 'd) quic_time \<Rightarrow> ('w, 'n) netdp_epoll_scheme \<Rightarrow> ('cb, 'al, 'w) es \<Rightarrow> 't \<times> ('cb, 'al, 'w) es" where
  "QuicEpollClock_Now Q N s =
     (let (us, s) = NowInUsec N s in (qt_Add Q (qt_Zero Q) (qd_FromMicroseconds Q us), s))"

section \<open>QuicEpollAlarm\<close>

text \<open>\<open>al\<close> is the \<open>epoll_alarm_impl_\<close> of the alarm, an \<open>EpollAlarm\<close>.\<close>

definition QuicEpollAlarm_SetImpl ::
  "('t, 'd) quic_time \<Rightarrow> 't \<Rightarrow> 'al \<Rightarrow> ('cb, 'al, 'w) es \<Rightarrow> ('cb, 'al, 'w) es res" where
  "QuicEpollAlarm_SetImpl Q deadline al s =
     RegisterAlarm (qd_ToMicroseconds Q (qt_Subtract Q deadline (qt_Zero Q))) (Some al) s"

definition QuicEpollAlarm_CancelImpl :: "'al \<Rightarrow> ('cb, 'al, 'w) es \<Rightarrow> ('cb, 'al, 'w) es res" where
  "QuicEpollAlarm_CancelImpl al s = UnregisterIfRegistered al s"

definition EpollAlarmImpl_OnAlarm ::
  "('w, 'n) netdp_epoll_scheme \<Rightarrow>
   ('al \<Rightarrow> (('cb, 'al, 'w) es, ('cb, 'al, 'w) api_op, unit) client) \<Rightarrow> ('cb, 'al, 'w) alarm_fn" where
  "EpollAlarmImpl_OnAlarm N Fire al s =
     (let (_, s) = EpollAlarm_OnAlarm al s
      in Some (rbind (run_client (run_api_op N) (Fire al) s) (\<lambda>(_, s). Inr (0, s))))"

section \<open>QuicEpollAlarm fulfils the alarm contract\<close>

primrec bind_client :: "('s, 'o, 'a) client \<Rightarrow> ('a \<Rightarrow> ('s, 'o, 'b) client) \<Rightarrow> ('s, 'o, 'b) client" where
  "bind_client (Return a) f = f a"
| "bind_client (Perform op k) f = Perform op (\<lambda>s. bind_client (k s) f)"

lemma run_client_bind:
  "run_client run (bind_client p f) s = rbind (run_client run p s) (\<lambda>(a, s). run_client run (f a) s)"
  by (induction p arbitrary: s) (auto simp: rbind_assoc)

lemma EpollAlarmImpl_client:
  "EpollAlarmImpl_OnAlarm N Fire = client_alarm N (\<lambda>al. bind_client (Fire al) (\<lambda>_. Return 0))"
  by (rule ext)+ (simp add: EpollAlarmImpl_OnAlarm_def client_alarm_def run_client_bind split_beta)

interpretation qea: alarm_callbacks "\<lambda>_. True" "EpollAlarmImpl_OnAlarm N Fire" for N Fire
  unfolding EpollAlarmImpl_client by unfold_locales

lemma future_client_bind:
  "future_client p s \<Longrightarrow> (\<And>a s. future_client (f a) s) \<Longrightarrow> future_client (bind_client p f) s"
  by (induction p arbitrary: s) auto

lemma EpollAlarmImpl_future:
  assumes "\<And>al s. future_client (Fire al) s"
  shows "adds_nothing_due (EpollAlarmImpl_OnAlarm N Fire)"
  unfolding EpollAlarmImpl_client
  by (rule client_alarm_future) (rule future_client_bind [OF assms], simp)

text \<open>No alarm of this kind is ever put on the list of alarms to skip.\<close>

lemma run_api_op_skipped: "run_api_op N op s = Inr s' \<Longrightarrow> skipped s' = skipped s"
proof (cases op)
  case (Api_fd op')
  assume "run_api_op N op s = Inr s'"
  with Api_fd side_run_fd_op [of N op' s s'] show ?thesis by (simp add: alarm_side_def)
qed (auto simp: RegisterAlarm_fields UnregisterIfRegistered_evolves loop_side_def set_timeout_in_us_def
    dest: UnregisterIfRegistered_evolves(2))

lemma run_client_skipped: "run_client (run_api_op N) p s = Inr (r, s') \<Longrightarrow> skipped s' = skipped s"
proof (induction p arbitrary: s)
  case (Perform op k)
  then obtain t where t: "run_api_op N op s = Inr t" "run_client (run_api_op N) (k t) t = Inr (r, s')"
    by (auto simp: rbind_eq_Inr)
  with Perform.IH [OF rangeI t(2)] run_api_op_skipped [OF t(1)] show ?case by simp
qed simp

lemma EpollAlarmImpl_OnAlarm_result:
  assumes "EpollAlarmImpl_OnAlarm N Fire al s = Some (Inr (t, s'))"
  shows "t = 0" "skipped s' = skipped s"
  using assms run_client_skipped [of N "Fire al" "snd (EpollAlarm_OnAlarm al s)"]
  by (auto simp: EpollAlarmImpl_OnAlarm_def Let_def rbind_eq_Inr EpollAlarm_OnAlarm_def upd_alarm_def)

lemma alarm_loop_skipped:
  assumes "alarm_loop on_alarm now i s = Some r"
    and z: "\<And>al s t s'. on_alarm al s = Some (Inr (t, s')) \<Longrightarrow> t = 0 \<and> skipped s' = skipped s"
  shows "case r of Inl e \<Rightarrow> True | Inr s' \<Rightarrow> skipped s' = skipped s"
proof -
  let ?P = "\<lambda>on_alarm s r. (\<forall>al s t s'. on_alarm al s = Some (Inr (t, s')) \<longrightarrow> t = 0 \<and> skipped s' = skipped s) \<longrightarrow>
      (case r of Inl e \<Rightarrow> True | Inr s' \<Rightarrow> skipped s' = skipped s)"
  have "?P on_alarm s r"
  proof (rule alarm_loop.raw_induct [where P = "\<lambda>f now i. ?P f", OF _ assms(1)], intro impI, goal_cases)
    case (1 f on_alarm now i s y)
    note IH = 1(1) [THEN mp, OF _ 1(3)]
    show ?case
    proof (cases "\<exists>k t al. i = Some k \<and> map_of (alarm_map s) k = Some (t, al) \<and> t \<le> now")
      case False
      with 1(2) show ?thesis by (auto split: option.splits if_splits)
    next
      case True
      then obtain k t al where k: "i = Some k" "map_of (alarm_map s) k = Some (t, al)" "t \<le> now" by blast
      show ?thesis
      proof (cases "al \<in> skipped s")
        case True
        with k 1(2) IH show ?thesis by simp
      next
        case False
        with k 1(2) obtain r where r: "on_alarm al (s\<lparr>all_alarms := all_alarms s - {al}\<rparr>) = Some r"
          and y: "(case r of Inl e \<Rightarrow> Some (Inl e) | Inr (t', s) \<Rightarrow> (case end_OnAlarm now k al t' s of
             Inl e \<Rightarrow> Some (Inl e) | Inr (i, s) \<Rightarrow> f on_alarm now i s)) = Some y"
          by (auto simp: bind_eq_Some_conv)
        show ?thesis
        proof (cases r)
          case (Inl e)
          with y show ?thesis by auto
        next
          case (Inr p)
          then obtain t' u where p: "r = Inr (t', u)" by (cases p) auto
          with r 1(3) have "t' = 0" "skipped u = skipped s" by fastforce+
          with y p IH [of now "next_iter k (alarm_map u)" "u\<lparr>alarm_map := AList.delete k (alarm_map u)\<rparr>" y]
          show ?thesis by (auto simp: end_OnAlarm_def split: if_splits sum.splits)
        qed
      qed
    qed
  qed
  with z show ?thesis by blast
qed

section \<open>Properties\<close>



text \<open>
  C34: A QuicEpollAlarm set for a deadline of its clock's ApproximateNow() plus a delay is filed
  by the event loop under exactly the clock reading plus the delay, in microseconds, behind every
  earlier alarm and before every later one; cancelling it puts the alarm map and the set of
  registered alarms back. QuicTime is assumed to add and subtract microseconds as documented.
\<close>

theorem alarm_deadline_matches_clock:
  assumes "\<And>a b. in_int64 (a + b) \<Longrightarrow> qd_ToMicroseconds Q (qt_Subtract Q
      (qt_Add Q (qt_Add Q (qt_Zero Q) (qd_FromMicroseconds Q a)) (qd_FromMicroseconds Q b)) (qt_Zero Q)) = a + b"
    and "alarm_wf None s" and "al \<notin> all_alarms s" and "recorded_now_in_us s \<noteq> 0"
    and "in_int64 (recorded_now_in_us s + delay)"
  shows "\<exists>s1 s2 xs ys. QuicEpollAlarm_SetImpl Q
        (qt_Add Q (fst (QuicEpollClock_ApproximateNow Q N s)) (qd_FromMicroseconds Q delay)) al s = Inr s1 \<and>
    alarm_map s1 = xs @ (next_token s, recorded_now_in_us s + delay, al) # ys \<and> alarm_map s = xs @ ys \<and>
    (\<forall>e \<in> set xs. alarm_time e \<le> recorded_now_in_us s + delay) \<and>
    (\<forall>e \<in> set ys. recorded_now_in_us s + delay < alarm_time e) \<and>
    QuicEpollAlarm_CancelImpl al s1 = Inr s2 \<and> alarm_map s2 = alarm_map s \<and> all_alarms s2 = all_alarms s"
proof -
  have "QuicEpollAlarm_SetImpl Q
        (qt_Add Q (fst (QuicEpollClock_ApproximateNow Q N s)) (qd_FromMicroseconds Q delay)) al s =
      RegisterAlarm (recorded_now_in_us s + delay) (Some al) s"
    using assms(1) [OF assms(5)] assms(4)
    by (simp add: QuicEpollAlarm_SetImpl_def QuicEpollClock_ApproximateNow_def ApproximateNowInUsec_def)
  with RegisterAlarm_new [OF assms(2,3), of "recorded_now_in_us s + delay"] show ?thesis
    unfolding QuicEpollAlarm_CancelImpl_def by fastforce
qed

definition int_time :: "(int, int) quic_time" where
  "int_time = \<lparr>qt_Zero = 0, qt_Add = (+), qt_Subtract = (-), qd_FromMicroseconds = id, qd_ToMicroseconds = id\<rparr>"

abbreviation busy_server where "busy_server \<equiv> ready_server\<lparr>recorded_now_in_us := 50\<rparr>"

lemma busy_server_wf: "alarm_wf None busy_server"
  using ready_server_quiescent by (simp add: quiescent_def server_ok_def es_inv_alarm_fields alarm_wf_def)

theorem alarm_deadline_matches_clock_witness:
  "\<exists>s1 s2 xs ys. QuicEpollAlarm_SetImpl int_time
        (qt_Add int_time (fst (QuicEpollClock_ApproximateNow int_time mem_epoll busy_server)) (qd_FromMicroseconds int_time 7)) 9
        busy_server = Inr s1 \<and>
    alarm_map s1 = xs @ (next_token busy_server, recorded_now_in_us busy_server + 7, 9) # ys \<and> alarm_map busy_server = xs @ ys \<and>
    (\<forall>e \<in> set xs. alarm_time e \<le> recorded_now_in_us busy_server + 7) \<and>
    (\<forall>e \<in> set ys. recorded_now_in_us busy_server + 7 < alarm_time e) \<and>
    QuicEpollAlarm_CancelImpl 9 s1 = Inr s2 \<and> alarm_map s2 = alarm_map busy_server \<and> all_alarms s2 = all_alarms busy_server"
  by (rule alarm_deadline_matches_clock [OF _ busy_server_wf])
    (simp_all add: int_time_def in_int64_def ready_server_def new_server_def)

end
