(* ===== verification/Socket_Utils.thy ===== *)
theory Socket_Utils
  imports Cmuquic_Prelude
begin

text \<open>
  \<open>QuicSocketUtils\<close> and \<open>SockaddrStorage\<close> (net/tools/quic/quic_socket_utils.cc and .h).

  The netdp socket calls and the IPEndPoint conversions of libquic are not part of the repository:
  they are the fields of \<open>netdp_sock\<close> and \<open>ip_endpoint\<close>, parameters of the operations. A socket
  call returns its result together with errno. The constants are those of the Linux headers.
\<close>

type_synonym byte = "8 word"
type_synonym ip_address = "byte list"

definition AF_INET :: int where "AF_INET = 2"
definition AF_INET6 :: int where "AF_INET6 = 10"
definition IPPROTO_IP :: int where "IPPROTO_IP = 0"
definition IPPROTO_IPV6 :: int where "IPPROTO_IPV6 = 41"
definition IP_PKTINFO :: int where "IP_PKTINFO = 8"
definition IPV6_RECVPKTINFO :: int where "IPV6_RECVPKTINFO = 49"
definition IPV6_PKTINFO :: int where "IPV6_PKTINFO = 50"
definition SOL_SOCKET :: int where "SOL_SOCKET = 1"
definition SO_SNDBUF :: int where "SO_SNDBUF = 7"
definition SO_RCVBUF :: int where "SO_RCVBUF = 8"
definition SO_RXQ_OVFL :: int where "SO_RXQ_OVFL = 40"
definition EAGAIN :: int where "EAGAIN = 11"

lemmas socket_constants = AF_INET_def AF_INET6_def IPPROTO_IP_def IPPROTO_IPV6_def IP_PKTINFO_def
  IPV6_RECVPKTINFO_def IPV6_PKTINFO_def SOL_SOCKET_def SO_SNDBUF_def SO_RCVBUF_def SO_RXQ_OVFL_def
  EAGAIN_def

record sockaddr_storage =
  ss_family :: int
  ss_data :: "byte list"

text \<open>
  What \<open>recvfrom\<close> leaves behind: its result and errno, the buffer's contents and the address
  structure, which holds whatever it held before when the call did not fill it in.
\<close>

record recv_result =
  rr_bytes :: int
  rr_errno :: int
  rr_data :: "byte list"
  rr_address :: sockaddr_storage

record 'w netdp_sock =
  netdpsock_setsockopt :: "int \<Rightarrow> int \<Rightarrow> int \<Rightarrow> int \<Rightarrow> 'w \<Rightarrow> int \<times> 'w"
  netdpsock_recvfrom :: "int \<Rightarrow> nat \<Rightarrow> 'w \<Rightarrow> recv_result \<times> 'w"
  netdpsock_sendto :: "int \<Rightarrow> byte list \<Rightarrow> sockaddr_storage \<Rightarrow> 'w \<Rightarrow> (int \<times> int) \<times> 'w"
  NETDP_EAGAIN :: int
  NETDP_EWOULDBLOCK :: int

record 'ep ip_endpoint =
  FromSockAddr :: "sockaddr_storage \<Rightarrow> nat \<Rightarrow> 'ep option"
  ToSockAddr :: "'ep \<Rightarrow> sockaddr_storage option"

section \<open>Control messages\<close>

text \<open>
  The control buffer of a \<open>msghdr\<close>, as the CMSG macros traverse it: its length and the list of
  \<open>cmsghdr\<close> structures with their payload.
\<close>

record cmsghdr =
  cmsg_len :: nat
  cmsg_level :: int
  cmsg_type :: int
  cmsg_data :: "byte list"

record msghdr =
  msg_controllen :: nat
  msg_cmsgs :: "cmsghdr list"

definition sizeof_in_pktinfo :: nat where "sizeof_in_pktinfo = 12"
definition sizeof_in6_pktinfo :: nat where "sizeof_in6_pktinfo = 20"
definition CMSG_LEN :: "nat \<Rightarrow> nat" where "CMSG_LEN n = 16 + n"

text \<open>\<open>ipi6_addr\<close> is at offset 0 of \<open>in6_pktinfo\<close>, \<open>ipi_addr\<close> at offset 8 of \<open>in_pktinfo\<close>.\<close>

fun find_pktinfo :: "cmsghdr list \<Rightarrow> ip_address" where
  "find_pktinfo [] = []"
| "find_pktinfo (c # cs) =
     (if cmsg_type c = IPV6_PKTINFO then take 16 (cmsg_data c)
      else if cmsg_type c = IP_PKTINFO then take 4 (drop 8 (cmsg_data c))
      else find_pktinfo cs)"

definition GetAddressFromMsghdr :: "msghdr \<Rightarrow> ip_address" where
  "GetAddressFromMsghdr h = (if msg_controllen h > 0 then find_pktinfo (msg_cmsgs h) else [])"

text \<open>A little-endian int, converted to the unsigned 64-bit \<open>QuicPacketCount\<close>.\<close>

definition le_int :: "byte list \<Rightarrow> int" where
  "le_int bs = int32_of (foldr (\<lambda>b n. uint b + 256 * n) (take 4 bs) 0)"

fun find_overflow :: "cmsghdr list \<Rightarrow> int option" where
  "find_overflow [] = None"
| "find_overflow (c # cs) =
     (if cmsg_type c = SO_RXQ_OVFL then Some (le_int (cmsg_data c) mod 2 ^ 64) else find_overflow cs)"

text \<open>The new value of \<open>*dropped_packets\<close> and the result.\<close>

definition GetOverflowFromMsghdr :: "msghdr \<Rightarrow> int \<Rightarrow> int \<times> bool" where
  "GetOverflowFromMsghdr h dropped =
     (if msg_controllen h > 0
      then case find_overflow (msg_cmsgs h) of None \<Rightarrow> (dropped, False) | Some n \<Rightarrow> (n, True)
      else (dropped, False))"

text \<open>\<open>memset\<close> the structure to zero, then \<open>memcpy\<close> the address to its offset.\<close>

definition memcpy_at :: "nat \<Rightarrow> byte list \<Rightarrow> byte list \<Rightarrow> byte list" where
  "memcpy_at i src dst = take i dst @ src @ drop (i + length src) dst"

definition SetIpInfoInCmsg :: "(ip_address \<Rightarrow> bool) \<Rightarrow> ip_address \<Rightarrow> cmsghdr \<Rightarrow> nat \<times> cmsghdr" where
  "SetIpInfoInCmsg is_ipv4 self_address c =
     (if is_ipv4 self_address
      then (sizeof_in_pktinfo,
            c\<lparr>cmsg_len := CMSG_LEN sizeof_in_pktinfo, cmsg_level := IPPROTO_IP, cmsg_type := IP_PKTINFO,
              cmsg_data := memcpy_at 4 self_address (replicate sizeof_in_pktinfo 0)\<rparr>)
      else (sizeof_in6_pktinfo,
            c\<lparr>cmsg_len := CMSG_LEN sizeof_in6_pktinfo, cmsg_level := IPPROTO_IPV6, cmsg_type := IPV6_PKTINFO,
              cmsg_data := memcpy_at 0 self_address (replicate sizeof_in6_pktinfo 0)\<rparr>))"

section \<open>Socket options\<close>

definition SetGetAddressInfo :: "('w, 'n) netdp_sock_scheme \<Rightarrow> int \<Rightarrow> int \<Rightarrow> 'w \<Rightarrow> int \<times> 'w" where
  "SetGetAddressInfo S fd address_family w =
     (let (rc, w) = netdpsock_setsockopt S fd IPPROTO_IP IP_PKTINFO 1 w
      in if rc = 0 \<and> address_family = AF_INET6
         then netdpsock_setsockopt S fd IPPROTO_IPV6 IPV6_RECVPKTINFO 1 w
         else (rc, w))"

definition SetSendBufferSize :: "('w, 'n) netdp_sock_scheme \<Rightarrow> int \<Rightarrow> int \<Rightarrow> 'w \<Rightarrow> bool \<times> 'w" where
  "SetSendBufferSize S fd sz w =
     (let (rc, w) = netdpsock_setsockopt S fd SOL_SOCKET SO_SNDBUF sz w in (rc = 0, w))"

definition SetReceiveBufferSize :: "('w, 'n) netdp_sock_scheme \<Rightarrow> int \<Rightarrow> int \<Rightarrow> 'w \<Rightarrow> bool \<times> 'w" where
  "SetReceiveBufferSize S fd sz w =
     (let (rc, w) = netdpsock_setsockopt S fd SOL_SOCKET SO_RCVBUF sz w in (rc = 0, w))"

section \<open>Packets\<close>

text \<open>
  \<open>ReadPacket\<close>: the result, errno afterwards, the bytes and the peer address. \<open>dropped_packets\<close> and
  \<open>self_address\<close> are not touched; the code that set them is compiled out.
\<close>

record 'ep read_packet =
  rp_result :: int
  rp_errno :: int
  rp_data :: "byte list"
  rp_peer :: 'ep

definition ReadPacket ::
  "('w, 'n) netdp_sock_scheme \<Rightarrow> ('ep, 'm) ip_endpoint_scheme \<Rightarrow> int \<Rightarrow> nat \<Rightarrow> 'ep \<Rightarrow> 'w \<Rightarrow>
   ('ep read_packet \<times> 'w) res" where
  "ReadPacket S E fd buf_len peer w =
     (let (r, w) = netdpsock_recvfrom S fd buf_len w;
          addr = rr_address r;
          rp = \<lparr>rp_result = rr_bytes r, rp_errno = rr_errno r, rp_data = rr_data r, rp_peer = peer\<rparr>
      in if rr_bytes r < 0 \<and> rr_errno r \<noteq> 0
         then Inr (rp\<lparr>rp_result := -1,
                      rp_errno := (if rr_errno r \<noteq> NETDP_EAGAIN S then rr_errno r else EAGAIN)\<rparr>, w)
         else if ss_family addr = AF_INET
         then (case FromSockAddr E addr 16 of
                 None \<Rightarrow> Inl (Check_failed ''FromSockAddr'')
               | Some p \<Rightarrow> Inr (rp\<lparr>rp_peer := p\<rparr>, w))
         else if ss_family addr = AF_INET6
         then (case FromSockAddr E addr 28 of
                 None \<Rightarrow> Inl (Check_failed ''FromSockAddr'')
               | Some p \<Rightarrow> Inr (rp\<lparr>rp_peer := p\<rparr>, w))
         else Inr (rp, w))"

datatype WriteStatus = WRITE_STATUS_OK | WRITE_STATUS_BLOCKED | WRITE_STATUS_ERROR

record WriteResult =
  wr_status :: WriteStatus
  wr_value :: int

definition WritePacket ::
  "('w, 'n) netdp_sock_scheme \<Rightarrow> ('ep, 'm) ip_endpoint_scheme \<Rightarrow> int \<Rightarrow> byte list \<Rightarrow> ip_address \<Rightarrow> 'ep \<Rightarrow>
   'w \<Rightarrow> (WriteResult \<times> 'w) res" where
  "WritePacket S E fd buffer self_address peer_address w =
     (case ToSockAddr E peer_address of
        None \<Rightarrow> Inl (Check_failed ''ToSockAddr'')
      | Some raw_address \<Rightarrow>
          let ((rc, errno), w) = netdpsock_sendto S fd buffer raw_address w
          in if rc \<ge> 0 then Inr (\<lparr>wr_status = WRITE_STATUS_OK, wr_value = int32_of rc\<rparr>, w)
             else Inr (\<lparr>wr_status = (if errno = NETDP_EAGAIN S \<or> errno = NETDP_EWOULDBLOCK S
                                     then WRITE_STATUS_BLOCKED else WRITE_STATUS_ERROR),
                        wr_value = errno\<rparr>, w))"

section \<open>SockaddrStorage\<close>

text \<open>
  A buffer of 128 bytes and the length in use. Copying takes the first \<open>addr_len\<close> bytes; the rest
  of the destination keeps its value (\<open>old\<close>, arbitrary for the copy constructor).
\<close>

record SockaddrStorage =
  addr_storage :: "byte list"
  addr_len :: nat

definition SockaddrStorage_new :: "byte list \<Rightarrow> SockaddrStorage" where
  "SockaddrStorage_new old = \<lparr>addr_storage = old, addr_len = 128\<rparr>"

definition SockaddrStorage_copy :: "byte list \<Rightarrow> SockaddrStorage \<Rightarrow> SockaddrStorage" where
  "SockaddrStorage_copy old other =
     \<lparr>addr_storage = memcpy_at 0 (take (addr_len other) (addr_storage other)) old, addr_len = addr_len other\<rparr>"

definition SockaddrStorage_assign :: "SockaddrStorage \<Rightarrow> SockaddrStorage \<Rightarrow> SockaddrStorage" where
  "SockaddrStorage_assign this other =
     this\<lparr>addr_storage := memcpy_at 0 (take (addr_len other) (addr_storage other)) (addr_storage this),
          addr_len := addr_len other\<rparr>"

section \<open>Lemmas\<close>

lemma length_memcpy_at [simp]:
  "i + length src \<le> length dst \<Longrightarrow> length (memcpy_at i src dst) = length dst"
  by (simp add: memcpy_at_def)

lemma memcpy_at_read:
  "i \<le> length dst \<Longrightarrow> take (length src) (drop i (memcpy_at i src dst)) = src"
  by (simp add: memcpy_at_def)

lemma find_pktinfo_skip:
  "(\<And>c. c \<in> set cs \<Longrightarrow> cmsg_type c \<noteq> IPV6_PKTINFO \<and> cmsg_type c \<noteq> IP_PKTINFO) \<Longrightarrow>
   find_pktinfo (cs @ ds) = find_pktinfo ds"
  by (induction cs) auto

lemma find_overflow_iff: "find_overflow cs \<noteq> None \<longleftrightarrow> (\<exists>c \<in> set cs. cmsg_type c = SO_RXQ_OVFL)"
  by (induction cs) auto

lemma ReadPacket_error:
  assumes "netdpsock_recvfrom S fd n w = (r, w')" "rr_bytes r < 0" "rr_errno r \<noteq> 0"
  obtains rp where "ReadPacket S E fd n peer w = Inr (rp, w')" "rp_result rp = -1" "rp_peer rp = peer"
    "rp_errno rp = EAGAIN \<longleftrightarrow> rr_errno r = NETDP_EAGAIN S \<or> rr_errno r = EAGAIN"
  using assms that by (auto simp: ReadPacket_def)

lemma WritePacket_status:
  assumes "WritePacket S E fd buf self peer w = Inr (r, w')"
  obtains raw rc errno where "ToSockAddr E peer = Some raw"
    "netdpsock_sendto S fd buf raw w = ((rc, errno), w')"
    "wr_status r = WRITE_STATUS_OK \<longleftrightarrow> rc \<ge> 0"
    "wr_status r = WRITE_STATUS_BLOCKED \<longleftrightarrow> rc < 0 \<and> (errno = NETDP_EAGAIN S \<or> errno = NETDP_EWOULDBLOCK S)"
  using assms that
  by (auto simp: WritePacket_def Let_def split: option.splits prod.splits if_splits)

section \<open>Properties\<close>


definition sample_recv :: recv_result where
  "sample_recv = \<lparr>rr_bytes = -1, rr_errno = 35, rr_data = [], rr_address = \<lparr>ss_family = 0, ss_data = []\<rparr>\<rparr>"

definition sample_sock :: "unit netdp_sock" where
  "sample_sock = \<lparr>
     netdpsock_setsockopt = (\<lambda>fd l opt v w. (0, w)),
     netdpsock_recvfrom = (\<lambda>fd n w. (sample_recv, w)),
     netdpsock_sendto = (\<lambda>fd bs a w. ((int (length bs), 0), w)),
     NETDP_EAGAIN = 35, NETDP_EWOULDBLOCK = 36\<rparr>"

definition sample_endpoint :: "int ip_endpoint" where
  "sample_endpoint = \<lparr>FromSockAddr = (\<lambda>a n. Some (ss_family a)), ToSockAddr = (\<lambda>e. Some \<lparr>ss_family = e, ss_data = []\<rparr>)\<rparr>"


text \<open>
  C36: For IPv6 the control message written by SetIpInfoInCmsg is the one GetAddressFromMsghdr
  reads: the address comes back whatever other control messages precede it, and the structure is
  filled to exactly its declared length.
\<close>

theorem pktinfo_ipv6_roundtrip:
  assumes "length a = 16" and "\<not> is_ipv4 a"
    and "\<And>d. d \<in> set before \<Longrightarrow> cmsg_type d \<noteq> IPV6_PKTINFO \<and> cmsg_type d \<noteq> IP_PKTINFO"
  shows "GetAddressFromMsghdr \<lparr>msg_controllen = CMSG_LEN sizeof_in6_pktinfo,
      msg_cmsgs = before @ snd (SetIpInfoInCmsg is_ipv4 a c) # after\<rparr> = a \<and>
    fst (SetIpInfoInCmsg is_ipv4 a c) = length (cmsg_data (snd (SetIpInfoInCmsg is_ipv4 a c)))"
proof -
  have "find_pktinfo (before @ snd (SetIpInfoInCmsg is_ipv4 a c) # after) =
      find_pktinfo (snd (SetIpInfoInCmsg is_ipv4 a c) # after)"
    using assms(3) by (rule find_pktinfo_skip)
  moreover have "take 16 (memcpy_at 0 a (replicate sizeof_in6_pktinfo 0)) = a"
    using memcpy_at_read [of 0 "replicate sizeof_in6_pktinfo 0" a] assms(1) by simp
  ultimately show ?thesis using assms(1,2)
    by (simp add: GetAddressFromMsghdr_def SetIpInfoInCmsg_def CMSG_LEN_def sizeof_in6_pktinfo_def)
qed

theorem pktinfo_ipv6_roundtrip_witness:
  "GetAddressFromMsghdr \<lparr>msg_controllen = CMSG_LEN sizeof_in6_pktinfo,
      msg_cmsgs = [\<lparr>cmsg_len = 20, cmsg_level = 1, cmsg_type = SO_RXQ_OVFL, cmsg_data = [1, 0, 0, 0]\<rparr>] @
        snd (SetIpInfoInCmsg (\<lambda>a. length a = 4) (replicate 16 7) \<lparr>cmsg_len = 0, cmsg_level = 0, cmsg_type = 0, cmsg_data = []\<rparr>) # []\<rparr>
      = replicate 16 7 \<and>
    fst (SetIpInfoInCmsg (\<lambda>a. length a = 4) (replicate 16 7) \<lparr>cmsg_len = 0, cmsg_level = 0, cmsg_type = 0, cmsg_data = []\<rparr>) =
    length (cmsg_data (snd (SetIpInfoInCmsg (\<lambda>a. length a = 4) (replicate 16 7) \<lparr>cmsg_len = 0, cmsg_level = 0, cmsg_type = 0, cmsg_data = []\<rparr>)))"
  by (rule pktinfo_ipv6_roundtrip) (simp_all add: socket_constants)

end
