(* ===== verification/Packet_Writer.thy ===== *)
theory Packet_Writer
  imports Socket_Utils
begin

text \<open>
  \<open>QuicDefaultPacketWriter\<close> (net/tools/quic/quic_default_packet_writer.cc and .h) and the
  interface \<open>QuicPacketWriter\<close> the dispatcher, the sessions and the time-wait list write through.

  The interface is a record of functions on a state \<open>'x\<close>; the locale \<open>packet_writer\<close> states what its
  users rely on and is interpreted for the default writer, whose state is the object and the world.
\<close>

record QuicDefaultPacketWriter =
  pw_fd :: int
  pw_write_blocked :: bool

definition QuicDefaultPacketWriter_new :: "int \<Rightarrow> QuicDefaultPacketWriter" where
  "QuicDefaultPacketWriter_new fd = \<lparr>pw_fd = fd, pw_write_blocked = False\<rparr>"

definition writer_WritePacket ::
  "('w, 'n) netdp_sock_scheme \<Rightarrow> ('ep, 'm) ip_endpoint_scheme \<Rightarrow> byte list \<Rightarrow> ip_address \<Rightarrow> 'ep \<Rightarrow>
   QuicDefaultPacketWriter \<times> 'w \<Rightarrow> (WriteResult \<times> QuicDefaultPacketWriter \<times> 'w) res" where
  "writer_WritePacket S E buffer self_address peer_address = (\<lambda>(pw, w).
     rbind (WritePacket S E (pw_fd pw) buffer self_address peer_address w) (\<lambda>(r, w).
     Inr (r, (if wr_status r = WRITE_STATUS_BLOCKED then pw\<lparr>pw_write_blocked := True\<rparr> else pw), w)))"

definition writer_IsWriteBlockedDataBuffered :: "QuicDefaultPacketWriter \<Rightarrow> bool" where
  "writer_IsWriteBlockedDataBuffered pw = False"

definition writer_IsWriteBlocked :: "QuicDefaultPacketWriter \<Rightarrow> bool" where
  "writer_IsWriteBlocked pw = pw_write_blocked pw"

definition writer_SetWritable :: "QuicDefaultPacketWriter \<Rightarrow> QuicDefaultPacketWriter" where
  "writer_SetWritable pw = pw\<lparr>pw_write_blocked := False\<rparr>"

definition writer_set_fd :: "int \<Rightarrow> QuicDefaultPacketWriter \<Rightarrow> QuicDefaultPacketWriter" where
  "writer_set_fd fd pw = pw\<lparr>pw_fd := fd\<rparr>"

section \<open>The interface\<close>

record ('ep, 'x) QuicPacketWriter =
  qw_write :: "byte list \<Rightarrow> ip_address \<Rightarrow> 'ep \<Rightarrow> 'x \<Rightarrow> (WriteResult \<times> 'x) res"
  qw_buffered :: "'x \<Rightarrow> bool"
  qw_blocked :: "'x \<Rightarrow> bool"
  qw_set_writable :: "'x \<Rightarrow> 'x"

locale packet_writer =
  fixes W :: "('ep, 'x) QuicPacketWriter"
  assumes blocked_after_write:
      "qw_write W buf self peer x = Inr (r, x') \<Longrightarrow>
       qw_blocked W x' \<longleftrightarrow> qw_blocked W x \<or> wr_status r = WRITE_STATUS_BLOCKED"
    and write_aborts: "qw_write W buf self peer x = Inl e \<Longrightarrow> benign e"
    and set_writable: "\<not> qw_blocked W (qw_set_writable W x)"
begin

lemma write_unblocked_ok:
  assumes "qw_write W buf self peer x = Inr (r, x')" "\<not> qw_blocked W x'"
  shows "wr_status r \<noteq> WRITE_STATUS_BLOCKED" "\<not> qw_blocked W x"
  using blocked_after_write [OF assms(1)] assms(2) by auto

end

definition default_writer ::
  "('w, 'n) netdp_sock_scheme \<Rightarrow> ('ep, 'm) ip_endpoint_scheme \<Rightarrow>
   ('ep, QuicDefaultPacketWriter \<times> 'w) QuicPacketWriter" where
  "default_writer S E = \<lparr>
     qw_write = writer_WritePacket S E,
     qw_buffered = (\<lambda>(pw, w). writer_IsWriteBlockedDataBuffered pw),
     qw_blocked = (\<lambda>(pw, w). writer_IsWriteBlocked pw),
     qw_set_writable = (\<lambda>(pw, w). (writer_SetWritable pw, w))\<rparr>"

interpretation dw: packet_writer "default_writer S E" for S E
  by unfold_locales
    (auto simp: default_writer_def writer_WritePacket_def rbind_def WritePacket_def Let_def
      writer_IsWriteBlocked_def writer_SetWritable_def split: if_splits option.splits sum.splits prod.splits)

section \<open>Properties\<close>

text \<open>
  C28: The default writer becomes write-blocked exactly when the stack reports would-block
  (NETDP_EAGAIN or NETDP_EWOULDBLOCK) for a send, stays blocked until SetWritable, and never claims
  to have buffered the packet, so a blocked caller still owns it.
\<close>

theorem writer_blocks_on_would_block:
  assumes "writer_WritePacket S E buf self peer (pw, w) = Inr (r, pw', w')"
  shows "\<exists>raw rc errno. ToSockAddr E peer = Some raw \<and> netdpsock_sendto S (pw_fd pw) buf raw w = ((rc, errno), w') \<and>
    (writer_IsWriteBlocked pw' \<longleftrightarrow> writer_IsWriteBlocked pw \<or>
       rc < 0 \<and> (errno = NETDP_EAGAIN S \<or> errno = NETDP_EWOULDBLOCK S)) \<and>
    \<not> writer_IsWriteBlockedDataBuffered pw' \<and> \<not> writer_IsWriteBlocked (writer_SetWritable pw')"
proof -
  from assms obtain r0 where r0: "WritePacket S E (pw_fd pw) buf self peer w = Inr (r0, w')" "r = r0"
    by (auto simp: writer_WritePacket_def rbind_eq_Inr)
  obtain raw rc errno where "ToSockAddr E peer = Some raw" "netdpsock_sendto S (pw_fd pw) buf raw w = ((rc, errno), w')"
    "wr_status r0 = WRITE_STATUS_BLOCKED \<longleftrightarrow> rc < 0 \<and> (errno = NETDP_EAGAIN S \<or> errno = NETDP_EWOULDBLOCK S)"
    by (rule WritePacket_status [OF r0(1)])
  moreover have "writer_IsWriteBlocked pw' \<longleftrightarrow> writer_IsWriteBlocked pw \<or> wr_status r = WRITE_STATUS_BLOCKED"
    using dw.blocked_after_write [of S E buf self peer "(pw, w)" r "(pw', w')"] assms
    by (simp add: default_writer_def)
  ultimately show ?thesis using r0(2)
    by (auto simp: writer_IsWriteBlockedDataBuffered_def writer_IsWriteBlocked_def writer_SetWritable_def)
qed

theorem writer_blocks_on_would_block_witness:
  "\<exists>raw rc errno. ToSockAddr sample_endpoint 2 = Some raw \<and>
    netdpsock_sendto sample_sock (pw_fd (QuicDefaultPacketWriter_new 3)) [1, 2] raw () = ((rc, errno), ()) \<and>
    (writer_IsWriteBlocked (QuicDefaultPacketWriter_new 3) \<longleftrightarrow> writer_IsWriteBlocked (QuicDefaultPacketWriter_new 3) \<or>
       rc < 0 \<and> (errno = NETDP_EAGAIN sample_sock \<or> errno = NETDP_EWOULDBLOCK sample_sock)) \<and>
    \<not> writer_IsWriteBlockedDataBuffered (QuicDefaultPacketWriter_new 3) \<and>
    \<not> writer_IsWriteBlocked (writer_SetWritable (QuicDefaultPacketWriter_new 3))"
  by (rule writer_blocks_on_would_block [of sample_sock sample_endpoint "[1, 2]" "[]" 2 _ _
        "\<lparr>wr_status = WRITE_STATUS_OK, wr_value = 2\<rparr>"])
     (simp add: writer_WritePacket_def WritePacket_def sample_sock_def sample_endpoint_def
        QuicDefaultPacketWriter_new_def int32_of_def)

end
