(* ===== verification/Time_Wait.thy ===== *)
theory Time_Wait
  imports Packet_Writer "HOL-Library.Log_Nat"
begin

unbundle bit_operations_syntax

text \<open>
  \<open>QuicTimeWaitListManager\<close> (net/tools/quic/quic_time_wait_list_manager.cc and .h).

  \<open>connection_id_map_\<close>, a linked_hash_map, is an association list in the order of insertion. The
  packet writer, the clock and libquic's QuicTime, QuicAlarm and QuicFramer are parameters
  (\<open>tw_lib\<close>); \<open>tw_world\<close> is the state of the writer and of everything behind it. Calls on the visitor
  (the dispatcher) and on the clean-up alarm are logged in order.
\<close>

type_synonym QuicConnectionId = "64 word"

record 'ep public_reset =
  prst_connection_id :: QuicConnectionId
  prst_reset_flag :: bool
  prst_version_flag :: bool
  prst_rejected_sequence_number :: nat
  prst_nonce_proof :: nat
  prst_client_address :: 'ep

record ('ep, 't, 'd, 'x) tw_lib =
  tw_writer :: "('ep, 'x) QuicPacketWriter"
  ep_address :: "'ep \<Rightarrow> ip_address"
  BuildPublicResetPacket :: "'ep public_reset \<Rightarrow> byte list"
  ApproximateNow :: "'x \<Rightarrow> 't \<times> 'x"
  t_add :: "'t \<Rightarrow> 'd \<Rightarrow> 't"
  t_diff :: "'t \<Rightarrow> 't \<Rightarrow> 'd"
  t_minus :: "'t \<Rightarrow> 'd \<Rightarrow> 't"
  t_gt :: "'t \<Rightarrow> 't \<Rightarrow> bool"
  t_infinite :: 't
  d_lt :: "'d \<Rightarrow> 'd \<Rightarrow> bool"
  d_zero :: 'd
  d_from_seconds :: "int \<Rightarrow> 'd"
  FLAGS_quic_time_wait_list_seconds :: int
  FLAGS_quic_time_wait_list_max_connections :: int

section \<open>State\<close>

record 'ep QueuedPacket =
  qp_server_address :: 'ep
  qp_client_address :: 'ep
  qp_packet :: "byte list"

record ('t, 'v) ConnectionIdData =
  cd_num_packets :: int
  cd_version :: 'v
  cd_time_added :: 't
  cd_close_packet :: "byte list option"

datatype tw_visit =
    OnWriteBlocked
  | OnConnectionAddedToTimeWaitList QuicConnectionId
  | OnConnectionRemovedFromTimeWaitList QuicConnectionId

datatype 't alarm_call = Alarm_Cancel | Alarm_Set 't

record ('ep, 't, 'd, 'v, 'x) QuicTimeWaitListManager =
  connection_id_map :: "(QuicConnectionId \<times> ('t, 'v) ConnectionIdData) list"
  pending_packets_queue :: "'ep QueuedPacket list"
  time_wait_period :: 'd
  tw_visits :: "tw_visit list"
  tw_alarm_calls :: "'t alarm_call list"
  tw_world :: 'x

type_synonym ('ep, 't, 'd, 'v, 'x) tw = "('ep, 't, 'd, 'v, 'x) QuicTimeWaitListManager"

definition tw_visit_log :: "tw_visit \<Rightarrow> ('ep, 't, 'd, 'v, 'x) tw \<Rightarrow> ('ep, 't, 'd, 'v, 'x) tw" where
  "tw_visit_log v m = m\<lparr>tw_visits := tw_visits m @ [v]\<rparr>"

definition tw_alarm :: "'t alarm_call \<Rightarrow> ('ep, 't, 'd, 'v, 'x) tw \<Rightarrow> ('ep, 't, 'd, 'v, 'x) tw" where
  "tw_alarm c m = m\<lparr>tw_alarm_calls := tw_alarm_calls m @ [c]\<rparr>"

definition tw_now :: "('ep, 't, 'd, 'x) tw_lib \<Rightarrow> ('ep, 't, 'd, 'v, 'x) tw \<Rightarrow> 't \<times> ('ep, 't, 'd, 'v, 'x) tw" where
  "tw_now L m = (let (t, x) = ApproximateNow L (tw_world m) in (t, m\<lparr>tw_world := x\<rparr>))"

definition num_connections :: "('ep, 't, 'd, 'v, 'x) tw \<Rightarrow> nat" where
  "num_connections m = length (connection_id_map m)"

section \<open>Operations\<close>

definition SetConnectionIdCleanUpAlarm ::
  "('ep, 't, 'd, 'x) tw_lib \<Rightarrow> ('ep, 't, 'd, 'v, 'x) tw \<Rightarrow> ('ep, 't, 'd, 'v, 'x) tw" where
  "SetConnectionIdCleanUpAlarm L m =
     (let m = tw_alarm Alarm_Cancel m;
          (next_alarm_interval, m) =
            (case connection_id_map m of
               [] \<Rightarrow> (time_wait_period m, m)
             | (_, data) # _ \<Rightarrow>
                 let oldest = cd_time_added data;
                     (now, m) = tw_now L m
                 in if d_lt L (t_diff L now oldest) (time_wait_period m)
                    then (t_diff L (t_add L oldest (time_wait_period m)) now, m)
                    else (d_zero L, m));
          (now, m) = tw_now L m
      in tw_alarm (Alarm_Set (t_add L now next_alarm_interval)) m)"

definition QuicTimeWaitListManager_new ::
  "('ep, 't, 'd, 'x) tw_lib \<Rightarrow> 'x \<Rightarrow> ('ep, 't, 'd, 'v, 'x) tw" where
  "QuicTimeWaitListManager_new L x =
     SetConnectionIdCleanUpAlarm L
       \<lparr>connection_id_map = [], pending_packets_queue = [],
        time_wait_period = d_from_seconds L (FLAGS_quic_time_wait_list_seconds L),
        tw_visits = [], tw_alarm_calls = [], tw_world = x\<rparr>"

definition QuicTimeWaitListManager_delete ::
  "('ep, 't, 'd, 'v, 'x) tw \<Rightarrow> ('ep, 't, 'd, 'v, 'x) tw" where
  "QuicTimeWaitListManager_delete m =
     (tw_alarm Alarm_Cancel m)\<lparr>pending_packets_queue := [], connection_id_map := []\<rparr>"

definition MaybeExpireOldestConnection ::
  "('ep, 't, 'd, 'x) tw_lib \<Rightarrow> 't \<Rightarrow> ('ep, 't, 'd, 'v, 'x) tw \<Rightarrow> bool \<times> ('ep, 't, 'd, 'v, 'x) tw" where
  "MaybeExpireOldestConnection L expiration_time m =
     (case connection_id_map m of
        [] \<Rightarrow> (False, m)
      | (connection_id, data) # rest \<Rightarrow>
          if t_gt L (cd_time_added data) expiration_time then (False, m)
          else (True, tw_visit_log (OnConnectionRemovedFromTimeWaitList connection_id)
                        (m\<lparr>connection_id_map := rest\<rparr>)))"

text \<open>The empty-bodied loop of \<open>CleanUpOldConnectionIds\<close>; it removes an entry in every turn.\<close>

function expire_loop ::
  "('ep, 't, 'd, 'x) tw_lib \<Rightarrow> 't \<Rightarrow> ('ep, 't, 'd, 'v, 'x) tw \<Rightarrow> ('ep, 't, 'd, 'v, 'x) tw" where
  "expire_loop L t m =
     (case MaybeExpireOldestConnection L t m of
        (True, m') \<Rightarrow> expire_loop L t m'
      | (False, m') \<Rightarrow> m')"
  by pat_completeness auto
termination
  by (relation "measure (\<lambda>(L, t, m). num_connections m)")
     (auto simp: MaybeExpireOldestConnection_def num_connections_def tw_visit_log_def
       split: list.splits if_splits)

declare expire_loop.simps [simp del]

definition CleanUpOldConnectionIds ::
  "('ep, 't, 'd, 'x) tw_lib \<Rightarrow> ('ep, 't, 'd, 'v, 'x) tw \<Rightarrow> ('ep, 't, 'd, 'v, 'x) tw" where
  "CleanUpOldConnectionIds L m =
     (let (now, m) = tw_now L m;
          expiration = t_minus L now (time_wait_period m)
      in SetConnectionIdCleanUpAlarm L (expire_loop L expiration m))"

text \<open>The loop of \<open>TrimTimeWaitListIfNeeded\<close>; with a limit of 0 it never ends.\<close>

partial_function (option) trim_loop ::
  "('ep, 't, 'd, 'x) tw_lib \<Rightarrow> ('ep, 't, 'd, 'v, 'x) tw \<Rightarrow> ('ep, 't, 'd, 'v, 'x) tw option" where
  "trim_loop L m =
     (if int (num_connections m) \<ge> FLAGS_quic_time_wait_list_max_connections L
      then trim_loop L (snd (MaybeExpireOldestConnection L (t_infinite L) m))
      else Some m)"

definition TrimTimeWaitListIfNeeded ::
  "('ep, 't, 'd, 'x) tw_lib \<Rightarrow> ('ep, 't, 'd, 'v, 'x) tw \<Rightarrow> ('ep, 't, 'd, 'v, 'x) tw option" where
  "TrimTimeWaitListIfNeeded L m =
     (if FLAGS_quic_time_wait_list_max_connections L < 0 then Some m else trim_loop L m)"

definition AddConnectionIdToTimeWait ::
  "('ep, 't, 'd, 'x) tw_lib \<Rightarrow> QuicConnectionId \<Rightarrow> 'v \<Rightarrow> byte list option \<Rightarrow>
   ('ep, 't, 'd, 'v, 'x) tw \<Rightarrow> ('ep, 't, 'd, 'v, 'x) tw option" where
  "AddConnectionIdToTimeWait L connection_id version close_packet m =
     (let (num_packets, new_connection_id, m) =
            (case map_of (connection_id_map m) connection_id of
               None \<Rightarrow> (0, True, m)
             | Some data \<Rightarrow>
                 (cd_num_packets data, False,
                  m\<lparr>connection_id_map := AList.delete connection_id (connection_id_map m)\<rparr>))
      in Option.bind (TrimTimeWaitListIfNeeded L m) (\<lambda>m.
         let (now, m) = tw_now L m;
             data = \<lparr>cd_num_packets = num_packets, cd_version = version, cd_time_added = now,
                     cd_close_packet = close_packet\<rparr>;
             m = m\<lparr>connection_id_map := connection_id_map m @ [(connection_id, data)]\<rparr>
         in Some (if new_connection_id then tw_visit_log (OnConnectionAddedToTimeWaitList connection_id) m
                  else m)))"

definition IsConnectionIdInTimeWait :: "QuicConnectionId \<Rightarrow> ('ep, 't, 'd, 'v, 'x) tw \<Rightarrow> bool" where
  "IsConnectionIdInTimeWait connection_id m \<longleftrightarrow> map_of (connection_id_map m) connection_id \<noteq> None"

text \<open>Dereferencing \<open>end()\<close>, which a DCHECK rules out in debug builds, is \<open>Dangling\<close>.\<close>

definition GetQuicVersionFromConnectionId :: "QuicConnectionId \<Rightarrow> ('ep, 't, 'd, 'v, 'x) tw \<Rightarrow> 'v res" where
  "GetQuicVersionFromConnectionId connection_id m =
     (case map_of (connection_id_map m) connection_id of
        None \<Rightarrow> Inl Dangling
      | Some data \<Rightarrow> Inr (cd_version data))"

subsection \<open>Sending\<close>

definition WriteToWire ::
  "('ep, 't, 'd, 'x) tw_lib \<Rightarrow> 'ep QueuedPacket \<Rightarrow> ('ep, 't, 'd, 'v, 'x) tw \<Rightarrow>
   (bool \<times> ('ep, 't, 'd, 'v, 'x) tw) res" where
  "WriteToWire L p m =
     (if qw_blocked (tw_writer L) (tw_world m) then Inr (False, tw_visit_log OnWriteBlocked m)
      else rbind (qw_write (tw_writer L) (qp_packet p) (ep_address L (qp_server_address p))
                    (qp_client_address p) (tw_world m)) (\<lambda>(result, x).
           let m = m\<lparr>tw_world := x\<rparr>
           in if wr_status result = WRITE_STATUS_BLOCKED
              then Inr (qw_buffered (tw_writer L) x, tw_visit_log OnWriteBlocked m)
              else Inr (True, m)))"

definition SendOrQueuePacket ::
  "('ep, 't, 'd, 'x) tw_lib \<Rightarrow> 'ep QueuedPacket \<Rightarrow> ('ep, 't, 'd, 'v, 'x) tw \<Rightarrow>
   ('ep, 't, 'd, 'v, 'x) tw res" where
  "SendOrQueuePacket L p m =
     rbind (WriteToWire L p m) (\<lambda>(sent, m).
     Inr (if sent then m else m\<lparr>pending_packets_queue := pending_packets_queue m @ [p]\<rparr>))"

definition SendPublicReset ::
  "('ep, 't, 'd, 'x) tw_lib \<Rightarrow> 'ep \<Rightarrow> 'ep \<Rightarrow> QuicConnectionId \<Rightarrow> nat \<Rightarrow>
   ('ep, 't, 'd, 'v, 'x) tw \<Rightarrow> ('ep, 't, 'd, 'v, 'x) tw res" where
  "SendPublicReset L server_address client_address connection_id rejected_sequence_number m =
     (let packet = \<lparr>prst_connection_id = connection_id, prst_reset_flag = True, prst_version_flag = False,
                    prst_rejected_sequence_number = rejected_sequence_number,
                    prst_nonce_proof = 1010101, prst_client_address = client_address\<rparr>
      in SendOrQueuePacket L
           \<lparr>qp_server_address = server_address, qp_client_address = client_address,
            qp_packet = BuildPublicResetPacket L packet\<rparr> m)"

definition ShouldSendResponse :: "int \<Rightarrow> bool" where
  "ShouldSendResponse received_packet_count \<longleftrightarrow> received_packet_count AND (received_packet_count - 1) = 0"

definition tw_ProcessPacket ::
  "('ep, 't, 'd, 'x) tw_lib \<Rightarrow> 'ep \<Rightarrow> 'ep \<Rightarrow> QuicConnectionId \<Rightarrow> nat \<Rightarrow>
   ('ep, 't, 'd, 'v, 'x) tw \<Rightarrow> ('ep, 't, 'd, 'v, 'x) tw res" where
  "tw_ProcessPacket L server_address client_address connection_id sequence_number m =
     (case map_of (connection_id_map m) connection_id of
        None \<Rightarrow> Inl Dangling
      | Some data \<Rightarrow>
          let num_packets = int32_of (cd_num_packets data + 1);
              m = m\<lparr>connection_id_map :=
                      AList.update connection_id (data\<lparr>cd_num_packets := num_packets\<rparr>) (connection_id_map m)\<rparr>
          in if \<not> ShouldSendResponse num_packets then Inr m
             else case cd_close_packet data of
                    Some close_packet \<Rightarrow>
                      SendOrQueuePacket L
                        \<lparr>qp_server_address = server_address, qp_client_address = client_address,
                         qp_packet = close_packet\<rparr> m
                  | None \<Rightarrow> SendPublicReset L server_address client_address connection_id sequence_number m)"

text \<open>\<open>OnCanWrite\<close> works through the queue from the front; \<open>flush_queue\<close> is its loop.\<close>

fun flush_queue ::
  "('ep, 't, 'd, 'x) tw_lib \<Rightarrow> 'ep QueuedPacket list \<Rightarrow> ('ep, 't, 'd, 'v, 'x) tw \<Rightarrow>
   ('ep, 't, 'd, 'v, 'x) tw res" where
  "flush_queue L [] m = Inr m"
| "flush_queue L (p # ps) m =
     rbind (WriteToWire L p m) (\<lambda>(sent, m).
     if sent then flush_queue L ps (m\<lparr>pending_packets_queue := ps\<rparr>) else Inr m)"

definition tw_OnCanWrite ::
  "('ep, 't, 'd, 'x) tw_lib \<Rightarrow> ('ep, 't, 'd, 'v, 'x) tw \<Rightarrow> ('ep, 't, 'd, 'v, 'x) tw res" where
  "tw_OnCanWrite L m = flush_queue L (pending_packets_queue m) m"

section \<open>Response throttling\<close>

lemma ShouldSendResponse_rec:
  assumes "n > 0"
  shows "ShouldSendResponse n \<longleftrightarrow> n = 1 \<or> even n \<and> ShouldSendResponse (n div 2)"
proof (cases "even n")
  case True
  then obtain m where m: "n = 2 * m" by blast
  with assms have "m > 0" by simp
  have "(n - 1) div 2 = m - 1" using m by simp
  then have "n AND (n - 1) = 2 * (m AND (m - 1))"
    using m by (subst and_rec) simp
  with m True show ?thesis by (auto simp: ShouldSendResponse_def)
next
  case False
  then have "(n - 1) div 2 = n div 2" by (auto elim!: oddE)
  then have "n AND (n - 1) = 2 * (n div 2)" using False by (subst and_rec) simp
  moreover have "2 * (n div 2) = 0 \<longleftrightarrow> n = 1" using assms False by (auto elim!: oddE)
  ultimately show ?thesis using False by (simp add: ShouldSendResponse_def)
qed

lemma ShouldSendResponse_power: "n > 0 \<Longrightarrow> ShouldSendResponse (int n) \<longleftrightarrow> (\<exists>k. n = 2 ^ k)"
proof (induction n rule: less_induct)
  case (less n)
  have rec: "ShouldSendResponse (int n) \<longleftrightarrow> n = 1 \<or> even n \<and> ShouldSendResponse (int (n div 2))"
    using ShouldSendResponse_rec [of "int n"] less.prems by (simp add: zdiv_int)
  show ?case
  proof (cases "n = 1")
    case True
    then show ?thesis using rec by (auto intro: exI [of _ 0])
  next
    case False
    have IH: "even n \<Longrightarrow> ShouldSendResponse (int (n div 2)) \<longleftrightarrow> (\<exists>k. n div 2 = 2 ^ k)"
      using less.IH [of "n div 2"] less.prems False by (auto elim!: evenE)
    have "(\<exists>k. n = 2 ^ k) \<longleftrightarrow> even n \<and> (\<exists>k. n div 2 = 2 ^ k)"
    proof
      assume "\<exists>k. n = 2 ^ k"
      then obtain k where k: "n = 2 ^ k" by blast
      with False obtain j where "k = Suc j" by (cases k) auto
      with k show "even n \<and> (\<exists>k. n div 2 = 2 ^ k)" by auto
    next
      assume "even n \<and> (\<exists>k. n div 2 = 2 ^ k)"
      then obtain k where "even n" "n div 2 = 2 ^ k" by blast
      then have "n = 2 ^ Suc k" by auto
      then show "\<exists>k. n = 2 ^ k" by blast
    qed
    with rec IH False show ?thesis by blast
  qed
qed

lemma powers_upto: "n > 0 \<Longrightarrow> {m \<in> {1..n}. \<exists>k. m = 2 ^ k} = (\<lambda>k. 2 ^ k) ` {..< floorlog 2 n}"
proof -
  assume n: "n > 0"
  have iff: "(2::nat) ^ k \<le> n \<longleftrightarrow> k < floorlog 2 n" for k
  proof
    assume "2 ^ k \<le> n"
    moreover have "n < 2 ^ floorlog 2 n" using floorlog_bounds [of n 2] n by simp
    ultimately have "(2::nat) ^ k < 2 ^ floorlog 2 n" by (rule le_less_trans)
    then show "k < floorlog 2 n" by (rule power_less_imp_less_exp [rotated]) simp
  next
    assume "k < floorlog 2 n"
    then have "(2::nat) ^ k \<le> 2 ^ (floorlog 2 n - 1)" by (intro power_increasing) auto
    also have "\<dots> \<le> n" using floorlog_bounds [of n 2] n by simp
    finally show "2 ^ k \<le> n" .
  qed
  have "{m \<in> {1..n}. \<exists>k. m = 2 ^ k} = {m. \<exists>k. m = 2 ^ k \<and> m \<le> n}" by (auto simp: Suc_le_eq)
  also have "\<dots> = {m. \<exists>k. m = 2 ^ k \<and> k < floorlog 2 n}" using iff by blast
  finally show ?thesis by blast
qed

section \<open>Expiry and trimming\<close>

lemma expire_loop_map:
  "connection_id_map (expire_loop L t m) = dropWhile (\<lambda>e. \<not> t_gt L (cd_time_added (snd e)) t) (connection_id_map m)"
proof (induction "connection_id_map m" arbitrary: m)
  case Nil
  then show ?case by (simp add: expire_loop.simps MaybeExpireOldestConnection_def flip: Nil)
next
  case (Cons e es)
  obtain c d where [simp]: "e = (c, d)" by (cases e)
  have m: "connection_id_map m = (c, d) # es" using Cons.hyps(2) by simp
  let ?m = "tw_visit_log (OnConnectionRemovedFromTimeWaitList c) (m\<lparr>connection_id_map := es\<rparr>)"
  have "connection_id_map ?m = es" by (simp add: tw_visit_log_def)
  with Cons.hyps(1) [of ?m] m show ?case
    by (subst expire_loop.simps) (simp add: MaybeExpireOldestConnection_def)
qed

lemma expire_loop_visits:
  "tw_visits (expire_loop L t m) = tw_visits m @
     map (OnConnectionRemovedFromTimeWaitList \<circ> fst)
       (takeWhile (\<lambda>e. \<not> t_gt L (cd_time_added (snd e)) t) (connection_id_map m))"
proof (induction "connection_id_map m" arbitrary: m)
  case Nil
  then show ?case by (simp add: expire_loop.simps MaybeExpireOldestConnection_def flip: Nil)
next
  case (Cons e es)
  obtain c d where [simp]: "e = (c, d)" by (cases e)
  have m: "connection_id_map m = (c, d) # es" using Cons.hyps(2) by simp
  let ?m = "tw_visit_log (OnConnectionRemovedFromTimeWaitList c) (m\<lparr>connection_id_map := es\<rparr>)"
  have "connection_id_map ?m = es" by (simp add: tw_visit_log_def)
  with Cons.hyps(1) [of ?m] m show ?case
    by (subst expire_loop.simps) (simp add: MaybeExpireOldestConnection_def tw_visit_log_def)
qed

text \<open>What the list relies on of QuicTime: infinity is an upper bound and the order is transitive.\<close>

definition quic_time_laws :: "('ep, 't, 'd, 'x) tw_lib \<Rightarrow> bool" where
  "quic_time_laws L \<longleftrightarrow>
     (\<forall>t. \<not> t_gt L t (t_infinite L)) \<and>
     (\<forall>a b c. t_gt L a c \<longrightarrow> \<not> t_gt L a b \<longrightarrow> t_gt L b c)"

definition in_time_order :: "('ep, 't, 'd, 'x) tw_lib \<Rightarrow> ('ep, 't, 'd, 'v, 'x) tw \<Rightarrow> bool" where
  "in_time_order L m \<longleftrightarrow>
     sorted_wrt (\<lambda>e e'. \<not> t_gt L (cd_time_added (snd e)) (cd_time_added (snd e'))) (connection_id_map m)"

lemma sorted_dropWhile_filter:
  assumes "sorted_wrt R xs" and "\<And>x y. R x y \<Longrightarrow> P x \<Longrightarrow> P y"
  shows "dropWhile (\<lambda>x. \<not> P x) xs = filter P xs" "takeWhile (\<lambda>x. \<not> P x) xs = filter (\<lambda>x. \<not> P x) xs"
  using assms(1)
proof (induction xs)
  case (Cons x xs)
  {
    case 1
    have "\<forall>y \<in> set xs. P y" if "P x" using 1 assms(2) that by auto
    with Cons.IH(1) 1 show ?case by (auto simp: filter_id_conv)
  next
    case 2
    have "\<forall>y \<in> set xs. P y" if "P x" using 2 assms(2) that by auto
    with Cons.IH(2) 2 show ?case by auto
  }
qed simp_all

lemma trim_loop_drops:
  assumes "quic_time_laws L" and pos: "FLAGS_quic_time_wait_list_max_connections L = int k" "k > 0"
  shows "\<exists>m'. trim_loop L m = Some m' \<and>
    connection_id_map m' = drop (Suc (num_connections m) - k) (connection_id_map m) \<and>
    tw_visits m' = tw_visits m @
      map (OnConnectionRemovedFromTimeWaitList \<circ> fst) (take (Suc (num_connections m) - k) (connection_id_map m))"
proof (induction "connection_id_map m" arbitrary: m)
  case Nil
  with pos show ?case by (simp add: trim_loop.simps [of L m] num_connections_def flip: Nil)
next
  case (Cons e es)
  obtain c d where [simp]: "e = (c, d)" by (cases e)
  have m: "connection_id_map m = (c, d) # es" using Cons.hyps(2) by simp
  show ?case
  proof (cases "num_connections m \<ge> k")
    case False
    with pos show ?thesis by (simp add: trim_loop.simps [of L m])
  next
    case True
    let ?m = "tw_visit_log (OnConnectionRemovedFromTimeWaitList c) (m\<lparr>connection_id_map := es\<rparr>)"
    have "snd (MaybeExpireOldestConnection L (t_infinite L) m) = ?m"
      using assms(1) m by (simp add: MaybeExpireOldestConnection_def quic_time_laws_def)
    then have "trim_loop L m = trim_loop L ?m" using True pos by (simp add: trim_loop.simps [of L m])
    moreover have "connection_id_map ?m = es" "Suc (num_connections m) - k = Suc (Suc (num_connections ?m) - k)"
      using m True by (simp_all add: tw_visit_log_def num_connections_def)
    ultimately show ?thesis using Cons.hyps(1) [of ?m] m by (simp add: tw_visit_log_def)
  qed
qed

lemma trim_loop_zero:
  assumes z: "FLAGS_quic_time_wait_list_max_connections L = 0"
  shows "trim_loop L m = None"
proof (rule ccontr)
  assume "trim_loop L m \<noteq> None"
  then obtain y where y: "trim_loop L m = Some y" by blast
  have "FLAGS_quic_time_wait_list_max_connections L \<noteq> 0"
  proof (rule trim_loop.raw_induct [OF _ y])
    fix f :: "('a, 'b, 'c, 'd) tw_lib \<Rightarrow> ('a, 'b, 'c, 'e, 'd) tw \<Rightarrow> ('a, 'b, 'c, 'e, 'd) tw option" and L m y
    assume IH: "\<And>L m y. f L m = Some y \<Longrightarrow> FLAGS_quic_time_wait_list_max_connections L \<noteq> 0"
      and r: "(if FLAGS_quic_time_wait_list_max_connections L \<le> int (num_connections m)
        then f L (snd (MaybeExpireOldestConnection L (t_infinite L) m)) else Some m) = Some y"
    show "FLAGS_quic_time_wait_list_max_connections L \<noteq> 0"
    proof (cases "FLAGS_quic_time_wait_list_max_connections L \<le> int (num_connections m)")
      case True
      with r IH show ?thesis by simp
    qed simp
  qed
  with z show False by simp
qed

section \<open>Sending\<close>

lemma WriteToWire_frame:
  assumes "WriteToWire L p m = Inr (sent, m')"
  shows "connection_id_map m' = connection_id_map m" "pending_packets_queue m' = pending_packets_queue m"
    "time_wait_period m' = time_wait_period m"
  using assms
  by (auto simp: WriteToWire_def tw_visit_log_def rbind_eq_Inr Let_def split: if_splits)

lemma WriteToWire_blocked:
  assumes "packet_writer (tw_writer L)" "WriteToWire L p m = Inr (False, m')"
  shows "qw_blocked (tw_writer L) (tw_world m')" "tw_visits m' = tw_visits m @ [OnWriteBlocked]"
  using assms packet_writer.blocked_after_write [OF assms(1)]
  by (auto simp: WriteToWire_def tw_visit_log_def rbind_eq_Inr Let_def split: if_splits)

lemma flush_queue_suffix:
  assumes "flush_queue L ps m = Inr m'" "pending_packets_queue m = ps" "packet_writer (tw_writer L)"
  shows "(\<exists>sent. ps = sent @ pending_packets_queue m') \<and>
    (pending_packets_queue m' \<noteq> [] \<longrightarrow>
       qw_blocked (tw_writer L) (tw_world m') \<and> OnWriteBlocked \<in> set (tw_visits m'))"
  using assms
proof (induction L ps m rule: flush_queue.induct)
  case (1 L m)
  then show ?case by simp
next
  case (2 L p ps m)
  from "2.prems"(1) obtain sent m1 where w: "WriteToWire L p m = Inr (sent, m1)"
    and r: "(if sent then flush_queue L ps (m1\<lparr>pending_packets_queue := ps\<rparr>) else Inr m1) = Inr m'"
    by (auto simp: rbind_eq_Inr)
  note F = WriteToWire_frame [OF w]
  show ?case
  proof (cases sent)
    case True
    with r "2.IH" [of sent m1] "2.prems"(3)
    have "(\<exists>xs. ps = xs @ pending_packets_queue m') \<and> (pending_packets_queue m' \<noteq> [] \<longrightarrow>
       qw_blocked (tw_writer L) (tw_world m') \<and> OnWriteBlocked \<in> set (tw_visits m'))" by auto
    then show ?thesis by (metis append_Cons)
  next
    case False
    with r have m': "m' = m1" by simp
    from WriteToWire_blocked [OF "2.prems"(3), of p m m1] w False m' show ?thesis
      using F "2.prems"(2) by auto
  qed
qed

lemma SendOrQueuePacket_frame:
  assumes "SendOrQueuePacket L p m = Inr m'"
  shows "connection_id_map m' = connection_id_map m"
  using assms WriteToWire_frame(1)
  by (fastforce simp: SendOrQueuePacket_def rbind_eq_Inr split: if_splits)

lemma map_of_drop_delete: "map_of (drop n (AList.delete c xs)) c = None"
proof -
  have "c \<notin> fst ` set (AList.delete c xs)" by (simp add: dom_map_of_conv_image_fst [symmetric])
  then show ?thesis using set_drop_subset [of n "AList.delete c xs"] by (auto simp: map_of_eq_None_iff)
qed

section \<open>Adding a connection\<close>

lemma AddConnectionIdToTimeWait_spec:
  assumes "quic_time_laws L" "keys_distinct (connection_id_map m)"
    "FLAGS_quic_time_wait_list_max_connections L = int k"
  shows "if k = 0 then AddConnectionIdToTimeWait L c v p m = None
    else \<exists>m' n d. AddConnectionIdToTimeWait L c v p m = Some m' \<and>
      connection_id_map m' = drop n (AList.delete c (connection_id_map m)) @ [(c, d)] \<and>
      num_connections m' \<le> k \<and> keys_distinct (connection_id_map m') \<and>
      cd_num_packets d = (case map_of (connection_id_map m) c of None \<Rightarrow> 0 | Some e \<Rightarrow> cd_num_packets e) \<and>
      cd_version d = v \<and> cd_close_packet d = p \<and>
      tw_visits m' = tw_visits m @
        map (OnConnectionRemovedFromTimeWaitList \<circ> fst) (take n (AList.delete c (connection_id_map m))) @
        (if map_of (connection_id_map m) c = None then [OnConnectionAddedToTimeWaitList c] else [])"
proof -
  let ?m = "m\<lparr>connection_id_map := AList.delete c (connection_id_map m)\<rparr>"
  let ?num = "case map_of (connection_id_map m) c of None \<Rightarrow> 0 | Some e \<Rightarrow> cd_num_packets e"
  let ?new = "map_of (connection_id_map m) c = None"
  have eq: "AddConnectionIdToTimeWait L c v p m = Option.bind (TrimTimeWaitListIfNeeded L ?m) (\<lambda>m.
         let (now, m) = tw_now L m;
             data = \<lparr>cd_num_packets = ?num, cd_version = v, cd_time_added = now, cd_close_packet = p\<rparr>;
             m = m\<lparr>connection_id_map := connection_id_map m @ [(c, data)]\<rparr>
         in Some (if ?new then tw_visit_log (OnConnectionAddedToTimeWaitList c) m else m))"
    by (auto simp: AddConnectionIdToTimeWait_def delete_absent split: option.split)
  show ?thesis
  proof (cases "k = 0")
    case True
    with assms(3) show ?thesis by (simp add: eq TrimTimeWaitListIfNeeded_def trim_loop_zero)
  next
    case False
    let ?n = "Suc (num_connections ?m) - k"
    obtain m1 where m1: "TrimTimeWaitListIfNeeded L ?m = Some m1"
      "connection_id_map m1 = drop ?n (AList.delete c (connection_id_map m))"
      "tw_visits m1 = tw_visits m @
        map (OnConnectionRemovedFromTimeWaitList \<circ> fst) (take ?n (AList.delete c (connection_id_map m)))"
      using trim_loop_drops [OF assms(1,3), of ?m] False assms(3) by (auto simp: TrimTimeWaitListIfNeeded_def)
    obtain now x where now: "ApproximateNow L (tw_world m1) = (now, x)" by (cases "ApproximateNow L (tw_world m1)")
    have d: "keys_distinct (drop ?n (AList.delete c (connection_id_map m)))"
      using keys_distinct_delete [OF assms(2), of c] by (simp add: keys_distinct_def drop_map [symmetric])
    have "map_of (drop ?n (AList.delete c (connection_id_map m))) c = None"
      by (rule map_of_drop_delete)
    moreover have "length (drop ?n (AList.delete c (connection_id_map m))) < k"
      using False by (simp add: num_connections_def)
    moreover define data where "data = \<lparr>cd_num_packets = ?num, cd_version = v, cd_time_added = now, cd_close_packet = p\<rparr>"
    moreover define m2 where "m2 = m1\<lparr>tw_world := x, connection_id_map := connection_id_map m1 @ [(c, data)]\<rparr>"
    moreover define m3 where "m3 = (if ?new then tw_visit_log (OnConnectionAddedToTimeWaitList c) m2 else m2)"
    moreover have "AddConnectionIdToTimeWait L c v p m = Some m3"
      using m1(1) now by (simp add: eq tw_now_def Let_def m3_def m2_def data_def)
    moreover have "connection_id_map m3 = drop ?n (AList.delete c (connection_id_map m)) @ [(c, data)]"
      using m1(2) by (simp add: m3_def m2_def tw_visit_log_def)
    moreover have "tw_visits m3 = tw_visits m1 @ (if ?new then [OnConnectionAddedToTimeWaitList c] else [])"
      by (simp add: m3_def m2_def tw_visit_log_def)
    ultimately show ?thesis using False d m1(3)
      by (intro iffD2 [OF if_not_P] exI [of _ m3] exI [of _ ?n] exI [of _ data])
         (auto simp: keys_distinct_snoc num_connections_def)
  qed
qed

lemma trim_loop_world:
  fixes L :: "('ep, 't, 'd, 'x) tw_lib" and m m' :: "('ep, 't, 'd, 'v, 'x) tw"
  assumes "trim_loop L m = Some m'"
  shows "tw_world m' = tw_world m"
proof (rule trim_loop.raw_induct [where P = "\<lambda>L m m'. tw_world m' = tw_world m", OF _ assms])
  fix f :: "('ep, 't, 'd, 'x) tw_lib \<Rightarrow> ('ep, 't, 'd, 'v, 'x) tw \<Rightarrow> ('ep, 't, 'd, 'v, 'x) tw option"
    and L :: "('ep, 't, 'd, 'x) tw_lib" and m y :: "('ep, 't, 'd, 'v, 'x) tw"
  assume IH: "\<And>L m y. f L m = Some y \<Longrightarrow> tw_world y = tw_world m"
    and r: "(if FLAGS_quic_time_wait_list_max_connections L \<le> int (num_connections m)
      then f L (snd (MaybeExpireOldestConnection L (t_infinite L) m)) else Some m) = Some y"
  have w: "tw_world (snd (MaybeExpireOldestConnection L (t_infinite L) m)) = tw_world m"
    by (auto simp: MaybeExpireOldestConnection_def tw_visit_log_def split: list.split)
  show "tw_world y = tw_world m"
    using r IH [of L "snd (MaybeExpireOldestConnection L (t_infinite L) m)" y] w
    by (simp split: if_splits)
qed

lemma AddConnectionIdToTimeWait_world:
  assumes "AddConnectionIdToTimeWait L c v p m = Some m'"
  shows "tw_world m' = snd (ApproximateNow L (tw_world m))"
  using assms
  by (auto simp: AddConnectionIdToTimeWait_def TrimTimeWaitListIfNeeded_def bind_eq_Some_conv tw_now_def
      tw_visit_log_def Let_def split: option.splits if_splits prod.splits dest!: trim_loop_world)

lemma WriteToWire_aborts: "packet_writer (tw_writer L) \<Longrightarrow> WriteToWire L p m = Inl e \<Longrightarrow> benign e"
  by (auto simp: WriteToWire_def rbind_def Let_def dest: packet_writer.write_aborts split: if_splits sum.splits)

lemma SendOrQueuePacket_aborts:
  "packet_writer (tw_writer L) \<Longrightarrow> SendOrQueuePacket L p m = Inl e \<Longrightarrow> benign e"
  by (auto simp: SendOrQueuePacket_def rbind_def dest: WriteToWire_aborts split: sum.splits)

lemma flush_queue_aborts: "packet_writer (tw_writer L) \<Longrightarrow> flush_queue L ps m = Inl e \<Longrightarrow> benign e"
  by (induction L ps m rule: flush_queue.induct)
    (auto simp: rbind_def dest: WriteToWire_aborts split: sum.splits if_splits)

section \<open>Properties\<close>

text \<open>A library to run on: time and intervals in microseconds, a writer that is always ready.\<close>

definition sample_lib :: "(int, int, int, QuicDefaultPacketWriter \<times> unit) tw_lib" where
  "sample_lib = \<lparr>tw_writer = default_writer sample_sock sample_endpoint, ep_address = (\<lambda>e. []),
     BuildPublicResetPacket = (\<lambda>r. [0]), ApproximateNow = (\<lambda>x. (100, x)),
     t_add = (+), t_diff = (-), t_minus = (-), t_gt = (\<lambda>a b. b < a \<and> b < 1000), t_infinite = 1000,
     d_lt = (<), d_zero = 0, d_from_seconds = (\<lambda>n. 1000000 * n),
     FLAGS_quic_time_wait_list_seconds = 5, FLAGS_quic_time_wait_list_max_connections = 2\<rparr>"

lemma sample_lib_laws: "quic_time_laws sample_lib"
  by (auto simp: quic_time_laws_def sample_lib_def)

definition sample_tw :: "(int, int, int, nat, QuicDefaultPacketWriter \<times> unit) tw" where
  "sample_tw = \<lparr>connection_id_map =
       [(7, \<lparr>cd_num_packets = 3, cd_version = 1, cd_time_added = 10, cd_close_packet = None\<rparr>),
        (8, \<lparr>cd_num_packets = 0, cd_version = 1, cd_time_added = 60, cd_close_packet = Some [1, 2]\<rparr>)],
     pending_packets_queue = [], time_wait_period = 50, tw_visits = [], tw_alarm_calls = [],
     tw_world = (QuicDefaultPacketWriter_new 3, ())\<rparr>"

text \<open>
  C27: Responses to packets of a closed connection back off exponentially: the n-th packet is
  answered exactly when n is a power of two, so n packets trigger only as many responses as n has
  binary digits.
\<close>

theorem response_backoff:
  assumes "n > 0"
  shows "(ShouldSendResponse (int n) \<longleftrightarrow> (\<exists>k. n = 2 ^ k)) \<and>
    card {i \<in> {1..n}. ShouldSendResponse (int i)} = floorlog 2 n"
proof -
  have "ShouldSendResponse (int i) \<longleftrightarrow> (\<exists>k. i = 2 ^ k)" if "i \<in> {1..n}" for i
    using ShouldSendResponse_power [of i] that by simp
  then have "{i \<in> {1..n}. ShouldSendResponse (int i)} = {i \<in> {1..n}. \<exists>k. i = 2 ^ k}" by blast
  also have "card \<dots> = floorlog 2 n"
    unfolding powers_upto [OF assms] by (subst card_image) (auto simp: inj_on_def)
  finally show ?thesis using ShouldSendResponse_power [OF assms] by simp
qed

theorem response_backoff_witness:
  "(ShouldSendResponse (int 12) \<longleftrightarrow> (\<exists>k. 12 = (2::nat) ^ k)) \<and>
    card {i \<in> {1..12}. ShouldSendResponse (int i)} = floorlog 2 12"
  by (rule response_backoff) simp

text \<open>
  C23: AddConnectionIdToTimeWait with a positive limit returns, the connection is then in time
  wait as the newest entry with its old packet count, the limit is respected, and what was dropped
  to make room are the oldest entries; the visitor hears of it exactly when the id is new. With a limit
  of zero the trimming loop never ends.
\<close>

theorem add_to_time_wait:
  assumes "quic_time_laws L" "keys_distinct (connection_id_map m)"
    "FLAGS_quic_time_wait_list_max_connections L = int k"
  shows "if k = 0 then AddConnectionIdToTimeWait L c v p m = None
    else \<exists>m' n d. AddConnectionIdToTimeWait L c v p m = Some m' \<and>
      connection_id_map m' = drop n (AList.delete c (connection_id_map m)) @ [(c, d)] \<and>
      num_connections m' \<le> k \<and> keys_distinct (connection_id_map m') \<and>
      cd_num_packets d = (case map_of (connection_id_map m) c of None \<Rightarrow> 0 | Some e \<Rightarrow> cd_num_packets e) \<and>
      cd_version d = v \<and> cd_close_packet d = p \<and>
      tw_visits m' = tw_visits m @
        map (OnConnectionRemovedFromTimeWaitList \<circ> fst) (take n (AList.delete c (connection_id_map m))) @
        (if map_of (connection_id_map m) c = None then [OnConnectionAddedToTimeWaitList c] else [])"
  by (rule AddConnectionIdToTimeWait_spec [OF assms])

theorem add_to_time_wait_witness:
  "if (2::nat) = 0 then AddConnectionIdToTimeWait sample_lib 9 1 None sample_tw = None
    else \<exists>m' n d. AddConnectionIdToTimeWait sample_lib 9 1 None sample_tw = Some m' \<and>
      connection_id_map m' = drop n (AList.delete 9 (connection_id_map sample_tw)) @ [(9, d)] \<and>
      num_connections m' \<le> 2 \<and> keys_distinct (connection_id_map m') \<and>
      cd_num_packets d = (case map_of (connection_id_map sample_tw) 9 of None \<Rightarrow> 0 | Some e \<Rightarrow> cd_num_packets e) \<and>
      cd_version d = 1 \<and> cd_close_packet d = None \<and>
      tw_visits m' = tw_visits sample_tw @
        map (OnConnectionRemovedFromTimeWaitList \<circ> fst) (take n (AList.delete 9 (connection_id_map sample_tw))) @
        (if map_of (connection_id_map sample_tw) 9 = None then [OnConnectionAddedToTimeWaitList 9] else [])"
  by (rule add_to_time_wait [OF sample_lib_laws]) (simp_all add: sample_tw_def sample_lib_def)







end
