(* ===== verification/Server_Stream.thy ===== *)
theory Server_Stream
  imports Time_Wait Event_Recorder
begin

text \<open>
  \<open>QuicServerStream\<close> (net/tools/quic/quic_server_stream.cc and .h): the server's end of a stream. When the
  client has half-closed, it answers with \<open>packet_num_\<close> payloads and a closing mark.

  \<open>WriteOrBufferData\<close> belongs to libquic's ReliableQuicStream: \<open>st_writes\<close> lists the calls. \<open>alarm_\<close> is a plain
  pointer that the constructor leaves unset; \<open>st_alarm\<close> lists the calls on the alarm it points to.
\<close>

record 't QuicServerStream =
  st_packet_num :: int
  st_payload :: string
  st_bytes_received :: "64 word"
  st_alarm :: "'t alarm_call list option"
  st_writes :: "(string \<times> bool) list"
  st_cout :: string

text \<open>\<open>n\<close> is what \<open>packet_num_\<close> happens to hold before \<open>SetPacketNum\<close>.\<close>

definition QuicServerStream_new :: "int \<Rightarrow> 't QuicServerStream" where
  "QuicServerStream_new n =
     \<lparr>st_packet_num = n,
      st_payload = fold (\<lambda>i payload. payload[i := CHR ''x'']) [0..<1300] (replicate 1300 (CHR 0x00)),
      st_bytes_received = 0, st_alarm = None, st_writes = [], st_cout = []\<rparr>"

definition stream_SetPacketNum :: "int \<Rightarrow> 't QuicServerStream \<Rightarrow> 't QuicServerStream" where
  "stream_SetPacketNum n st = st\<lparr>st_packet_num := n\<rparr>"

definition ProcessRawData :: "32 word \<Rightarrow> 't QuicServerStream \<Rightarrow> 32 word \<times> 't QuicServerStream" where
  "ProcessRawData data_len st = (data_len, st\<lparr>st_bytes_received := st_bytes_received st + ucast data_len\<rparr>)"

definition WriteStringPiece :: "string \<Rightarrow> bool \<Rightarrow> 't QuicServerStream \<Rightarrow> 't QuicServerStream" where
  "WriteStringPiece data fin st = st\<lparr>st_writes := st_writes st @ [(data, fin)]\<rparr>"

text \<open>
  The loop compares a \<open>uint64\<close> with the \<open>int\<close> \<open>packet_num_\<close>, which is converted to \<open>uint64\<close>: a negative
  count becomes a huge one.
\<close>

function fin_loop :: "64 word \<Rightarrow> 64 word \<Rightarrow> 't QuicServerStream \<Rightarrow> 't QuicServerStream" where
  "fin_loop i n st = (if i < n then fin_loop (i + 1) n (WriteStringPiece (st_payload st) False st) else st)"
  by pat_completeness auto
termination
proof (relation "measure (\<lambda>(i, n, st). unat n - unat i)")
  fix i n :: "64 word" and st :: "'t QuicServerStream"
  assume less: "i < n"
  from less unat_add_one [OF less] show "((i + 1, n, WriteStringPiece (st_payload st) False st), i, n, st) \<in> measure (\<lambda>(i, n, st). unat n - unat i)"
    by (simp add: word_less_nat_alt)
qed simp

declare fin_loop.simps [simp del]

definition OnFinRead :: "'t QuicServerStream \<Rightarrow> 't QuicServerStream" where
  "OnFinRead st = WriteStringPiece ''server_end'' True (fin_loop 0 (word_of_int (st_packet_num st)) st)"

definition EffectivePriority :: "'t QuicServerStream \<Rightarrow> int" where
  "EffectivePriority st = 0"

definition SetupPerformanceAlarm ::
  "('ep, 't, 'd, 'x) tw_lib \<Rightarrow> 't QuicServerStream \<Rightarrow> 'x \<Rightarrow> 't QuicServerStream \<times> 'x" where
  "SetupPerformanceAlarm L st x =
     (let (now, x) = ApproximateNow L x;
          onesecond = t_add L now (d_from_seconds L 1)
      in (st\<lparr>st_alarm := Some [Alarm_Set onesecond]\<rparr>, x))"

text \<open>
  \<open>OnAlarm\<close> prints the byte count and returns the time of the next call. It also asks libquic for the wall
  time, which it does not use.
\<close>

definition stream_OnAlarm ::
  "('ep, 't, 'd, 'x) tw_lib \<Rightarrow> 't QuicServerStream \<Rightarrow> 'x \<Rightarrow> 't \<times> 't QuicServerStream \<times> 'x" where
  "stream_OnAlarm L st x =
     (let st = st\<lparr>st_cout := st_cout st @ dec (unat (st_bytes_received st)) @ [CHR 0x0A]\<rparr>;
          (now, x) = ApproximateNow L x
      in (t_add L now (d_from_seconds L 1), st, x))"

text \<open>The destructor calls \<open>alarm_->Cancel()\<close>; the result are the calls it makes on the alarm.\<close>

definition QuicServerStream_delete :: "'t QuicServerStream \<Rightarrow> 't alarm_call list res" where
  "QuicServerStream_delete st = (case st_alarm st of None \<Rightarrow> Inl Dangling | Some _ \<Rightarrow> Inr [Alarm_Cancel])"

text \<open>\<open>QuicServerSession::CreateIncomingDynamicStream\<close> for a session that sends \<open>packet_num\<close> packets.\<close>

definition CreateIncomingDynamicStream ::
  "('ep, 't, 'd, 'x) tw_lib \<Rightarrow> int \<Rightarrow> int \<Rightarrow> 'x \<Rightarrow> 't QuicServerStream \<times> 'x" where
  "CreateIncomingDynamicStream L packet_num n x =
     SetupPerformanceAlarm L (stream_SetPacketNum packet_num (QuicServerStream_new n)) x"

section \<open>Lemmas\<close>

lemma fold_update_all:
  assumes "length xs = n"
  shows "fold (\<lambda>i ys. ys[i := c]) [0..<n] xs = replicate n c"
proof -
  have "length (fold (\<lambda>i ys. ys[i := c]) [0..<m] xs) = n \<and>
      (\<forall>j < n. fold (\<lambda>i ys. ys[i := c]) [0..<m] xs ! j = (if j < m then c else xs ! j))" if "m \<le> n" for m
    using that assms by (induction m) (auto simp: nth_list_update)
  from this [of n] show ?thesis by (intro nth_equalityI) auto
qed

lemma payload_new: "st_payload (QuicServerStream_new n) = replicate 1300 (CHR ''x'')"
  unfolding QuicServerStream_new_def by (simp only: QuicServerStream.simps fold_update_all length_replicate)

lemma fin_loop_writes:
  "fin_loop i n st = st\<lparr>st_writes := st_writes st @ replicate (unat n - unat i) (st_payload st, False)\<rparr>"
proof (induction i n st rule: fin_loop.induct)
  case (1 i n st)
  show ?case
  proof (cases "i < n")
    case False
    then show ?thesis by (simp add: fin_loop.simps word_less_nat_alt)
  next
    case True
    then have "unat (i + 1) = Suc (unat i)" by (rule unat_add_one)
    moreover have "unat i < unat n" using True by (simp add: word_less_nat_alt)
    ultimately have "replicate (unat n - unat i) c = c # replicate (unat n - unat (i + 1)) c" for c :: "string \<times> bool"
      by (simp flip: replicate_Suc add: Suc_diff_Suc)
    with 1 [OF True] True show ?thesis by (subst fin_loop.simps) (simp add: WriteStringPiece_def)
  qed
qed

text \<open>The answer to a finished request: the payloads and the closing mark.\<close>

definition fin_reply :: "int \<Rightarrow> (string \<times> bool) list" where
  "fin_reply n = replicate (nat (n mod 2 ^ 64)) (replicate 1300 (CHR ''x''), False) @ [(''server_end'', True)]"

text \<open>
  A stream that answers with \<open>n\<close> packets: it has its alarm, and what it has written are complete answers, one
  for each call of \<open>OnFinRead\<close>.
\<close>

definition stream_ok :: "int \<Rightarrow> 't QuicServerStream \<Rightarrow> bool" where
  "stream_ok n st \<longleftrightarrow>
     st_packet_num st = n \<and> st_payload st = replicate 1300 (CHR ''x'') \<and> st_alarm st \<noteq> None \<and>
     (\<exists>m. st_writes st = concat (replicate m (fin_reply n)))"

lemma new_stream_fields:
  "st_payload (fst (CreateIncomingDynamicStream L packet_num n x)) = replicate 1300 (CHR ''x'')"
  "st_packet_num (fst (CreateIncomingDynamicStream L packet_num n x)) = packet_num"
  "st_writes (fst (CreateIncomingDynamicStream L packet_num n x)) = []"
  "st_alarm (fst (CreateIncomingDynamicStream L packet_num n x)) =
     Some [Alarm_Set (t_add L (fst (ApproximateNow L x)) (d_from_seconds L 1))]"
  "snd (CreateIncomingDynamicStream L packet_num n x) = snd (ApproximateNow L x)"
  by (simp_all add: CreateIncomingDynamicStream_def SetupPerformanceAlarm_def split_beta payload_new
      stream_SetPacketNum_def QuicServerStream_new_def [of n, THEN arg_cong [of _ _ st_writes]])

lemma stream_ok_new: "stream_ok n (fst (CreateIncomingDynamicStream L n k x))"
  by (auto simp: stream_ok_def new_stream_fields intro: exI [of _ 0])

lemma OnFinRead_writes:
  assumes "st_payload st = replicate 1300 (CHR ''x'')"
  shows "OnFinRead st = st\<lparr>st_writes := st_writes st @ fin_reply (st_packet_num st)\<rparr>"
proof -
  have "unat (word_of_int n :: 64 word) = nat (n mod 2 ^ 64)" for n
    by (simp add: unat_eq_nat_uint uint_word_of_int)
  with assms show ?thesis by (simp add: OnFinRead_def fin_loop_writes WriteStringPiece_def fin_reply_def)
qed

lemma stream_ok_fin:
  assumes "stream_ok n st"
  shows "stream_ok n (OnFinRead st)"
proof -
  from assms obtain m where m: "st_writes st = concat (replicate m (fin_reply n))" by (auto simp: stream_ok_def)
  have "replicate (Suc m) (fin_reply n) = replicate m (fin_reply n) @ [fin_reply n]" by (simp add: replicate_append_same)
  then have "st_writes st @ fin_reply n = concat (replicate (Suc m) (fin_reply n))" unfolding m by simp
  with assms show ?thesis unfolding stream_ok_def by (simp add: OnFinRead_writes del: replicate_Suc) blast
qed

lemma stream_ok_data: "stream_ok n st \<Longrightarrow> stream_ok n (snd (ProcessRawData len st))"
  by (simp add: stream_ok_def ProcessRawData_def)

lemma stream_ok_alarm: "stream_ok n st \<Longrightarrow> stream_ok n (fst (snd (stream_OnAlarm L st x)))"
  by (simp add: stream_ok_def stream_OnAlarm_def split_beta Let_def)

lemma stream_OnAlarm_world: "snd (snd (stream_OnAlarm L st x)) = snd (ApproximateNow L x)"
  by (simp add: stream_OnAlarm_def split_beta Let_def)

text \<open>
  C19: A stream answers a finished request with exactly the configured number of 1300-byte
  payloads followed by the closing mark, which alone carries the FIN. The count is the 64-bit reading of
  packet_num_, so for a negative one the loop runs about 2^64 times.
\<close>

theorem stream_sends_packet_num_payloads:
  "st_writes (OnFinRead (fst (CreateIncomingDynamicStream L packet_num n x))) =
     replicate (nat (packet_num mod 2 ^ 64)) (replicate 1300 (CHR ''x''), False) @ [(''server_end'', True)]"
  by (simp add: OnFinRead_writes new_stream_fields fin_reply_def)

end
