(* ===== verification/Dispatcher.thy ===== *)
theory Dispatcher
  imports Server_Stream Epoll_Callbacks
begin

text \<open>
  \<open>QuicDispatcher\<close> (net/tools/quic/quic_dispatcher.cc and .h) with the sessions (quic_server_session.cc)
  and streams it serves.

  Sessions are addresses in a store \<open>sessions\<close>, streams belong to a session and have a number there;
  a deleted object has no entry and using it is \<open>Dangling\<close>. libquic's framer and connections are not part
  of the repository. Both call back, so each is an interaction tree: the framer over the visitor's
  methods (\<open>framer_call\<close>), a connection with its QuicSession over the ways it reaches the repository's code
  (\<open>conn_op\<close>): closing, reporting that it is write blocked, writing through the shared packet writer, setting
  and cancelling its alarms, creating, feeding and deleting streams. What it remembers itself is part of
  libquic's world, which it changes in steps of its own (\<open>conn_step\<close>). The calls the time-wait manager
  logs for its visitor are replayed right after the call that made them. \<open>alarm_log\<close> lists the calls on all
  alarms in the order they are made.
\<close>

section \<open>libquic\<close>

record 'v public_header =
  hdr_connection_id :: QuicConnectionId
  hdr_reset_flag :: bool
  hdr_version_flag :: bool
  hdr_versions :: "'v list"

datatype ('ep, 't) conn_op =
    Conn_closed QuicConnectionId
  | Conn_write_blocked
  | Conn_write "byte list" ip_address 'ep
  | Conn_step nat
  | Conn_alarm nat "'t alarm_call"
  | Conn_new_stream nat int
  | Conn_stream_data nat "32 word"
  | Conn_stream_fin nat
  | Conn_delete_stream nat

text \<open>The visitor's methods for what follows the header of a packet; the framer is never let go that far.\<close>

datatype payload_call =
    Fv_OnPublicResetPacket | Fv_OnVersionNegotiationPacket | Fv_OnDecryptedPacket | Fv_OnPacketHeader
  | Fv_OnRevivedPacket | Fv_OnFecProtectedPayload | Fv_OnStreamFrame | Fv_OnAckFrame | Fv_OnStopWaitingFrame
  | Fv_OnPingFrame | Fv_OnRstStreamFrame | Fv_OnConnectionCloseFrame | Fv_OnGoAwayFrame | Fv_OnWindowUpdateFrame
  | Fv_OnBlockedFrame | Fv_OnFecData | Fv_OnPacketComplete

datatype 'v framer_call =
    Fv_OnPacket
  | Fv_OnUnauthenticatedPublicHeader "'v public_header"
  | Fv_OnUnauthenticatedHeader "'v public_header" nat
  | Fv_OnProtocolVersionMismatch 'v
  | Fv_OnError
  | Fv_payload payload_call

text \<open>What the framer does next depends on the visitor's answer and the version now set.\<close>

datatype 'v framer_run = Fr_done | Fr_call "'v framer_call" "bool \<Rightarrow> 'v \<Rightarrow> 'v framer_run"

datatype blocked_writer = Time_wait_manager | Connection nat

text \<open>
  The alarms made by the connection helper: those of time-wait manager and dispatcher, those of the
  connection of a session, and the one of each stream.
\<close>

datatype dsp_alarm =
    Connection_id_clean_up_alarm
  | Delete_sessions_alarm
  | Connection_alarm nat nat
  | Stream_alarm nat nat

record session_obj =
  ses_connection_id :: QuicConnectionId
  ses_packet_num :: int
  ses_crypto_stream :: bool

text \<open>
  \<open>QuicServerSession\<close>: \<open>n\<close> is what \<open>packet_num_\<close> happens to hold at first. \<open>InitializeSession\<close> makes the crypto
  stream; what that does is libquic's.
\<close>

definition QuicServerSession_new :: "QuicConnectionId \<Rightarrow> int \<Rightarrow> session_obj" where
  "QuicServerSession_new connection_id n = \<lparr>ses_connection_id = connection_id, ses_packet_num = n, ses_crypto_stream = False\<rparr>"

definition session_InitializeSession :: "session_obj \<Rightarrow> session_obj" where
  "session_InitializeSession ses = ses\<lparr>ses_crypto_stream := True\<rparr>"

definition session_SetPacketNum :: "int \<Rightarrow> session_obj \<Rightarrow> session_obj" where
  "session_SetPacketNum packet_num ses = ses\<lparr>ses_packet_num := packet_num\<rparr>"

record ('ep, 't, 'd, 'v, 'x) QuicDispatcher =
  d_packet_num :: int
  write_blocked_list :: "blocked_writer list"
  session_map :: "(QuicConnectionId \<times> nat) list"
  time_wait :: "('ep, 't, 'd, 'v, 'x) tw"
  closed_session_list :: "nat list"
  alarm_log :: "(dsp_alarm \<times> 't alarm_call) list"
  supported_versions :: "'v list"
  current_client_address :: 'ep
  current_server_address :: 'ep
  current_packet :: "byte list option"
  framer_version :: 'v
  visitor_connection_id :: QuicConnectionId
  sessions :: "nat \<rightharpoonup> session_obj"
  streams :: "nat \<times> nat \<rightharpoonup> 't QuicServerStream"
  next_session :: nat

type_synonym ('ep, 't, 'd, 'v, 'x) dsp = "('ep, 't, 'd, 'v, 'x) QuicDispatcher"

type_synonym ('ep, 't, 'd, 'v, 'x) conn_run = "(('ep, 't, 'd, 'v, 'x) dsp, ('ep, 't) conn_op, unit) client"

record ('ep, 't, 'd, 'v, 'x) dsp_lib =
  dl_tw :: "('ep, 't, 'd, 'x) tw_lib"
  ep_port :: "'ep \<Rightarrow> nat"
  framer_ProcessPacket :: "byte list \<Rightarrow> 'v \<Rightarrow> 'v framer_run"
  IsSupportedVersion :: "'v \<Rightarrow> bool"
  ReleaseConnectionClosePacket :: "nat \<Rightarrow> 'x \<Rightarrow> byte list option \<times> 'x"
  conn_version :: "nat \<Rightarrow> 'x \<Rightarrow> 'v"
  conn_step :: "nat \<Rightarrow> nat \<Rightarrow> 'x \<Rightarrow> 'x"
  conn_ProcessUdpPacket :: "nat \<Rightarrow> 'ep \<Rightarrow> 'ep \<Rightarrow> byte list \<Rightarrow> ('ep, 't, 'd, 'v, 'x) conn_run"
  conn_OnCanWrite :: "nat \<Rightarrow> ('ep, 't, 'd, 'v, 'x) conn_run"
  conn_SendConnectionClose :: "nat \<Rightarrow> ('ep, 't, 'd, 'v, 'x) conn_run"
  conn_alarm_Fire :: "nat \<Rightarrow> nat \<Rightarrow> ('ep, 't, 'd, 'v, 'x) conn_run"

definition dsp_world :: "('ep, 't, 'd, 'v, 'x) dsp \<Rightarrow> 'x" where
  "dsp_world d = tw_world (time_wait d)"

definition set_dsp_world :: "'x \<Rightarrow> ('ep, 't, 'd, 'v, 'x) dsp \<Rightarrow> ('ep, 't, 'd, 'v, 'x) dsp" where
  "set_dsp_world x d = d\<lparr>time_wait := (time_wait d)\<lparr>tw_world := x\<rparr>\<rparr>"

section \<open>The visitor interface\<close>

text \<open>\<open>LOG(DFATAL)\<close> only logs in a release build. The list is a set in insertion order.\<close>

definition dsp_OnWriteBlocked ::
  "('ep, 't, 'd, 'v, 'x) dsp_lib \<Rightarrow> blocked_writer \<Rightarrow> ('ep, 't, 'd, 'v, 'x) dsp \<Rightarrow> ('ep, 't, 'd, 'v, 'x) dsp" where
  "dsp_OnWriteBlocked L b d =
     (if \<not> qw_blocked (tw_writer (dl_tw L)) (dsp_world d) then d
      else if b \<in> set (write_blocked_list d) then d
      else d\<lparr>write_blocked_list := write_blocked_list d @ [b]\<rparr>)"

fun replay_visits ::
  "('ep, 't, 'd, 'v, 'x) dsp_lib \<Rightarrow> tw_visit list \<Rightarrow> ('ep, 't, 'd, 'v, 'x) dsp \<Rightarrow> ('ep, 't, 'd, 'v, 'x) dsp" where
  "replay_visits L [] d = d"
| "replay_visits L (OnWriteBlocked # vs) d = replay_visits L vs (dsp_OnWriteBlocked L Time_wait_manager d)"
| "replay_visits L (OnConnectionAddedToTimeWaitList c # vs) d = replay_visits L vs d"
| "replay_visits L (OnConnectionRemovedFromTimeWaitList c # vs) d = replay_visits L vs d"

definition absorb_tw ::
  "('ep, 't, 'd, 'v, 'x) dsp_lib \<Rightarrow> ('ep, 't, 'd, 'v, 'x) tw \<Rightarrow> ('ep, 't, 'd, 'v, 'x) dsp \<Rightarrow> ('ep, 't, 'd, 'v, 'x) dsp" where
  "absorb_tw L m d =
     replay_visits L (drop (length (tw_visits (time_wait d))) (tw_visits m))
       (d\<lparr>time_wait := m,
          alarm_log := alarm_log d @
            map (Pair Connection_id_clean_up_alarm) (drop (length (tw_alarm_calls (time_wait d))) (tw_alarm_calls m))\<rparr>)"

text \<open>\<open>AddConnectionIdToTimeWait\<close> called from the dispatcher; \<open>None\<close> when the trimming loop does not end.\<close>

definition dsp_add_to_time_wait ::
  "('ep, 't, 'd, 'v, 'x) dsp_lib \<Rightarrow> QuicConnectionId \<Rightarrow> 'v \<Rightarrow> byte list option \<Rightarrow>
   ('ep, 't, 'd, 'v, 'x) dsp \<Rightarrow> ('ep, 't, 'd, 'v, 'x) dsp outcome" where
  "dsp_add_to_time_wait L c v p d =
     Option.bind (AddConnectionIdToTimeWait (dl_tw L) c v p (time_wait d)) (\<lambda>m. Some (Inr (absorb_tw L m d)))"

section \<open>Closing connections\<close>

text \<open>\<open>it\<close> points to the entry of \<open>connection_id\<close>, session \<open>a\<close>.\<close>

definition CleanUpSession ::
  "('ep, 't, 'd, 'v, 'x) dsp_lib \<Rightarrow> QuicConnectionId \<Rightarrow> nat \<Rightarrow>
   ('ep, 't, 'd, 'v, 'x) dsp \<Rightarrow> ('ep, 't, 'd, 'v, 'x) dsp outcome" where
  "CleanUpSession L connection_id a d =
     (if sessions d a = None then Some (Inl Dangling)
      else
        let (connection_close_packet, x) = ReleaseConnectionClosePacket L a (dsp_world d);
            d = (set_dsp_world x d)\<lparr>write_blocked_list := filter (\<lambda>b. b \<noteq> Connection a) (write_blocked_list d)\<rparr>
        in obind (dsp_add_to_time_wait L connection_id (conn_version L a x) connection_close_packet d) (\<lambda>d.
           Some (Inr (d\<lparr>session_map := AList.delete connection_id (session_map d)\<rparr>))))"

definition dsp_OnConnectionClosed ::
  "('ep, 't, 'd, 'v, 'x) dsp_lib \<Rightarrow> QuicConnectionId \<Rightarrow>
   ('ep, 't, 'd, 'v, 'x) dsp \<Rightarrow> ('ep, 't, 'd, 'v, 'x) dsp outcome" where
  "dsp_OnConnectionClosed L connection_id d =
     (case map_of (session_map d) connection_id of
        None \<Rightarrow> Some (Inr d)
      | Some a \<Rightarrow>
          let d = (if closed_session_list d = []
                   then let (now, x) = ApproximateNow (dl_tw L) (dsp_world d)
                        in (set_dsp_world x d)\<lparr>alarm_log := alarm_log d @
                              [(Delete_sessions_alarm, Alarm_Cancel), (Delete_sessions_alarm, Alarm_Set now)]\<rparr>
                   else d);
              d = d\<lparr>closed_session_list := closed_session_list d @ [a]\<rparr>
          in CleanUpSession L connection_id a d)"

text \<open>
  Deleting a session deletes its streams, whose destructors cancel their alarms, and its connection with its
  alarms, which unregister themselves.
\<close>

fun alarm_session :: "dsp_alarm \<Rightarrow> nat option" where
  "alarm_session (Connection_alarm a k) = Some a"
| "alarm_session (Stream_alarm a sid) = Some a"
| "alarm_session _ = None"

definition DeleteSessions :: "('ep, 't, 'd, 'v, 'x) dsp \<Rightarrow> ('ep, 't, 'd, 'v, 'x) dsp" where
  "DeleteSessions d =
     d\<lparr>sessions := (\<lambda>a. if a \<in> set (closed_session_list d) then None else sessions d a),
       streams := (\<lambda>(a, sid). if a \<in> set (closed_session_list d) then None else streams d (a, sid)),
       alarm_log := alarm_log d @ map (\<lambda>al. (al, Alarm_Cancel))
         (filter (\<lambda>al. alarm_session al \<in> Some ` set (closed_session_list d)) (remdups (map fst (alarm_log d)))),
       closed_session_list := []\<rparr>"

section \<open>Running a connection\<close>

text \<open>The calls a session makes on stream \<open>sid\<close> of session \<open>a\<close>.\<close>

definition on_stream ::
  "nat \<Rightarrow> nat \<Rightarrow> ('t QuicServerStream \<Rightarrow> 't QuicServerStream) \<Rightarrow>
   ('ep, 't, 'd, 'v, 'x) dsp \<Rightarrow> ('ep, 't, 'd, 'v, 'x) dsp res" where
  "on_stream a sid f d =
     (case streams d (a, sid) of
        None \<Rightarrow> Inl Dangling
      | Some st \<Rightarrow> Inr (d\<lparr>streams := (streams d)((a, sid) \<mapsto> f st)\<rparr>))"

text \<open>QuicSession asks for a stream; \<open>n\<close> is what the stream's \<open>packet_num_\<close> happens to hold at first.\<close>

definition new_stream ::
  "('ep, 't, 'd, 'v, 'x) dsp_lib \<Rightarrow> nat \<Rightarrow> nat \<Rightarrow> int \<Rightarrow>
   ('ep, 't, 'd, 'v, 'x) dsp \<Rightarrow> ('ep, 't, 'd, 'v, 'x) dsp res" where
  "new_stream L a sid n d =
     (case sessions d a of
        None \<Rightarrow> Inl Dangling
      | Some ses \<Rightarrow>
          let (st, x) = CreateIncomingDynamicStream (dl_tw L) (ses_packet_num ses) n (dsp_world d)
          in Inr ((set_dsp_world x d)\<lparr>streams := (streams d)((a, sid) \<mapsto> st),
                    alarm_log := alarm_log d @
                      map (Pair (Stream_alarm a sid)) (case st_alarm st of None \<Rightarrow> [] | Some cs \<Rightarrow> cs)\<rparr>))"

definition delete_stream ::
  "nat \<Rightarrow> nat \<Rightarrow> ('ep, 't, 'd, 'v, 'x) dsp \<Rightarrow> ('ep, 't, 'd, 'v, 'x) dsp res" where
  "delete_stream a sid d =
     (case streams d (a, sid) of
        None \<Rightarrow> Inl Dangling
      | Some st \<Rightarrow> rbind (QuicServerStream_delete st) (\<lambda>cs.
          Inr (d\<lparr>streams := (streams d)((a, sid) := None),
                 alarm_log := alarm_log d @ map (Pair (Stream_alarm a sid)) cs\<rparr>)))"

fun run_conn_op ::
  "('ep, 't, 'd, 'v, 'x) dsp_lib \<Rightarrow> nat \<Rightarrow> ('ep, 't) conn_op \<Rightarrow>
   ('ep, 't, 'd, 'v, 'x) dsp \<Rightarrow> ('ep, 't, 'd, 'v, 'x) dsp outcome" where
  "run_conn_op L a (Conn_closed c) d = dsp_OnConnectionClosed L c d"
| "run_conn_op L a Conn_write_blocked d = Some (Inr (dsp_OnWriteBlocked L (Connection a) d))"
| "run_conn_op L a (Conn_write buf self peer) d =
     Some (rbind (qw_write (tw_writer (dl_tw L)) buf self peer (dsp_world d)) (\<lambda>(r, x).
           Inr (set_dsp_world x d)))"
| "run_conn_op L a (Conn_step i) d = Some (Inr (set_dsp_world (conn_step L a i (dsp_world d)) d))"
| "run_conn_op L a (Conn_alarm k c) d = Some (Inr (d\<lparr>alarm_log := alarm_log d @ [(Connection_alarm a k, c)]\<rparr>))"
| "run_conn_op L a (Conn_new_stream sid n) d = Some (new_stream L a sid n d)"
| "run_conn_op L a (Conn_stream_data sid len) d = Some (on_stream a sid (\<lambda>st. snd (ProcessRawData len st)) d)"
| "run_conn_op L a (Conn_stream_fin sid) d = Some (on_stream a sid OnFinRead d)"
| "run_conn_op L a (Conn_delete_stream sid) d = Some (delete_stream a sid d)"

primrec run_conn ::
  "('s \<Rightarrow> 'o \<Rightarrow> 's outcome) \<Rightarrow> ('s, 'o, 'r) client \<Rightarrow> 's \<Rightarrow> 's outcome" where
  "run_conn run (Return r) d = Some (Inr d)"
| "run_conn run (Perform op k) d = obind (run d op) (\<lambda>d. run_conn run (k d) d)"

text \<open>A call on the connection of session \<open>a\<close>.\<close>

definition on_connection ::
  "('ep, 't, 'd, 'v, 'x) dsp_lib \<Rightarrow> nat \<Rightarrow> ('ep, 't, 'd, 'v, 'x) conn_run \<Rightarrow>
   ('ep, 't, 'd, 'v, 'x) dsp \<Rightarrow> ('ep, 't, 'd, 'v, 'x) dsp outcome" where
  "on_connection L a p d =
     (if sessions d a = None then Some (Inl Dangling) else run_conn (\<lambda>d op. run_conn_op L a op d) p d)"

section \<open>Dispatching a packet\<close>

definition CreateQuicSession ::
  "QuicConnectionId \<Rightarrow> ('ep, 't, 'd, 'v, 'x) dsp \<Rightarrow> nat option \<times> ('ep, 't, 'd, 'v, 'x) dsp" where
  "CreateQuicSession connection_id d =
     (let a = next_session d;
          session = QuicServerSession_new connection_id 0;
          session = session_InitializeSession session;
          session = session_SetPacketNum (d_packet_num d) session
      in (Some a, d\<lparr>sessions := (sessions d)(a \<mapsto> session), next_session := Suc a\<rparr>))"

definition HandlePacketForTimeWait ::
  "'v public_header \<Rightarrow> ('ep, 't, 'd, 'v, 'x) dsp \<Rightarrow> (bool \<times> ('ep, 't, 'd, 'v, 'x) dsp) res" where
  "HandlePacketForTimeWait header d =
     (if hdr_reset_flag header then Inr (False, d)
      else rbind (GetQuicVersionFromConnectionId (hdr_connection_id header) (time_wait d)) (\<lambda>v.
           Inr (True, d\<lparr>framer_version := v\<rparr>)))"

definition AdditionalValidityChecksThenCreateSession ::
  "('ep, 't, 'd, 'v, 'x) dsp_lib \<Rightarrow> 'v public_header \<Rightarrow> QuicConnectionId \<Rightarrow>
   ('ep, 't, 'd, 'v, 'x) dsp \<Rightarrow> (nat option \<times> ('ep, 't, 'd, 'v, 'x) dsp) outcome" where
  "AdditionalValidityChecksThenCreateSession L header connection_id d =
     (case CreateQuicSession connection_id d of
        (None, d) \<Rightarrow>
          (case hdr_versions header of
             [] \<Rightarrow> Some (Inl Dangling)
           | version # _ \<Rightarrow>
               if \<not> IsSupportedVersion L version then Some (Inr (None, d))
               else obind (dsp_add_to_time_wait L connection_id version None d) (\<lambda>d.
                    obind (Some (HandlePacketForTimeWait header d)) (\<lambda>(_, d).
                    Some (Inr (None, d)))))
      | (Some a, d) \<Rightarrow> Some (Inr (Some a, d\<lparr>session_map := (connection_id, a) # session_map d\<rparr>)))"

text \<open>The last step: the packet goes to a session; \<open>current_packet_\<close> is set while a packet is processed.\<close>

definition process_on_session ::
  "('ep, 't, 'd, 'v, 'x) dsp_lib \<Rightarrow> nat \<Rightarrow> ('ep, 't, 'd, 'v, 'x) dsp \<Rightarrow>
   (bool \<times> ('ep, 't, 'd, 'v, 'x) dsp) outcome" where
  "process_on_session L a d =
     (case current_packet d of
        None \<Rightarrow> Some (Inl Null_deref)
      | Some packet \<Rightarrow>
          obind (on_connection L a
                   (conn_ProcessUdpPacket L a (current_server_address d) (current_client_address d) packet) d) (\<lambda>d.
          Some (Inr (False, d))))"

definition dsp_OnUnauthenticatedPublicHeader ::
  "('ep, 't, 'd, 'v, 'x) dsp_lib \<Rightarrow> 'v public_header \<Rightarrow>
   ('ep, 't, 'd, 'v, 'x) dsp \<Rightarrow> (bool \<times> ('ep, 't, 'd, 'v, 'x) dsp) outcome" where
  "dsp_OnUnauthenticatedPublicHeader L header d =
     (if ep_port L (current_client_address d) = 0 then Some (Inr (False, d))
      else
        let connection_id = hdr_connection_id header
        in case map_of (session_map d) connection_id of
             None \<Rightarrow>
               if IsConnectionIdInTimeWait connection_id (time_wait d)
               then Some (HandlePacketForTimeWait header d)
               else if hdr_reset_flag header then Some (Inr (False, d))
               else if \<not> hdr_version_flag header
               then (case supported_versions d of
                       [] \<Rightarrow> Some (Inl Dangling)
                     | version # _ \<Rightarrow>
                         obind (dsp_add_to_time_wait L connection_id version None d) (\<lambda>d.
                         Some (HandlePacketForTimeWait header d)))
               else obind (AdditionalValidityChecksThenCreateSession L header connection_id d) (\<lambda>(session, d).
                    case session of
                      None \<Rightarrow> Some (Inr (False, d))
                    | Some a \<Rightarrow> process_on_session L a d)
           | Some a \<Rightarrow> process_on_session L a d)"

definition dsp_OnUnauthenticatedHeader ::
  "('ep, 't, 'd, 'v, 'x) dsp_lib \<Rightarrow> 'v public_header \<Rightarrow> nat \<Rightarrow>
   ('ep, 't, 'd, 'v, 'x) dsp \<Rightarrow> ('ep, 't, 'd, 'v, 'x) dsp res" where
  "dsp_OnUnauthenticatedHeader L header packet_sequence_number d =
     (case current_packet d of
        None \<Rightarrow> Inl Null_deref
      | Some packet \<Rightarrow>
          rbind (tw_ProcessPacket (dl_tw L) (current_server_address d) (current_client_address d)
                   (hdr_connection_id header) packet_sequence_number (time_wait d)) (\<lambda>m.
          Inr (absorb_tw L m d)))"

text \<open>
  \<open>QuicFramerVisitor\<close>: the answer \<open>True\<close> lets the framer go on. For methods without a result the answer means
  nothing. \<open>DCHECK(false)\<close> does not stop a release build.
\<close>

fun run_framer_call ::
  "('ep, 't, 'd, 'v, 'x) dsp_lib \<Rightarrow> 'v framer_call \<Rightarrow>
   ('ep, 't, 'd, 'v, 'x) dsp \<Rightarrow> (bool \<times> ('ep, 't, 'd, 'v, 'x) dsp) outcome" where
  "run_framer_call L Fv_OnPacket d = Some (Inr (True, d))"
| "run_framer_call L (Fv_OnUnauthenticatedPublicHeader header) d =
     dsp_OnUnauthenticatedPublicHeader L header (d\<lparr>visitor_connection_id := hdr_connection_id header\<rparr>)"
| "run_framer_call L (Fv_OnUnauthenticatedHeader header n) d =
     obind (Some (dsp_OnUnauthenticatedHeader L header n d)) (\<lambda>d. Some (Inr (False, d)))"
| "run_framer_call L (Fv_OnProtocolVersionMismatch v) d =
     Some (Inr (IsConnectionIdInTimeWait (visitor_connection_id d) (time_wait d), d))"
| "run_framer_call L Fv_OnError d = Some (Inr (True, d))"
| "run_framer_call L (Fv_payload c) d = Some (Inr (False, d))"

primrec run_framer ::
  "('ep, 't, 'd, 'v, 'x) dsp_lib \<Rightarrow> 'v framer_run \<Rightarrow>
   ('ep, 't, 'd, 'v, 'x) dsp \<Rightarrow> ('ep, 't, 'd, 'v, 'x) dsp outcome" where
  "run_framer L Fr_done d = Some (Inr d)"
| "run_framer L (Fr_call c k) d =
     obind (run_framer_call L c d) (\<lambda>(b, d). run_framer L (k b (framer_version d)) d)"

definition dsp_ProcessPacket ::
  "('ep, 't, 'd, 'v, 'x) dsp_lib \<Rightarrow> 'ep \<Rightarrow> 'ep \<Rightarrow> byte list \<Rightarrow>
   ('ep, 't, 'd, 'v, 'x) dsp \<Rightarrow> ('ep, 't, 'd, 'v, 'x) dsp outcome" where
  "dsp_ProcessPacket L server_address client_address packet d =
     run_framer L (framer_ProcessPacket L packet (framer_version d))
       (d\<lparr>current_server_address := server_address, current_client_address := client_address,
          current_packet := Some packet\<rparr>)"

section \<open>Writing and shutdown\<close>

partial_function (option) blocked_loop ::
  "('ep, 't, 'd, 'v, 'x) dsp_lib \<Rightarrow> ('ep, 't, 'd, 'v, 'x) dsp \<Rightarrow> ('ep, 't, 'd, 'v, 'x) dsp outcome" where
  "blocked_loop L d =
     (case write_blocked_list d of
        [] \<Rightarrow> Some (Inr d)
      | b # bs \<Rightarrow>
          if qw_blocked (tw_writer (dl_tw L)) (dsp_world d) then Some (Inr d)
          else
            let d = d\<lparr>write_blocked_list := bs\<rparr>
            in Option.bind
                 (case b of
                    Time_wait_manager \<Rightarrow>
                      Some (rbind (tw_OnCanWrite (dl_tw L) (time_wait d)) (\<lambda>m. Inr (absorb_tw L m d)))
                  | Connection a \<Rightarrow> on_connection L a (conn_OnCanWrite L a) d) (\<lambda>r.
               case r of Inl e \<Rightarrow> Some (Inl e) | Inr d \<Rightarrow> blocked_loop L d))"

definition dsp_OnCanWrite ::
  "('ep, 't, 'd, 'v, 'x) dsp_lib \<Rightarrow> ('ep, 't, 'd, 'v, 'x) dsp \<Rightarrow> ('ep, 't, 'd, 'v, 'x) dsp outcome" where
  "dsp_OnCanWrite L d = blocked_loop L (set_dsp_world (qw_set_writable (tw_writer (dl_tw L)) (dsp_world d)) d)"

definition HasPendingWrites :: "('ep, 't, 'd, 'v, 'x) dsp \<Rightarrow> bool" where
  "HasPendingWrites d \<longleftrightarrow> write_blocked_list d \<noteq> []"

partial_function (option) shutdown_loop ::
  "('ep, 't, 'd, 'v, 'x) dsp_lib \<Rightarrow> ('ep, 't, 'd, 'v, 'x) dsp \<Rightarrow> ('ep, 't, 'd, 'v, 'x) dsp outcome" where
  "shutdown_loop L d =
     (case session_map d of
        [] \<Rightarrow> Some (Inr d)
      | (_, a) # _ \<Rightarrow>
          Option.bind (on_connection L a (conn_SendConnectionClose L a) d) (\<lambda>r.
          case r of Inl e \<Rightarrow> Some (Inl e) | Inr d \<Rightarrow> shutdown_loop L d))"

definition dsp_Shutdown ::
  "('ep, 't, 'd, 'v, 'x) dsp_lib \<Rightarrow> ('ep, 't, 'd, 'v, 'x) dsp \<Rightarrow> ('ep, 't, 'd, 'v, 'x) dsp outcome" where
  "dsp_Shutdown L d = obind (shutdown_loop L d) (\<lambda>d. Some (Inr (DeleteSessions d)))"

section \<open>Alarms\<close>

text \<open>\<open>OnAlarm\<close> of the two delegates; both return \<open>QuicTime::Zero()\<close>, so neither alarm is set again by it.\<close>

definition DeleteSessionsAlarm_OnAlarm :: "('ep, 't, 'd, 'v, 'x) dsp \<Rightarrow> ('ep, 't, 'd, 'v, 'x) dsp" where
  "DeleteSessionsAlarm_OnAlarm d = DeleteSessions d"

definition ConnectionIdCleanUpAlarm_OnAlarm ::
  "('ep, 't, 'd, 'v, 'x) dsp_lib \<Rightarrow> ('ep, 't, 'd, 'v, 'x) dsp \<Rightarrow> ('ep, 't, 'd, 'v, 'x) dsp" where
  "ConnectionIdCleanUpAlarm_OnAlarm L d = absorb_tw L (CleanUpOldConnectionIds (dl_tw L) (time_wait d)) d"

text \<open>
  An alarm fires. \<open>QuicAlarm::Fire\<close> of libquic runs the delegate and sets the alarm again for the time it returns,
  unless that is \<open>QuicTime::Zero()\<close>; the time a stream returns lies in the future. For the alarms of a
  connection delegate and \<open>Fire\<close> are both libquic's.
\<close>

fun dsp_Fire ::
  "('ep, 't, 'd, 'v, 'x) dsp_lib \<Rightarrow> dsp_alarm \<Rightarrow> ('ep, 't, 'd, 'v, 'x) dsp \<Rightarrow> ('ep, 't, 'd, 'v, 'x) dsp outcome" where
  "dsp_Fire L Connection_id_clean_up_alarm d = Some (Inr (ConnectionIdCleanUpAlarm_OnAlarm L d))"
| "dsp_Fire L Delete_sessions_alarm d = Some (Inr (DeleteSessionsAlarm_OnAlarm d))"
| "dsp_Fire L (Connection_alarm a k) d = on_connection L a (conn_alarm_Fire L a k) d"
| "dsp_Fire L (Stream_alarm a sid) d =
     (case streams d (a, sid) of
        None \<Rightarrow> Some (Inl Dangling)
      | Some st \<Rightarrow>
          let (t, st, x) = stream_OnAlarm (dl_tw L) st (dsp_world d)
          in Some (Inr ((set_dsp_world x d)\<lparr>streams := (streams d)((a, sid) \<mapsto> st),
                          alarm_log := alarm_log d @ [(Stream_alarm a sid, Alarm_Set t)]\<rparr>)))"

section \<open>Construction\<close>

text \<open>
  The constructor followed by \<open>InitializeWithWriter\<close> and \<open>SetPacketNum\<close>, as \<open>QuicServer::Listen\<close> calls
  them. Addresses and framer version are the values the members start with.
\<close>

definition QuicDispatcher_new ::
  "('ep, 't, 'd, 'v, 'x) dsp_lib \<Rightarrow> 'v list \<Rightarrow> 'v \<Rightarrow> 'ep \<Rightarrow> int \<Rightarrow> 'x \<Rightarrow> ('ep, 't, 'd, 'v, 'x) dsp" where
  "QuicDispatcher_new L versions v ep packet_num x =
     (let time_wait_list_manager = QuicTimeWaitListManager_new (dl_tw L) x
      in \<lparr>d_packet_num = packet_num, write_blocked_list = [], session_map = [],
          time_wait = time_wait_list_manager, closed_session_list = [],
          alarm_log = map (Pair Connection_id_clean_up_alarm) (tw_alarm_calls time_wait_list_manager),
          supported_versions = versions,
          current_client_address = ep, current_server_address = ep, current_packet = None,
          framer_version = v, visitor_connection_id = 0, sessions = Map.empty, streams = Map.empty, next_session = 0\<rparr>)"

text \<open>
  The destructor deletes every session with its streams, and the members: each alarm behind the dispatcher
  unregisters itself. The result are these calls.
\<close>

definition QuicDispatcher_delete :: "('ep, 't, 'd, 'v, 'x) dsp \<Rightarrow> (dsp_alarm \<times> 't alarm_call) list" where
  "QuicDispatcher_delete d = map (\<lambda>al. (al, Alarm_Cancel)) (remdups (map fst (alarm_log d)))"

end
