(* ===== verification/Net_Interface.thy ===== *)
theory Net_Interface
  imports Connection_Helper Dispatcher
begin

unbundle bit_operations_syntax

text \<open>
  What the server and the client need of netdp and libquic beyond the socket calls of \<open>Socket_Utils\<close>:
  creating, binding and naming sockets, the rest of IPEndPoint, the flow-control part of QuicConfig.

  A process has one network world \<open>'w\<close>. The event loop reaches it through the object that owns the
  socket, the packet writer through the dispatcher or the connection: \<open>lift_epoll\<close> and \<open>lift_sock\<close> are
  the netdp calls seen from there.
\<close>

section \<open>Parameters\<close>

text \<open>\<open>getsockname\<close> gives its result and the name; libc's works on kernel descriptors, netdp's on its own.\<close>

record 'w netdp_net = "'w netdp_sock" +
  netdpsock_socket :: "int \<Rightarrow> int \<Rightarrow> int \<Rightarrow> 'w \<Rightarrow> int \<times> 'w"
  netdpsock_bind :: "int \<Rightarrow> sockaddr_storage \<Rightarrow> nat \<Rightarrow> 'w \<Rightarrow> int \<times> 'w"
  netdpsock_getsockname :: "int \<Rightarrow> 'w \<Rightarrow> (int \<times> 16 word) \<times> 'w"
  sys_getsockname :: "int \<Rightarrow> 'w \<Rightarrow> (int \<times> sockaddr_storage \<times> nat) \<times> 'w"
  sys_close :: "int \<Rightarrow> 'w \<Rightarrow> int \<times> 'w"

record 'ep endpoint_ops = "'ep ip_endpoint" +
  IPEndPoint_new :: "ip_address \<Rightarrow> 16 word \<Rightarrow> 'ep"
  IPEndPoint_default :: 'ep
  endpoint_address :: "'ep \<Rightarrow> ip_address"
  endpoint_port :: "'ep \<Rightarrow> 16 word"
  GetSockAddrFamily :: "'ep \<Rightarrow> int"

record 'c quic_config =
  GetInitialStreamFlowControlWindowToSend :: "'c \<Rightarrow> 32 word"
  SetInitialStreamFlowControlWindowToSend :: "32 word \<Rightarrow> 'c \<Rightarrow> 'c"
  GetInitialSessionFlowControlWindowToSend :: "'c \<Rightarrow> 32 word"
  SetInitialSessionFlowControlWindowToSend :: "32 word \<Rightarrow> 'c \<Rightarrow> 'c"
  kMinimumFlowControlSendWindow :: "32 word"

definition SOCK_DGRAM :: int where "SOCK_DGRAM = 2"
definition IPPROTO_UDP :: int where "IPPROTO_UDP = 17"
definition sizeof_sockaddr_storage :: nat where "sizeof_sockaddr_storage = 128"

definition kEpollFlags :: mask where
  "kEpollFlags = EPOLLIN OR EPOLLOUT OR EPOLLET"

section \<open>The network inside a larger world\<close>

text \<open>The writer's world also carries \<open>recorded_now_in_us_\<close>, which the clock reads.\<close>

definition on_snd :: "('w \<Rightarrow> 'a \<times> 'w) \<Rightarrow> int \<times> 'w \<Rightarrow> 'a \<times> int \<times> 'w" where
  "on_snd f = (\<lambda>(now, w). let (a, w) = f w in (a, now, w))"

definition lift_sock :: "('w, 'n) netdp_sock_scheme \<Rightarrow> (int \<times> 'w) netdp_sock" where
  "lift_sock S =
     \<lparr>netdpsock_setsockopt = (\<lambda>fd level opt v. on_snd (netdpsock_setsockopt S fd level opt v)),
      netdpsock_recvfrom = (\<lambda>fd n. on_snd (netdpsock_recvfrom S fd n)),
      netdpsock_sendto = (\<lambda>fd buf a. on_snd (netdpsock_sendto S fd buf a)),
      NETDP_EAGAIN = NETDP_EAGAIN S, NETDP_EWOULDBLOCK = NETDP_EWOULDBLOCK S\<rparr>"

definition on_part :: "('q \<Rightarrow> 'w) \<Rightarrow> ('w \<Rightarrow> 'q \<Rightarrow> 'q) \<Rightarrow> ('w \<Rightarrow> 'a \<times> 'w) \<Rightarrow> 'q \<Rightarrow> 'a \<times> 'q" where
  "on_part get put f q = (let (a, w) = f (get q) in (a, put w q))"

definition lift_epoll :: "('q \<Rightarrow> 'w) \<Rightarrow> ('w \<Rightarrow> 'q \<Rightarrow> 'q) \<Rightarrow> ('w, 'n) netdp_epoll_scheme \<Rightarrow> 'q netdp_epoll" where
  "lift_epoll get put N =
     \<lparr>netdpsock_epoll_ctl = (\<lambda>ep op fd m. on_part get put (netdpsock_epoll_ctl N ep op fd m)),
      netdpsock_epoll_wait = (\<lambda>ep n t. on_part get put (netdpsock_epoll_wait N ep n t)),
      netdpsock_close = (\<lambda>fd. on_part get put (netdpsock_close N fd)),
      NETDP_EINTR = NETDP_EINTR N,
      time_now = on_part get put (time_now N)\<rparr>"

lemma lift_epoll_world:
  "\<exists>w'. snd (netdpsock_epoll_wait (lift_epoll get put N) ep n t q) = put w' q"
  "\<exists>w'. snd (time_now (lift_epoll get put N) q) = put w' q"
  "\<exists>w'. snd (netdpsock_epoll_ctl (lift_epoll get put N) ep op fd m q) = put w' q"
  by (auto simp: lift_epoll_def on_part_def split_beta)

text \<open>
  \<open>QuicEpollClock::ApproximateNow\<close> on that world: the recorded time while the event loop runs, the
  system clock otherwise.
\<close>

definition clock_ApproximateNow ::
  "('t, 'd) quic_time \<Rightarrow> ('w, 'n) netdp_epoll_scheme \<Rightarrow> 'p \<times> int \<times> 'w \<Rightarrow> 't \<times> 'p \<times> int \<times> 'w" where
  "clock_ApproximateNow Q N = (\<lambda>(p, now, w).
     if now \<noteq> 0 then (qt_Add Q (qt_Zero Q) (qd_FromMicroseconds Q now), p, now, w)
     else let (us, w) = time_now N w in (qt_Add Q (qt_Zero Q) (qd_FromMicroseconds Q us), p, now, w))"

lemma clock_ApproximateNow_epoll:
  "QuicEpollClock_ApproximateNow Q N s =
     (let (t, p, now, w) = clock_ApproximateNow Q N ((), recorded_now_in_us s, env s) in (t, s\<lparr>env := w\<rparr>))"
  by (simp add: QuicEpollClock_ApproximateNow_def clock_ApproximateNow_def ApproximateNowInUsec_def NowInUsec_def
      split_beta Let_def)

section \<open>Alarms\<close>

text \<open>
  A call a dispatcher or connection makes on one of its \<open>QuicAlarm\<close>s, carried out on the event loop.
  \<open>QuicAlarm::Set\<close> and \<open>Cancel\<close> of libquic call \<open>SetImpl\<close> and \<open>CancelImpl\<close>.
\<close>

fun replay_alarm ::
  "('t, 'd) quic_time \<Rightarrow> 'al \<Rightarrow> 't alarm_call \<Rightarrow> ('cb, 'al, 'w) es \<Rightarrow> ('cb, 'al, 'w) es res" where
  "replay_alarm Q al Alarm_Cancel s = QuicEpollAlarm_CancelImpl al s"
| "replay_alarm Q al (Alarm_Set t) s = QuicEpollAlarm_SetImpl Q t al s"

text \<open>A log of such calls, in the order they were made.\<close>

fun replay_alarms ::
  "('t, 'd) quic_time \<Rightarrow> ('al \<times> 't alarm_call) list \<Rightarrow> ('cb, 'al, 'w) es \<Rightarrow> ('cb, 'al, 'w) es res" where
  "replay_alarms Q [] s = Inr s"
| "replay_alarms Q ((al, c) # cs) s = rbind (replay_alarm Q al c s) (replay_alarms Q cs)"

end
