(* ===== verification/Client.thy ===== *)
theory Client
  imports Net_Interface
begin

unbundle bit_operations_syntax

text \<open>
  \<open>QuicClient\<close>, \<open>QuicClientSession\<close> and \<open>QuicClientStream\<close> (net/tools/quic/quic_client.cc, quic_client_session.cc,
  quic_client_stream.cc and their headers).

  The client object is the world of its event loop, as the server is of its own. A session with its
  connection and streams is libquic's: a value \<open>'s\<close> with the operations the client calls (\<open>conn_act\<close>). Each
  works on the session and on the writer's world and tells which alarms of the connection it set or
  cancelled; these are carried out on the event loop.
\<close>

section \<open>Parameters and state\<close>

type_synonym 'w client_world = "QuicDefaultPacketWriter \<times> int \<times> 'w"

type_synonym ('s, 't, 'al, 'w) conn_act =
  "'s \<Rightarrow> 'w client_world \<Rightarrow> ('s \<times> 'w client_world \<times> ('al \<times> 't alarm_call) list) res"

record ('ep, 't, 'd, 'v, 'i, 'c, 's, 'al, 'w) cl_lib =
  cv_epoll :: "'w netdp_epoll"
  cv_net :: "'w netdp_net"
  cv_ep :: "'ep endpoint_ops"
  cv_time :: "('t, 'd) quic_time"
  cv_config :: "'c quic_config"
  cv_kDefaultSocketReceiveBuffer :: int
  cv_kMaxPacketSize :: nat
  new_session :: "'c \<Rightarrow> 'ep \<Rightarrow> 'i \<Rightarrow> 'v list \<Rightarrow> 'w client_world \<Rightarrow> 's \<times> 'w client_world"
  ses_Initialize :: "'i \<Rightarrow> ('s, 't, 'al, 'w) conn_act"
  crypto_CryptoConnect :: "('s, 't, 'al, 'w) conn_act"
  IsEncryptionEstablished :: "'s \<Rightarrow> bool"
  conn_connected :: "'s \<Rightarrow> bool"
  cl_ProcessUdpPacket :: "'ep \<Rightarrow> 'ep \<Rightarrow> byte list \<Rightarrow> ('s, 't, 'al, 'w) conn_act"
  cl_OnCanWrite :: "('s, 't, 'al, 'w) conn_act"
  cl_SendConnectionClose :: "('s, 't, 'al, 'w) conn_act"
  cl_alarm_Fire :: "'al \<Rightarrow> ('s, 't, 'al, 'w) conn_act"
  ses_alarms :: "'s \<Rightarrow> 'al list"
  GetNextStreamId :: "'s \<Rightarrow> 32 word \<times> 's"
  ActivateStream :: "32 word \<Rightarrow> 's \<Rightarrow> 's"
  WriteOrBufferData :: "32 word \<Rightarrow> string \<Rightarrow> bool \<Rightarrow> ('s, 't, 'al, 'w) conn_act"
  read_side_closed :: "32 word \<Rightarrow> 's \<Rightarrow> bool"

record ('ep, 'v, 'i, 'c, 's, 'w) QuicClient =
  cl_server_address :: 'ep
  cl_server_id :: 'i
  cl_config :: 'c
  cl_client_address :: 'ep
  cl_bind_to_address :: ip_address
  cl_local_port :: int
  cl_writer :: "QuicDefaultPacketWriter option"
  cl_session :: "'s option"
  cl_fd :: int
  cl_initialized :: bool
  cl_packets_dropped :: "64 word"
  cl_overflow_supported :: bool
  cl_supported_versions :: "'v list"
  cl_net :: 'w

type_synonym ('ep, 'v, 'i, 'c, 's, 'w) cli = "('ep, 'v, 'i, 'c, 's, 'w) QuicClient"

datatype client_cb = This_client

type_synonym ('ep, 'v, 'i, 'c, 's, 'al, 'w) cli_es = "(client_cb, 'al, ('ep, 'v, 'i, 'c, 's, 'w) cli) es"

abbreviation put_cl_net :: "'w \<Rightarrow> ('ep, 'v, 'i, 'c, 's, 'w) cli \<Rightarrow> ('ep, 'v, 'i, 'c, 's, 'w) cli" where
  "put_cl_net w q \<equiv> q\<lparr>cl_net := w\<rparr>"

definition client_epoll ::
  "('ep, 't, 'd, 'v, 'i, 'c, 's, 'al, 'w) cl_lib \<Rightarrow> ('ep, 'v, 'i, 'c, 's, 'w) cli netdp_epoll" where
  "client_epoll P = lift_epoll cl_net put_cl_net (cv_epoll P)"

text \<open>\<open>config\<close> is a default-constructed QuicConfig. The event loop belongs to the caller.\<close>

definition QuicClient_new ::
  "('ep, 't, 'd, 'v, 'i, 'c, 's, 'al, 'w) cl_lib \<Rightarrow> 'ep \<Rightarrow> 'i \<Rightarrow> 'v list \<Rightarrow> 'c \<Rightarrow>
   ('ep, 'v, 'i, 'c, 's, 'al, 'w) cli_es \<Rightarrow> ('ep, 'v, 'i, 'c, 's, 'al, 'w) cli_es" where
  "QuicClient_new P server_address server_id versions config s = s\<lparr>env :=
     \<lparr>cl_server_address = server_address, cl_server_id = server_id, cl_config = config,
      cl_client_address = IPEndPoint_default (cv_ep P), cl_bind_to_address = [], cl_local_port = 0,
      cl_writer = None, cl_session = None, cl_fd = -1, cl_initialized = False, cl_packets_dropped = 0,
      cl_overflow_supported = False, cl_supported_versions = versions, cl_net = cl_net (env s)\<rparr>\<rparr>"

section \<open>Initialization\<close>

definition on_cl_net ::
  "('w \<Rightarrow> 'a \<times> 'w) \<Rightarrow> ('ep, 'v, 'i, 'c, 's, 'w) cli \<Rightarrow> 'a \<times> ('ep, 'v, 'i, 'c, 's, 'w) cli" where
  "on_cl_net f q = on_part cl_net put_cl_net f q"

text \<open>
  The end of \<open>CreateUDPSocket\<close>. A failing \<open>netdpsock_getsockname\<close> is only logged; \<open>sin_port\<close> is then what the
  structure held. It is used without a change of byte order.
\<close>

definition client_bind ::
  "('ep, 't, 'd, 'v, 'i, 'c, 's, 'al, 'w) cl_lib \<Rightarrow> int \<Rightarrow> ('ep, 'v, 'i, 'c, 's, 'w) cli \<Rightarrow>
   (bool \<times> ('ep, 'v, 'i, 'c, 's, 'w) cli) res" where
  "client_bind P address_family q =
     (let S = cv_net P; E = cv_ep P; fd = cl_fd q; port = word_of_int (cl_local_port q);
          q = q\<lparr>cl_client_address :=
                 (if length (cl_bind_to_address q) \<noteq> 0 then IPEndPoint_new E (cl_bind_to_address q) port
                  else if address_family = AF_INET then IPEndPoint_new E (replicate 4 0) port
                  else IPEndPoint_new E (replicate 16 0) port)\<rparr>
      in case ToSockAddr E (cl_client_address q) of
           None \<Rightarrow> Inl (Check_failed ''client_address_.ToSockAddr'')
         | Some raw_addr \<Rightarrow>
             let (rc, q) = on_cl_net (netdpsock_bind S fd raw_addr (if ss_family raw_addr = AF_INET then 16 else 28)) q
             in if rc < 0 then Inr (False, q)
                else
                  let ((_, sin_port), q) = on_cl_net (netdpsock_getsockname S fd) q
                  in Inr (True, q\<lparr>cl_client_address := IPEndPoint_new E (replicate 4 0) sin_port\<rparr>))"

definition CreateUDPSocket ::
  "('ep, 't, 'd, 'v, 'i, 'c, 's, 'al, 'w) cl_lib \<Rightarrow> ('ep, 'v, 'i, 'c, 's, 'w) cli \<Rightarrow>
   (bool \<times> ('ep, 'v, 'i, 'c, 's, 'w) cli) res" where
  "CreateUDPSocket P q =
     (let S = cv_net P;
          address_family = GetSockAddrFamily (cv_ep P) (cl_server_address q);
          (fd, q) = on_cl_net (netdpsock_socket S address_family SOCK_DGRAM IPPROTO_UDP) q;
          q = q\<lparr>cl_fd := fd\<rparr>
      in if fd < 0 then Inr (False, q)
         else
           let (rc, q) = on_cl_net (netdpsock_setsockopt S fd SOL_SOCKET SO_RXQ_OVFL 1) q;
               q = (if rc < 0 then q else q\<lparr>cl_overflow_supported := True\<rparr>);
               (ok, q) = on_cl_net (SetReceiveBufferSize S fd (cv_kDefaultSocketReceiveBuffer P)) q
           in if \<not> ok then Inr (False, q)
              else
                let (ok, q) = on_cl_net (SetSendBufferSize S fd (cv_kDefaultSocketReceiveBuffer P)) q
                in if \<not> ok then Inr (False, q)
                   else
                     let (rc, q) = on_cl_net (SetGetAddressInfo S fd address_family) q
                     in if rc < 0 then Inr (False, q) else client_bind P address_family q)"

definition client_Initialize ::
  "('ep, 't, 'd, 'v, 'i, 'c, 's, 'al, 'w) cl_lib \<Rightarrow> ('ep, 'v, 'i, 'c, 's, 'al, 'w) cli_es \<Rightarrow>
   (bool \<times> ('ep, 'v, 'i, 'c, 's, 'al, 'w) cli_es) res" where
  "client_Initialize P s =
     (let C = cv_config P; q = env s; config = cl_config q;
          config = (if GetInitialStreamFlowControlWindowToSend C config = kMinimumFlowControlSendWindow C
                    then SetInitialStreamFlowControlWindowToSend C (10 * 1024 * 1024) config else config);
          config = (if GetInitialSessionFlowControlWindowToSend C config = kMinimumFlowControlSendWindow C
                    then SetInitialSessionFlowControlWindowToSend C (10 * 1024 * 1024) config else config);
          s = set_timeout_in_us (50 * 1000) (s\<lparr>env := q\<lparr>cl_config := config\<rparr>\<rparr>)
      in rbind (CreateUDPSocket P (env s)) (\<lambda>(ok, q).
         let s = s\<lparr>env := q\<rparr>
         in if \<not> ok then Inr (False, s)
            else rbind (RegisterFD (client_epoll P) (cl_fd q) (Some This_client) kEpollFlags s) (\<lambda>s.
                 Inr (True, s\<lparr>env := (env s)\<lparr>cl_initialized := True\<rparr>\<rparr>))))"

section \<open>Calling the session\<close>

text \<open>A call on \<open>session_\<close> or its connection; the writer is \<open>*writer_\<close>.\<close>

definition on_session ::
  "('ep, 't, 'd, 'v, 'i, 'c, 's, 'al, 'w) cl_lib \<Rightarrow> ('s, 't, 'al, 'w) conn_act \<Rightarrow>
   ('ep, 'v, 'i, 'c, 's, 'al, 'w) cli_es \<Rightarrow> ('ep, 'v, 'i, 'c, 's, 'al, 'w) cli_es res" where
  "on_session P act s =
     (case (cl_session (env s), cl_writer (env s)) of
        (Some ses, Some wr) \<Rightarrow>
          rbind (act ses (wr, recorded_now_in_us s, cl_net (env s))) (\<lambda>(ses, (wr, _, w), alarms).
          replay_alarms (cv_time P) alarms
            (s\<lparr>env := (env s)\<lparr>cl_session := Some ses, cl_writer := Some wr, cl_net := w\<rparr>\<rparr>))
      | _ \<Rightarrow> Inl Null_deref)"

definition connected :: "('ep, 't, 'd, 'v, 'i, 'c, 's, 'al, 'w) cl_lib \<Rightarrow> ('ep, 'v, 'i, 'c, 's, 'w) cli \<Rightarrow> bool" where
  "connected P q = (case cl_session q of None \<Rightarrow> False | Some ses \<Rightarrow> conn_connected P ses)"

section \<open>Events\<close>

text \<open>\<open>client_ip\<close> keeps its value, the client's own address: \<open>ReadPacket\<close> does not set it.\<close>

definition ReadAndProcessPacket ::
  "('ep, 't, 'd, 'v, 'i, 'c, 's, 'al, 'w) cl_lib \<Rightarrow> ('ep, 'v, 'i, 'c, 's, 'al, 'w) cli_es \<Rightarrow>
   (bool \<times> ('ep, 'v, 'i, 'c, 's, 'al, 'w) cli_es) res" where
  "ReadAndProcessPacket P s =
     (let E = cv_ep P; q = env s; client_ip = endpoint_address E (cl_client_address q)
      in rbind (ReadPacket (cv_net P) E (cl_fd q) (2 * cv_kMaxPacketSize P) (IPEndPoint_default E) (cl_net q)) (\<lambda>(rp, w).
         let s = s\<lparr>env := put_cl_net w q\<rparr>
         in if rp_result rp < 0 then Inr (False, s)
            else rbind (on_session P
                          (cl_ProcessUdpPacket P (IPEndPoint_new E client_ip (endpoint_port E (cl_client_address q))) (rp_peer rp)
                             (take (nat (rp_result rp)) (rp_data rp))) s) (\<lambda>s.
                 Inr (True, s))))"

partial_function (option) client_read_loop ::
  "('ep, 't, 'd, 'v, 'i, 'c, 's, 'al, 'w) cl_lib \<Rightarrow> ('ep, 'v, 'i, 'c, 's, 'al, 'w) cli_es \<Rightarrow>
   ('ep, 'v, 'i, 'c, 's, 'al, 'w) cli_es outcome" where
  "client_read_loop L s =
     (if \<not> connected L (env s) then Some (Inr s)
      else case ReadAndProcessPacket L s of
             Inl e \<Rightarrow> Some (Inl e)
           | Inr (read, s) \<Rightarrow> if read then client_read_loop L s else Some (Inr s))"

definition client_SetWritable :: "('ep, 'v, 'i, 'c, 's, 'al, 'w) cli_es \<Rightarrow> ('ep, 'v, 'i, 'c, 's, 'al, 'w) cli_es res" where
  "client_SetWritable s =
     (case cl_writer (env s) of
        None \<Rightarrow> Inl Null_deref
      | Some wr \<Rightarrow> Inr (s\<lparr>env := (env s)\<lparr>cl_writer := Some (writer_SetWritable wr)\<rparr>\<rparr>))"

text \<open>\<open>out_ready_mask\<close> keeps the 0 it is constructed with.\<close>

definition client_OnEvent ::
  "('ep, 't, 'd, 'v, 'i, 'c, 's, 'al, 'w) cl_lib \<Rightarrow> (client_cb, 'al, ('ep, 'v, 'i, 'c, 's, 'w) cli) event_fn" where
  "client_OnEvent P cb fd in_events s =
     obind (if in_events AND EPOLLIN \<noteq> 0 then client_read_loop P s else Some (Inr s)) (\<lambda>s.
     obind (if connected P (env s) \<and> in_events AND EPOLLOUT \<noteq> 0
            then Some (rbind (client_SetWritable s) (on_session P (cl_OnCanWrite P))) else Some (Inr s)) (\<lambda>s.
     Some (Inr (0, s))))"

text \<open>The alarms are the connection's own: \<open>QuicAlarm::Fire\<close> runs libquic's delegate.\<close>

definition client_OnAlarm ::
  "('ep, 't, 'd, 'v, 'i, 'c, 's, 'al, 'w) cl_lib \<Rightarrow> (client_cb, 'al, ('ep, 'v, 'i, 'c, 's, 'w) cli) alarm_fn" where
  "client_OnAlarm P al s =
     (let (_, s) = EpollAlarm_OnAlarm al s
      in Some (rbind (on_session P (cl_alarm_Fire P al) s) (\<lambda>s. Inr (0, s))))"

definition client_WaitForEvents ::
  "('ep, 't, 'd, 'v, 'i, 'c, 's, 'al, 'w) cl_lib \<Rightarrow> ('ep, 'v, 'i, 'c, 's, 'al, 'w) cli_es \<Rightarrow>
   ('ep, 'v, 'i, 'c, 's, 'al, 'w) cli_es outcome" where
  "client_WaitForEvents P s = WaitForEventsAndExecuteCallbacks (client_epoll P) (client_OnEvent P) (client_OnAlarm P) s"

section \<open>Connecting\<close>

text \<open>\<open>QuicClientSession::InitializeSession\<close> and \<open>CryptoConnect\<close>.\<close>

definition InitializeSession ::
  "('ep, 't, 'd, 'v, 'i, 'c, 's, 'al, 'w) cl_lib \<Rightarrow> ('ep, 'v, 'i, 'c, 's, 'al, 'w) cli_es \<Rightarrow>
   ('ep, 'v, 'i, 'c, 's, 'al, 'w) cli_es res" where
  "InitializeSession P s = on_session P (ses_Initialize P (cl_server_id (env s))) s"

definition CryptoConnect ::
  "('ep, 't, 'd, 'v, 'i, 'c, 's, 'al, 'w) cl_lib \<Rightarrow> ('ep, 'v, 'i, 'c, 's, 'al, 'w) cli_es \<Rightarrow>
   ('ep, 'v, 'i, 'c, 's, 'al, 'w) cli_es res" where
  "CryptoConnect P s = on_session P (crypto_CryptoConnect P) s"

definition handshaking :: "('ep, 't, 'd, 'v, 'i, 'c, 's, 'al, 'w) cl_lib \<Rightarrow> ('ep, 'v, 'i, 'c, 's, 'w) cli \<Rightarrow> bool" where
  "handshaking P q = (case cl_session q of
     None \<Rightarrow> False | Some ses \<Rightarrow> \<not> IsEncryptionEstablished P ses \<and> conn_connected P ses)"

text \<open>A loop that waits for events while \<open>c\<close> holds of the client.\<close>

partial_function (option) wait_while ::
  "('ep, 't, 'd, 'v, 'i, 'c, 's, 'al, 'w) cl_lib \<Rightarrow> (('ep, 'v, 'i, 'c, 's, 'w) cli \<Rightarrow> bool) \<Rightarrow>
   ('ep, 'v, 'i, 'c, 's, 'al, 'w) cli_es \<Rightarrow> ('ep, 'v, 'i, 'c, 's, 'al, 'w) cli_es outcome" where
  "wait_while L c s =
     (if c (env s)
      then Option.bind (client_WaitForEvents L s) (\<lambda>r. case r of Inl e \<Rightarrow> Some (Inl e) | Inr s \<Rightarrow> wait_while L c s)
      else Some (Inr s))"

definition connect_loop ::
  "('ep, 't, 'd, 'v, 'i, 'c, 's, 'al, 'w) cl_lib \<Rightarrow> ('ep, 'v, 'i, 'c, 's, 'al, 'w) cli_es \<Rightarrow>
   ('ep, 'v, 'i, 'c, 's, 'al, 'w) cli_es outcome" where
  "connect_loop P s = wait_while P (handshaking P) s"

text \<open>
  Deleting a session deletes its connection with the alarms it created: \<open>~EpollAlarm\<close> takes each off the
  event loop.
\<close>

fun delete_alarms :: "'al list \<Rightarrow> ('cb, 'al, 'w) es \<Rightarrow> ('cb, 'al, 'w) es res" where
  "delete_alarms [] s = Inr s"
| "delete_alarms (al # als) s = rbind (EpollAlarm_delete al s) (delete_alarms als)"

definition delete_session ::
  "('ep, 't, 'd, 'v, 'i, 'c, 's, 'al, 'w) cl_lib \<Rightarrow> ('ep, 'v, 'i, 'c, 's, 'al, 'w) cli_es \<Rightarrow>
   ('ep, 'v, 'i, 'c, 's, 'al, 'w) cli_es res" where
  "delete_session P s = (case cl_session (env s) of None \<Rightarrow> Inr s | Some ses \<Rightarrow> delete_alarms (ses_alarms P ses) s)"

text \<open>
  \<open>session_.reset\<close> deletes the old session once the new one is made; the new writer then replaces the old
  one.
\<close>

definition start_session ::
  "('ep, 't, 'd, 'v, 'i, 'c, 's, 'al, 'w) cl_lib \<Rightarrow> ('ep, 'v, 'i, 'c, 's, 'al, 'w) cli_es \<Rightarrow>
   ('ep, 'v, 'i, 'c, 's, 'al, 'w) cli_es res" where
  "start_session P s =
     (let q = env s; writer = QuicDefaultPacketWriter_new (cl_fd q);
          (ses, (wr, _, w)) = new_session P (cl_config q) (cl_server_address q) (cl_server_id q) (cl_supported_versions q)
             (writer, recorded_now_in_us s, cl_net q)
      in rbind (delete_session P s) (\<lambda>s.
         Inr (s\<lparr>env := q\<lparr>cl_session := Some ses, cl_writer := Some wr, cl_net := w\<rparr>\<rparr>)))"

definition client_Connect ::
  "('ep, 't, 'd, 'v, 'i, 'c, 's, 'al, 'w) cl_lib \<Rightarrow> ('ep, 'v, 'i, 'c, 's, 'al, 'w) cli_es \<Rightarrow>
   (bool \<times> ('ep, 'v, 'i, 'c, 's, 'al, 'w) cli_es) outcome" where
  "client_Connect P s =
     obind (Some (rbind (start_session P s) (\<lambda>s. rbind (InitializeSession P s) (CryptoConnect P)))) (\<lambda>s.
     obind (connect_loop P s) (\<lambda>s. Some (Inr (connected P (env s), s))))"

section \<open>Streams\<close>

text \<open>The stream is known by its id; \<open>NULL\<close> when the client is not connected.\<close>

definition CreateClientStream ::
  "('ep, 't, 'd, 'v, 'i, 'c, 's, 'al, 'w) cl_lib \<Rightarrow> ('ep, 'v, 'i, 'c, 's, 'al, 'w) cli_es \<Rightarrow>
   32 word option \<times> ('ep, 'v, 'i, 'c, 's, 'al, 'w) cli_es" where
  "CreateClientStream P s =
     (case cl_session (env s) of
        None \<Rightarrow> (None, s)
      | Some ses \<Rightarrow>
          if \<not> conn_connected P ses then (None, s)
          else let (id, ses) = GetNextStreamId P ses
               in (Some id, s\<lparr>env := (env s)\<lparr>cl_session := Some (ActivateStream P id ses)\<rparr>\<rparr>))"

definition client_ProcessRawData :: "32 word \<Rightarrow> 32 word" where
  "client_ProcessRawData data_len = data_len"

definition client_EffectivePriority :: int where
  "client_EffectivePriority = 0"

definition client_WriteStringPiece ::
  "('ep, 't, 'd, 'v, 'i, 'c, 's, 'al, 'w) cl_lib \<Rightarrow> 32 word \<Rightarrow> string \<Rightarrow> bool \<Rightarrow>
   ('ep, 'v, 'i, 'c, 's, 'al, 'w) cli_es \<Rightarrow> ('ep, 'v, 'i, 'c, 's, 'al, 'w) cli_es res" where
  "client_WriteStringPiece P stream data fin s = on_session P (WriteOrBufferData P stream data fin) s"

section \<open>Disconnecting\<close>

definition client_Disconnect ::
  "('ep, 't, 'd, 'v, 'i, 'c, 's, 'al, 'w) cl_lib \<Rightarrow> ('ep, 'v, 'i, 'c, 's, 'al, 'w) cli_es \<Rightarrow>
   ('ep, 'v, 'i, 'c, 's, 'al, 'w) cli_es res" where
  "client_Disconnect P s =
     rbind (if connected P (env s) then on_session P (cl_SendConnectionClose P) s else Inr s) (\<lambda>s.
     rbind (if cl_fd (env s) > -1
            then rbind (UnregisterFD (client_epoll P) (cl_fd (env s)) s) (\<lambda>s.
                 let (_, q) = on_cl_net (netdpsock_close (cv_epoll P) (cl_fd (env s))) (env s)
                 in Inr (s\<lparr>env := q\<lparr>cl_fd := -1\<rparr>\<rparr>))
            else Inr s) (\<lambda>s.
     Inr (s\<lparr>env := (env s)\<lparr>cl_initialized := False\<rparr>\<rparr>)))"

text \<open>The destructor; afterwards the members are destroyed.\<close>

definition QuicClient_delete ::
  "('ep, 't, 'd, 'v, 'i, 'c, 's, 'al, 'w) cl_lib \<Rightarrow> ('ep, 'v, 'i, 'c, 's, 'al, 'w) cli_es \<Rightarrow>
   ('ep, 'v, 'i, 'c, 's, 'al, 'w) cli_es res" where
  "QuicClient_delete P s =
     rbind (client_Disconnect P s) (\<lambda>s.
     rbind (delete_session P s) (\<lambda>s.
     Inr (s\<lparr>env := (env s)\<lparr>cl_session := None, cl_writer := None\<rparr>\<rparr>)))"

end
