(* ===== verification/Epoll_Env.thy ===== *)
theory Epoll_Env
  imports Epoll_Round
begin

text \<open>
  Event loops whose callbacks rely on an invariant \<open>J\<close> of their own data: a callback such as the QUIC
  server's works only while its object is sound. \<open>env_callbacks\<close> is the contract of such callbacks, with the
  rank of each alarm: they return when \<open>J\<close> holds, and keep it, and an alarm that fires makes at most alarms
  due that rank lower than it did. It gives the contract of the event loop.
\<close>

section \<open>The contract\<close>

locale env_callbacks = event_loop J on_event on_alarm N rank
  for J :: "('cb, 'al, 'w) es \<Rightarrow> bool" and on_event :: "('cb, 'al, 'w) event_fn" and on_alarm :: "('cb, 'al, 'w) alarm_fn"
    and N :: "('w, 'n) netdp_epoll_scheme" and rank :: "'w \<Rightarrow> 'al \<Rightarrow> nat" +
  assumes lower_rank: "server_ok None s \<Longrightarrow> J s \<Longrightarrow> map_of (alarm_map s) k = Some (t, al) \<Longrightarrow>
     on_alarm al (s\<lparr>all_alarms := all_alarms s - {al}\<rparr>) = Some (Inr (t', s')) \<Longrightarrow>
     e \<in> set (alarm_map s') \<Longrightarrow> alarm_time e \<le> recorded_now_in_us s \<Longrightarrow> fst e \<noteq> k \<Longrightarrow> lower_entry rank al s s' e"
begin

lemma env_round_ok:
  assumes "quiescent s" "J s"
  shows "returns_ok (\<lambda>s'. quiescent s' \<and> J s') (WaitForEventsAndExecuteCallbacks N on_event on_alarm s)"
proof (rule round_ok [OF assms(1) _ assms(2)])
  show "adds_lower J rank on_alarm" unfolding adds_lower_def using lower_rank by blast
qed

end

section \<open>Registration between rounds\<close>

text \<open>What an owner of the event loop sees of \<open>RegisterFD\<close> and \<open>UnregisterFD\<close> between two rounds.\<close>

lemma quiescent_register:
  assumes q: "quiescent s"
  shows "case RegisterFD N fd (Some c) m s of
      Inl e \<Rightarrow> benign e
    | Inr u \<Rightarrow> quiescent u \<and> registry u = (registry s)(fd \<mapsto> (c, m)) \<and> alarm_side u = alarm_side s \<and> epoll_fd u = epoll_fd s \<and>
        env u = snd (netdpsock_epoll_ctl N (epoll_fd s) (register_op (registry s fd)) fd (full_mask m) (env s))"
proof -
  let ?op = "Api_fd (Do_Register fd c m)"
  have ok: "server_ok None s" using q by (simp add: quiescent_def)
  then obtain rs ts where w: "es_wf s rs ts" by (auto simp: server_ok_def es_inv_def)
  show ?thesis
  proof (cases "RegisterFD N fd (Some c) m s")
    case (Inl e)
    with run_api_op_ok [OF ok, of N ?op] show ?thesis by simp
  next
    case (Inr u)
    have "quiescent u" by (rule quiescent_call [OF q, of N ?op]) (simp add: Inr)
    moreover have "alarm_side u = alarm_side s" by (rule side_run_fd_op [of N "Do_Register fd c m"]) (simp add: Inr)
    moreover obtain w' where w': "netdpsock_epoll_ctl N (epoll_fd s) (register_op (registry s fd)) fd (full_mask m) (env s) = (0, w')"
      by (rule RegisterFD_accepted [OF w Inr])
    moreover obtain u' where "RegisterFD N fd (Some c) m s = Inr u'"
      "outcome_is s ((registry s)(fd \<mapsto> (c, m))) (register_calls (registry s fd) c fd m) w' u'"
      by (rule RegisterFD_outcome [OF w w'])
    ultimately show ?thesis using Inr by (simp add: outcome_is_def)
  qed
qed

lemma quiescent_unregister:
  assumes q: "quiescent s"
  shows "case UnregisterFD N fd s of
      Inl e \<Rightarrow> benign e
    | Inr u \<Rightarrow> quiescent u \<and> registry u = (registry s)(fd := None) \<and> alarm_side u = alarm_side s \<and> epoll_fd u = epoll_fd s \<and>
        env u = (if registry s fd = None then env s else snd (netdpsock_epoll_ctl N (epoll_fd s) EPOLL_CTL_DEL fd 0 (env s)))"
proof -
  let ?op = "Api_fd (Do_Unregister fd)"
  have ok: "server_ok None s" using q by (simp add: quiescent_def)
  then obtain rs ts where w: "es_wf s rs ts" by (auto simp: server_ok_def es_inv_def)
  show ?thesis
  proof (cases "registry s fd")
    case None
    with UnregisterFD_unknown [OF w None, of N] q show ?thesis by (simp add: fun_upd_idem)
  next
    case (Some cm)
    obtain c m where reg: "registry s fd = Some (c, m)" using Some by (cases cm) simp
    show ?thesis
    proof (cases "UnregisterFD N fd s")
      case (Inl e)
      with run_api_op_ok [OF ok, of N ?op] show ?thesis by simp
    next
      case (Inr u)
      have "quiescent u" by (rule quiescent_call [OF q, of N ?op]) (simp add: Inr)
      moreover have "alarm_side u = alarm_side s" by (rule side_run_fd_op [of N "Do_Unregister fd"]) (simp add: Inr)
      moreover have "fst (netdpsock_epoll_ctl N (epoll_fd s) EPOLL_CTL_DEL fd 0 (env s)) = 0"
      proof -
        obtain a n where a: "map_of (cb_map s) fd = Some a" "nodes s a = Some n" "deref a s = Inr n" "ce_cb n = Some c"
          by (rule registry_SomeE [OF w reg]) blast
        obtain t where "RemoveFromReadyList a s = Inr t" "env t = env s" "epoll_fd t = epoll_fd s"
          by (rule RemoveFromReadyList_frame [OF w a(2)]) blast
        with Inr a show ?thesis by (auto simp: UnregisterFD_def rbind_eq_Inr DelFD_def split: prod.splits if_splits)
      qed
      then obtain w' where w': "netdpsock_epoll_ctl N (epoll_fd s) EPOLL_CTL_DEL fd 0 (env s) = (0, w')"
        by (metis prod.collapse)
      moreover obtain u' where "UnregisterFD N fd s = Inr u'"
        "outcome_is s ((registry s)(fd := None)) [OnUnregistration c fd False] w' u'"
        by (rule UnregisterFD_outcome [OF w reg w'])
      ultimately show ?thesis using Inr reg by (simp add: outcome_is_def)
    qed
  qed
qed

end
