(* ===== verification/Alarm_Log.thy ===== *)
theory Alarm_Log
  imports Time_Wait
begin

text \<open>
  Which alarms a log of calls leaves set. Sessions, streams and connections only record the calls they
  make on their alarms; \<open>arm\<close> reads such a record.
\<close>

text \<open>The alarms that are set after a list of calls, if those of \<open>A\<close> were before.\<close>

fun arm :: "'al set \<Rightarrow> ('al \<times> 't alarm_call) list \<Rightarrow> 'al set" where
  "arm A [] = A"
| "arm A ((al, Alarm_Set t) # cs) = arm (insert al A) cs"
| "arm A ((al, Alarm_Cancel) # cs) = arm (A - {al}) cs"

lemma arm_append [simp]: "arm A (cs @ cs') = arm (arm A cs) cs'"
  by (induction A cs rule: arm.induct) simp_all

lemma arm_mono: "A \<subseteq> B \<Longrightarrow> arm A cs \<subseteq> arm B cs"
proof (induction A cs arbitrary: B rule: arm.induct)
  case (2 A al t cs)
  then show ?case using "2.IH" [of "insert al B"] by auto
next
  case (3 A al cs)
  then have "A - {al} \<subseteq> B - {al}" by blast
  then show ?case using "3.IH" [of "B - {al}"] by simp
qed simp

lemma arm_subset: "arm A cs \<subseteq> A \<union> fst ` set cs"
  by (induction A cs rule: arm.induct) auto

lemma arm_cancels: "arm A (map (\<lambda>al. (al, Alarm_Cancel)) als) = A - set als"
  by (induction als arbitrary: A) auto

lemma arm_tagged: "arm A (map (Pair al) cs) \<subseteq> insert al A"
  using arm_subset [of A "map (Pair al) cs"] by auto

end
