(* ===== verification/Alarm_Replay.thy ===== *)
theory Alarm_Replay
  imports Net_Interface Epoll_Env Alarm_Log
begin

text \<open>
  Calls on QuicAlarms carried out on the event loop keep it sound, leave the world and the descriptor
  registrations alone, add only the entries they set, and register exactly the alarms their log leaves set.
\<close>

section \<open>One call\<close>

definition us_of :: "('t, 'd) quic_time \<Rightarrow> 't \<Rightarrow> int" where
  "us_of Q t = qd_ToMicroseconds Q (qt_Subtract Q t (qt_Zero Q))"

lemma replay_alarm_cases:
  assumes "replay_alarm Q al c s = Inr u"
  obtains "c = Alarm_Cancel" "UnregisterIfRegistered al s = Inr u"
  | t where "c = Alarm_Set t" "RegisterAlarm (us_of Q t) (Some al) s = Inr u"
  using assms by (cases c) (auto simp: QuicEpollAlarm_CancelImpl_def QuicEpollAlarm_SetImpl_def us_of_def)

lemma replay_alarm_call:
  assumes "server_ok cur s"
  shows "case replay_alarm Q al c s of Inl e \<Rightarrow> benign e | Inr u \<Rightarrow> call_ok cur s u"
  using run_api_op_ok [OF assms, of undefined "Api_unregister_alarm al"]
    run_api_op_ok [OF assms, of undefined "Api_register_alarm (us_of Q t) al" for t]
  by (cases c) (simp_all add: QuicEpollAlarm_CancelImpl_def QuicEpollAlarm_SetImpl_def us_of_def)

lemma registry_alarm_fields:
  "cb_map s' = cb_map s \<Longrightarrow> nodes s' = nodes s \<Longrightarrow> registry s' = registry s"
  by (rule ext) (simp add: registry_def split: option.split)

lemma Unregister_effect:
  assumes "UnregisterIfRegistered al s = Inr u"
  shows "env u = env s" "registry u = registry s" "set (alarm_map u) \<subseteq> set (alarm_map s)" "next_token u = next_token s"
  using assms
  by (auto simp: UnregisterIfRegistered_def UnregisterAlarm_def EpollAlarm_OnUnregistration_def upd_alarm_def Let_def
      AList.delete_eq intro!: registry_alarm_fields split: if_splits option.splits)

lemma Unregister_alarms:
  assumes "UnregisterIfRegistered al s = Inr u" "alarm_wf cur s"
  shows "all_alarms u = all_alarms s - {al}"
proof (cases "ea_registered (alarm_objs s al)")
  case False
  with assms alarm_okD(5) [OF assms(2) [unfolded alarm_wf_def], of al] show ?thesis
    by (auto simp: UnregisterIfRegistered_idle)
next
  case True
  then obtain k t where "ea_token (alarm_objs s al) = Some k" "map_of (alarm_map s) k = Some (t, al)"
    using alarm_okD(5,6) [OF assms(2) [unfolded alarm_wf_def]] by metis
  with assms(1) True show ?thesis
    by (auto simp: UnregisterIfRegistered_def UnregisterAlarm_def EpollAlarm_OnUnregistration_def upd_alarm_def Let_def
        split: if_splits)
qed

lemma Register_effect:
  assumes "RegisterAlarm t (Some al) s = Inr u"
  shows "env u = env s" "registry u = registry s" "set (alarm_map u) = insert (next_token s, t, al) (set (alarm_map s))"
    "next_token s \<le> next_token u" "all_alarms u = insert al (all_alarms s)"
  using assms RegisterAlarm_fields(1) [OF assms]
  by (auto simp: RegisterAlarm_def EpollAlarm_OnRegistration_def upd_alarm_def Let_def
      intro!: registry_alarm_fields split: if_splits)

lemma replay_alarm_effect:
  assumes "replay_alarm Q al c s = Inr u"
  shows "env u = env s" "registry u = registry s" "next_token s \<le> next_token u"
  using assms by (cases rule: replay_alarm_cases; simp add: Unregister_effect Register_effect)+

lemma replay_alarm_entries:
  assumes "replay_alarm Q al c s = Inr u" "e \<in> set (alarm_map u)"
  shows "e \<in> set (alarm_map s) \<or>
    (\<exists>t. c = Alarm_Set t \<and> alarm_time e = us_of Q t \<and> next_token s \<le> fst e \<and> snd (snd e) = al)"
  using assms(1)
proof (cases rule: replay_alarm_cases)
  case 1
  with assms(2) Unregister_effect(3) [OF 1(2)] show ?thesis by blast
next
  case (2 t)
  with assms(2) Register_effect(3) [OF 2(2)] show ?thesis by (auto simp: alarm_time_def)
qed

lemma replay_alarm_arm:
  assumes "replay_alarm Q al c s = Inr u" "alarm_wf cur s"
  shows "all_alarms u = arm (all_alarms s) [(al, c)]"
  using assms(1) by (cases rule: replay_alarm_cases) (simp_all add: Unregister_alarms [OF _ assms(2)] Register_effect(5))

lemma server_ok_env: "server_ok cur s \<Longrightarrow> call_ok cur s (s\<lparr>env := q\<rparr>)"
  using run_api_op_ok [of cur s undefined "Api_world (\<lambda>_. q)"] by simp

lemma quiescent_env: "quiescent s \<Longrightarrow> quiescent (s\<lparr>env := q\<rparr>)"
  by (rule quiescent_call_ok [OF _ server_ok_env]) (simp_all add: quiescent_def)

section \<open>A log of calls\<close>

lemma replay_alarms_env: "replay_alarms Q cs s = Inr s' \<Longrightarrow> env s' = env s"
  by (induction Q cs s rule: replay_alarms.induct) (auto simp: rbind_eq_Inr replay_alarm_effect(1))

lemma replay_alarms_registry: "replay_alarms Q cs s = Inr s' \<Longrightarrow> registry s' = registry s"
  by (induction Q cs s rule: replay_alarms.induct) (auto simp: rbind_eq_Inr replay_alarm_effect(2))

lemma replay_alarms_ok:
  assumes "server_ok cur s"
  shows "case replay_alarms Q cs s of Inl e \<Rightarrow> benign e
    | Inr s' \<Rightarrow> call_ok cur s s' \<and> env s' = env s \<and> all_alarms s' = arm (all_alarms s) cs"
  using assms
proof (induction cs arbitrary: s)
  case Nil
  then show ?case by (simp add: call_ok_refl)
next
  case (Cons c cs)
  obtain al a where c: "c = (al, a)" by (cases c)
  show ?case
  proof (cases "replay_alarm Q al a s")
    case (Inl e)
    with replay_alarm_call [OF Cons.prems, of Q al a] c show ?thesis by simp
  next
    case (Inr u)
    with replay_alarm_call [OF Cons.prems, of Q al a] have u: "call_ok cur s u" by simp
    have "alarm_wf cur s" using Cons.prems by (simp add: server_ok_def)
    from replay_alarm_arm [OF Inr this] have "arm (all_alarms s) (c # cs) = arm (all_alarms u) cs"
      using arm_append [of "all_alarms s" "[c]" cs] c by simp
    moreover have "server_ok cur u" using u by (simp add: call_ok_def)
    ultimately show ?thesis using Cons.IH [of u] Inr u c replay_alarm_effect(1) [OF Inr]
      by (auto split: sum.splits intro: call_ok_trans)
  qed
qed

lemma replay_alarms_entries:
  assumes "replay_alarms Q cs s = Inr s'" "e \<in> set (alarm_map s')"
  shows "e \<in> set (alarm_map s) \<or>
    (\<exists>t. (snd (snd e), Alarm_Set t) \<in> set cs \<and> alarm_time e = us_of Q t \<and> next_token s \<le> fst e)"
  using assms
proof (induction Q cs s rule: replay_alarms.induct)
  case (2 Q al c cs s)
  then obtain u where u: "replay_alarm Q al c s = Inr u" "replay_alarms Q cs u = Inr s'"
    by (auto simp: rbind_eq_Inr)
  from 2(1) [OF u(2) 2(3)] replay_alarm_entries [OF u(1), of e] replay_alarm_effect(3) [OF u(1)] show ?case by auto
qed simp

text \<open>Cancelling never fails, and an alarm that was just cancelled can be set.\<close>

lemma replay_cancels:
  assumes "alarm_wf cur s"
  shows "\<exists>s'. replay_alarms Q (map (\<lambda>al. (al, Alarm_Cancel)) als) s = Inr s' \<and> alarm_wf cur s'"
  using assms
proof (induction als arbitrary: s)
  case (Cons al als)
  obtain u where "UnregisterIfRegistered al s = Inr u" "alarm_wf cur u"
    by (rule UnregisterIfRegistered_wf [OF Cons.prems]) blast
  with Cons.IH [of u] show ?case by (simp add: QuicEpollAlarm_CancelImpl_def)
qed simp

lemma replay_cancel_set:
  assumes "alarm_wf cur s"
  shows "\<exists>s'. replay_alarms Q [(al, Alarm_Cancel), (al, Alarm_Set t)] s = Inr s'"
proof -
  obtain u where u: "UnregisterIfRegistered al s = Inr u" "al \<notin> all_alarms u"
    by (rule UnregisterIfRegistered_wf [OF assms]) blast
  then obtain s' where "RegisterAlarm (us_of Q t) (Some al) u = Inr s'"
    by (auto simp: RegisterAlarm_def ContainsAlarm_def EpollAlarm_OnRegistration_def upd_alarm_def Let_def)
  with u show ?thesis by (simp add: QuicEpollAlarm_CancelImpl_def QuicEpollAlarm_SetImpl_def us_of_def)
qed

lemma replay_alarms_append: "replay_alarms Q (cs @ cs') s = rbind (replay_alarms Q cs s) (replay_alarms Q cs')"
proof (induction cs arbitrary: s)
  case (Cons c cs)
  obtain al a where "c = (al, a)" by (cases c)
  with Cons.IH show ?case by (cases "replay_alarm Q al a s") simp_all
qed simp

end
