(* ===== verification/Client_Correct.thy ===== *)
theory Client_Correct
  imports Client Alarm_Replay
begin

unbundle bit_operations_syntax

text \<open>
  The client's callbacks fulfil the contract of the event loop while there is a session.

  \<open>cl_lib_ok\<close> is what is assumed of libquic and netdp: a connection stops the process only at a CHECK of
  its own, processing a packet makes no new packets wait on the socket, a firing alarm sets alarms only
  for the future, and finitely many packets wait.
\<close>

section \<open>Assumptions\<close>

definition act_benign :: "('s, 't, 'al, 'w) conn_act \<Rightarrow> bool" where
  "act_benign act \<longleftrightarrow> (\<forall>ses x e. act ses x = Inl e \<longrightarrow> benign e)"

definition client_backlog_ok :: "('ep, 't, 'd, 'v, 'i, 'c, 's, 'al, 'w) cl_lib \<Rightarrow> ('w \<Rightarrow> nat) \<Rightarrow> bool" where
  "client_backlog_ok P backlog \<longleftrightarrow>
     (\<forall>self peer p ses wr now w ses' wr' now' w' cs.
        cl_ProcessUdpPacket P self peer p ses (wr, now, w) = Inr (ses', (wr', now', w'), cs) \<longrightarrow> backlog w' \<le> backlog w) \<and>
     (\<forall>fd n w r w'. netdpsock_recvfrom (cv_net P) fd n w = (r, w') \<longrightarrow> 0 \<le> rr_bytes r \<longrightarrow> backlog w' < backlog w)"

text \<open>
  An alarm that fires sets alarms for later, or for this very moment to go on with work of which less is
  left: the rank of an alarm is that work.
\<close>

definition cl_ranks :: "('ep, 't, 'd, 'v, 'i, 'c, 's, 'al, 'w) cl_lib \<Rightarrow> ('s \<Rightarrow> 'al \<Rightarrow> nat) \<Rightarrow> bool" where
  "cl_ranks P rank \<longleftrightarrow>
     (\<forall>al ses x ses' x' cs. cl_alarm_Fire P al ses x = Inr (ses', x', cs) \<longrightarrow>
        (\<forall>al' t. (al', Alarm_Set t) \<in> set cs \<longrightarrow> fst (snd x) < us_of (cv_time P) t \<or>
           us_of (cv_time P) t = fst (snd x) \<and> rank ses' al' < rank ses al) \<and>
        (\<forall>al'. rank ses' al' \<le> rank ses al' \<or> rank ses' al' < rank ses al))"

definition cl_lib_ok :: "('ep, 't, 'd, 'v, 'i, 'c, 's, 'al, 'w) cl_lib \<Rightarrow> bool" where
  "cl_lib_ok P \<longleftrightarrow>
     (\<forall>self peer p. act_benign (cl_ProcessUdpPacket P self peer p)) \<and> act_benign (cl_OnCanWrite P) \<and>
     (\<forall>al. act_benign (cl_alarm_Fire P al)) \<and> act_benign (cl_SendConnectionClose P) \<and>
     act_benign (crypto_CryptoConnect P) \<and> (\<forall>i. act_benign (ses_Initialize P i)) \<and>
     (\<forall>stream data fin. act_benign (WriteOrBufferData P stream data fin)) \<and>
     (\<exists>rank. cl_ranks P rank) \<and> (\<exists>backlog. client_backlog_ok P backlog)"

lemma cl_lib_okD:
  assumes "cl_lib_ok P"
  shows "act_benign (cl_ProcessUdpPacket P self peer p)" "act_benign (cl_OnCanWrite P)" "act_benign (cl_alarm_Fire P al)"
    "act_benign (cl_SendConnectionClose P)" "act_benign (crypto_CryptoConnect P)" "act_benign (ses_Initialize P i)"
    "act_benign (WriteOrBufferData P stream data fin)"
    "\<exists>rank. cl_ranks P rank"
    "\<exists>backlog. client_backlog_ok P backlog"
  using assms unfolding cl_lib_ok_def by blast+

definition has_session :: "('ep, 'v, 'i, 'c, 's, 'w) cli \<Rightarrow> bool" where
  "has_session q \<longleftrightarrow> cl_session q \<noteq> None \<and> cl_writer q \<noteq> None"

definition client_sound :: "('ep, 't, 'd, 'v, 'i, 'c, 's, 'al, 'w) cl_lib \<Rightarrow> ('ep, 'v, 'i, 'c, 's, 'w) cli \<Rightarrow> bool" where
  "client_sound P q \<longleftrightarrow> cl_lib_ok P \<and> has_session q"

section \<open>Calls on the session\<close>

text \<open>\<open>same_client\<close>: what a call on the session cannot touch.\<close>

definition same_client :: "('ep, 'v, 'i, 'c, 's, 'w) cli \<Rightarrow> ('ep, 'v, 'i, 'c, 's, 'w) cli \<Rightarrow> bool" where
  "same_client q q' \<longleftrightarrow> cl_fd q' = cl_fd q \<and> cl_initialized q' = cl_initialized q \<and> cl_client_address q' = cl_client_address q"

lemma same_client_trans: "same_client q r \<Longrightarrow> same_client r t \<Longrightarrow> same_client q t"
  by (simp add: same_client_def)

lemma on_session_run:
  assumes "on_session P act s = Inr s'"
  obtains ses wr ses' wr' now w cs where "cl_session (env s) = Some ses" "cl_writer (env s) = Some wr"
    "act ses (wr, recorded_now_in_us s, cl_net (env s)) = Inr (ses', (wr', now, w), cs)"
    "env s' = (env s)\<lparr>cl_session := Some ses', cl_writer := Some wr', cl_net := w\<rparr>"
    "replay_alarms (cv_time P) cs (s\<lparr>env := env s'\<rparr>) = Inr s'"
proof -
  from assms obtain ses wr where s: "cl_session (env s) = Some ses" "cl_writer (env s) = Some wr"
    by (auto simp: on_session_def split: option.splits)
  from assms s obtain ses' wr' now w cs where a: "act ses (wr, recorded_now_in_us s, cl_net (env s)) = Inr (ses', (wr', now, w), cs)"
    "replay_alarms (cv_time P) cs (s\<lparr>env := (env s)\<lparr>cl_session := Some ses', cl_writer := Some wr', cl_net := w\<rparr>\<rparr>) = Inr s'"
    by (auto simp: on_session_def rbind_eq_Inr)
  from replay_alarms_env [OF a(2)] have "env s' = (env s)\<lparr>cl_session := Some ses', cl_writer := Some wr', cl_net := w\<rparr>" by simp
  with s a that show ?thesis by metis
qed

lemma on_session_env:
  assumes "on_session P act s = Inr s'"
  shows "has_session (env s')" "same_client (env s) (env s')" "registry s' = registry s"
  using assms
  by (auto elim!: on_session_run simp: has_session_def same_client_def dest!: replay_alarms_registry)

lemma on_session_ok:
  assumes s: "server_ok cur s" and h: "has_session (env s)" and a: "act_benign act"
  shows "case on_session P act s of Inl e \<Rightarrow> benign e | Inr s' \<Rightarrow> call_ok cur s s'"
proof -
  obtain ses wr where sw: "cl_session (env s) = Some ses" "cl_writer (env s) = Some wr" using h by (auto simp: has_session_def)
  show ?thesis
  proof (cases "act ses (wr, recorded_now_in_us s, cl_net (env s))")
    case (Inl e)
    with a sw show ?thesis unfolding act_benign_def by (simp add: on_session_def)
  next
    case (Inr z)
    obtain ses' wr' now w cs where z: "z = (ses', (wr', now, w), cs)" by (metis prod.collapse)
    let ?q = "(env s)\<lparr>cl_session := Some ses', cl_writer := Some wr', cl_net := w\<rparr>"
    note c = server_ok_env [OF s, of ?q]
    then have "server_ok cur (s\<lparr>env := ?q\<rparr>)" by (simp add: call_ok_def)
    from replay_alarms_ok [OF this, where Q = "cv_time P" and cs = cs] c sw Inr z show ?thesis
      by (auto simp: on_session_def split: sum.splits intro: call_ok_trans)
  qed
qed

section \<open>The callbacks\<close>

lemma ReadAndProcessPacket_ok:
  assumes P: "cl_lib_ok P" and b: "client_backlog_ok P backlog" and s: "server_ok None s" and h: "has_session (env s)"
  shows "case ReadAndProcessPacket P s of
      Inl e \<Rightarrow> benign e
    | Inr (read, s') \<Rightarrow> call_ok None s s' \<and> has_session (env s') \<and> same_client (env s) (env s') \<and>
        (read \<longrightarrow> backlog (cl_net (env s')) < backlog (cl_net (env s)))"
proof (cases "ReadPacket (cv_net P) (cv_ep P) (cl_fd (env s)) (2 * cv_kMaxPacketSize P) (IPEndPoint_default (cv_ep P)) (cl_net (env s))")
  case (Inl e)
  then have "benign e" by (auto simp: ReadPacket_def Let_def split: prod.splits if_splits option.splits)
  with Inl show ?thesis by (simp add: ReadAndProcessPacket_def)
next
  case (Inr z)
  obtain rp w where z: "z = (rp, w)" by (cases z)
  let ?s = "s\<lparr>env := put_cl_net w (env s)\<rparr>"
  note c = server_ok_env [OF s, of "put_cl_net w (env s)"]
  have h': "has_session (env ?s)" using h by (simp add: has_session_def)
  show ?thesis
  proof (cases "rp_result rp < 0")
    case True
    with Inr z c h' show ?thesis by (simp add: ReadAndProcessPacket_def same_client_def)
  next
    case False
    obtain r where r: "netdpsock_recvfrom (cv_net P) (cl_fd (env s)) (2 * cv_kMaxPacketSize P) (cl_net (env s)) = (r, w)" "0 \<le> rr_bytes r"
      using Inr z False by (auto simp: ReadPacket_def Let_def split: prod.splits if_splits option.splits)
    have less: "backlog w < backlog (cl_net (env s))" using b r unfolding client_backlog_ok_def by blast
    let ?act = "cl_ProcessUdpPacket P (IPEndPoint_new (cv_ep P) (endpoint_address (cv_ep P) (cl_client_address (env s)))
        (endpoint_port (cv_ep P) (cl_client_address (env s)))) (rp_peer rp) (take (nat (rp_result rp)) (rp_data rp))"
    have "server_ok None ?s" using c by (simp add: call_ok_def)
    from on_session_ok [OF this h' cl_lib_okD(1) [OF P]]
    have o: "case on_session P ?act ?s of Inl e \<Rightarrow> benign e | Inr s' \<Rightarrow> call_ok None ?s s'" .
    show ?thesis
    proof (cases "on_session P ?act ?s")
      case (Inl e)
      with o Inr z False show ?thesis
        by (simp add: ReadAndProcessPacket_def)
    next
      case u: (Inr u)
      have "backlog (cl_net (env u)) \<le> backlog w"
      proof -
        obtain ses wr ses' wr' now w' cs where a: "?act ses (wr, recorded_now_in_us ?s, cl_net (env ?s)) = Inr (ses', (wr', now, w'), cs)"
          and e: "env u = (env ?s)\<lparr>cl_session := Some ses', cl_writer := Some wr', cl_net := w'\<rparr>"
          using u by (rule on_session_run) blast
        from a b have "backlog w' \<le> backlog (cl_net (env ?s))" unfolding client_backlog_ok_def by blast
        with e show ?thesis by simp
      qed
      moreover have "call_ok None s u"
        using o u c by (auto intro: call_ok_trans)
      ultimately show ?thesis using u Inr z False less on_session_env [OF u]
        by (simp add: ReadAndProcessPacket_def same_client_def)
    qed
  qed
qed

definition client_kept :: "('ep, 'v, 'i, 'c, 's, 'al, 'w) cli_es \<Rightarrow> ('ep, 'v, 'i, 'c, 's, 'al, 'w) cli_es \<Rightarrow> bool" where
  "client_kept s s' \<longleftrightarrow> call_ok None s s' \<and> has_session (env s') \<and> same_client (env s) (env s')"

lemma client_kept_refl: "server_ok None s \<Longrightarrow> has_session (env s) \<Longrightarrow> client_kept s s"
  by (simp add: client_kept_def call_ok_refl same_client_def)

lemma client_kept_trans: "client_kept s t \<Longrightarrow> client_kept t u \<Longrightarrow> client_kept s u"
  by (auto simp: client_kept_def intro: call_ok_trans same_client_trans)

lemma client_keptD: "client_kept s s' \<Longrightarrow> server_ok None s' \<and> has_session (env s')"
  by (simp add: client_kept_def call_ok_def)

lemma client_read_loop_ok:
  assumes P: "cl_lib_ok P" and b: "client_backlog_ok P backlog"
  shows "server_ok None s \<Longrightarrow> has_session (env s) \<Longrightarrow> returns_ok (client_kept s) (client_read_loop P s)"
proof (induction "backlog (cl_net (env s))" arbitrary: s rule: less_induct)
  case less
  note R = ReadAndProcessPacket_ok [OF P b less.prems]
  show ?case
  proof (cases "connected P (env s)")
    case False
    with client_kept_refl [OF less.prems] show ?thesis by (subst client_read_loop.simps) simp
  next
    case True
    show ?thesis
    proof (cases "ReadAndProcessPacket P s")
      case (Inl e)
      with R True show ?thesis by (subst client_read_loop.simps) simp
    next
      case (Inr z)
      obtain read u where z: "z = (read, u)" by (cases z)
      with R Inr have u: "client_kept s u" "read \<Longrightarrow> backlog (cl_net (env u)) < backlog (cl_net (env s))"
        by (simp_all add: client_kept_def)
      show ?thesis
      proof (cases read)
        case False
        with True Inr z u show ?thesis by (subst client_read_loop.simps) simp
      next
        case read: True
        from less.hyps [OF u(2) [OF read]] client_keptD [OF u(1)]
        have "returns_ok (client_kept u) (client_read_loop P u)" by simp
        then have "returns_ok (client_kept s) (client_read_loop P u)"
          by (rule returns_ok_mono) (rule client_kept_trans [OF u(1)])
        with True Inr z read show ?thesis by (subst client_read_loop.simps) simp
      qed
    qed
  qed
qed

lemma client_OnEvent_ok:
  assumes P: "cl_lib_ok P" and s: "server_ok None s" and h: "has_session (env s)"
  shows "returns_ok (\<lambda>(out, s'). out = 0 \<and> client_kept s s') (client_OnEvent P c fd m s)"
proof -
  obtain backlog where b: "client_backlog_ok P backlog" using cl_lib_okD(9) [OF P] by blast
  have rd: "returns_ok (client_kept s) (if m AND EPOLLIN \<noteq> 0 then client_read_loop P s else Some (Inr s))"
    using client_read_loop_ok [OF P b s h] client_kept_refl [OF s h] by simp
  have wr: "returns_ok (client_kept s) (if connected P (env u) \<and> m AND EPOLLOUT \<noteq> 0
      then Some (rbind (client_SetWritable u) (on_session P (cl_OnCanWrite P))) else Some (Inr u))"
    if u: "client_kept s u" for u
  proof -
    obtain w where w: "cl_writer (env u) = Some w" using u by (auto simp: client_kept_def has_session_def)
    let ?u = "u\<lparr>env := (env u)\<lparr>cl_writer := Some (writer_SetWritable w)\<rparr>\<rparr>"
    have uok: "server_ok None u" "has_session (env u)" using client_keptD [OF u] by simp_all
    note c = server_ok_env [OF uok(1), of "(env u)\<lparr>cl_writer := Some (writer_SetWritable w)\<rparr>"]
    have "server_ok None ?u" using c by (simp add: call_ok_def)
    moreover have h': "has_session (env ?u)" using uok(2) by (simp add: has_session_def)
    ultimately have o: "case on_session P (cl_OnCanWrite P) ?u of Inl e \<Rightarrow> benign e | Inr s' \<Rightarrow> call_ok None ?u s'"
      by (rule on_session_ok [OF _ _ cl_lib_okD(2) [OF P]])
    have ku: "client_kept s ?u"
      by (rule client_kept_trans [OF u]) (use c h' in \<open>simp add: client_kept_def same_client_def\<close>)
    show ?thesis
    proof (cases "on_session P (cl_OnCanWrite P) ?u")
      case (Inr v)
      then have "client_kept ?u v" using o on_session_env [OF Inr] by (simp add: client_kept_def)
      with Inr w u client_kept_trans [OF ku] show ?thesis by (simp add: client_SetWritable_def)
    qed (use o w u in \<open>simp add: client_SetWritable_def\<close>)
  qed
  show ?thesis unfolding client_OnEvent_def
    by (rule returns_ok_obind [OF rd], rule returns_ok_obind [OF wr]) simp_all
qed

lemma ReadAndProcessPacket_session:
  "ReadAndProcessPacket P s = Inr (read, s') \<Longrightarrow> has_session (env s) \<Longrightarrow> has_session (env s')"
  by (auto simp: ReadAndProcessPacket_def Let_def rbind_eq_Inr has_session_def split: if_splits dest!: on_session_env(1))

lemma client_read_loop_session:
  assumes "client_read_loop P s = Some r" "has_session (env s)"
  shows "case r of Inl e \<Rightarrow> True | Inr s' \<Rightarrow> has_session (env s')"
proof -
  let ?Q = "\<lambda>P s r. has_session (env s) \<longrightarrow> (case r of Inl e \<Rightarrow> True | Inr s' \<Rightarrow> has_session (env s'))"
  have "?Q P s r"
  proof (rule client_read_loop.raw_induct [where P = ?Q, OF _ assms(1)], intro impI, goal_cases)
    case (1 f P s y)
    note ih = 1(1) [rule_format] and r = 1(2) and h = 1(3)
    show ?case
    proof (cases "connected P (env s)")
      case False
      with r h show ?thesis by auto
    next
      case True
      show ?thesis
      proof (cases "ReadAndProcessPacket P s")
        case (Inl e)
        with r True show ?thesis by auto
      next
        case (Inr z)
        obtain read u where z: "z = (read, u)" by (cases z)
        have u: "has_session (env u)" using ReadAndProcessPacket_session Inr z h by blast
        show ?thesis
        proof (cases read)
          case False
          with r True Inr z u show ?thesis by auto
        next
          case read: True
          with r True Inr z have "f P u = Some y" by simp
          from ih [OF this u] show ?thesis .
        qed
      qed
    qed
  qed
  with assms(2) show ?thesis by simp
qed

lemma client_OnEvent_session:
  assumes "client_OnEvent P c fd m s = Some (Inr (out, s'))" "has_session (env s)"
  shows "has_session (env s')"
proof -
  from assms(1) obtain u where u: "(if m AND EPOLLIN \<noteq> 0 then client_read_loop P s else Some (Inr s)) = Some (Inr u)"
    "(if connected P (env u) \<and> m AND EPOLLOUT \<noteq> 0
      then Some (rbind (client_SetWritable u) (on_session P (cl_OnCanWrite P))) else Some (Inr u)) = Some (Inr s')"
    by (auto simp: client_OnEvent_def obind_eq_Inr)
  have "has_session (env u)" using u(1) client_read_loop_session [of P s "Inr u"] assms(2) by (auto split: if_splits)
  with u(2) show ?thesis by (auto simp: rbind_eq_Inr split: if_splits dest!: on_session_env(1))
qed

lemma client_OnAlarm_ok:
  assumes P: "cl_lib_ok P" and s: "server_ok None s" "map_of (alarm_map s) k = Some (t, al)" and h: "has_session (env s)"
  shows "returns_ok (\<lambda>(t', s'). call_ok (Some k) (told al s) s')
    (client_OnAlarm P al (s\<lparr>all_alarms := all_alarms s - {al}\<rparr>))"
proof -
  let ?u = "told al s"
  have "has_session (env ?u)" using h by (simp add: told_def EpollAlarm_OnAlarm_def upd_alarm_def)
  from on_session_ok [OF told_ok [OF s] this cl_lib_okD(3) [OF P], of P al] show ?thesis
    unfolding client_OnAlarm_def
    by (simp add: Let_def split_beta flip: told_def) (cases "on_session P (cl_alarm_Fire P al) ?u", simp_all)
qed

definition client_rank :: "('s \<Rightarrow> 'al \<Rightarrow> nat) \<Rightarrow> ('ep, 'v, 'i, 'c, 's, 'w) cli \<Rightarrow> 'al \<Rightarrow> nat" where
  "client_rank rank q al = (case cl_session q of None \<Rightarrow> 0 | Some ses \<Rightarrow> rank ses al)"

lemma client_OnAlarm_result:
  assumes r: "client_OnAlarm P al s = Some (Inr (t, s'))"
  shows "has_session (env s')"
    "cl_ranks P rank \<Longrightarrow> e \<in> set (alarm_map s') \<Longrightarrow> alarm_time e \<le> recorded_now_in_us s \<Longrightarrow>
     lower_entry (client_rank rank) al s s' e"
proof -
  let ?u = "snd (EpollAlarm_OnAlarm al s)"
  from r have o: "on_session P (cl_alarm_Fire P al) ?u = Inr s'" by (auto simp: client_OnAlarm_def split_beta rbind_eq_Inr)
  then show "has_session (env s')" by (rule on_session_env)
  have u: "recorded_now_in_us ?u = recorded_now_in_us s" "alarm_map ?u = alarm_map s" "env ?u = env s" "next_token ?u = next_token s"
    by (simp_all add: EpollAlarm_OnAlarm_def upd_alarm_def)
  show "lower_entry (client_rank rank) al s s' e"
    if R: "cl_ranks P rank" and e: "e \<in> set (alarm_map s')" "alarm_time e \<le> recorded_now_in_us s"
  proof -
    obtain ses wr ses' wr' now w cs where f: "cl_alarm_Fire P al ses (wr, recorded_now_in_us ?u, cl_net (env ?u)) =
        Inr (ses', (wr', now, w), cs)" "replay_alarms (cv_time P) cs (?u\<lparr>env := env s'\<rparr>) = Inr s'"
      "cl_session (env ?u) = Some ses" "cl_session (env s') = Some ses'"
      using o by (rule on_session_run) auto
    have k: "client_rank rank (env s) a = rank ses a" "client_rank rank (env s') a = rank ses' a" for a
      using f(3,4) u(3) by (simp_all add: client_rank_def)
    note R' = R [unfolded cl_ranks_def, rule_format, OF f(1)]
    from replay_alarms_entries [OF f(2) e(1)] show ?thesis
    proof
      assume "e \<in> set (alarm_map (?u\<lparr>env := env s'\<rparr>))"
      with R' u show ?thesis by (auto simp: lower_entry_def k)
    next
      assume "\<exists>t. (snd (snd e), Alarm_Set t) \<in> set cs \<and> alarm_time e = us_of (cv_time P) t \<and>
        next_token (?u\<lparr>env := env s'\<rparr>) \<le> fst e"
      with R' e(2) u show ?thesis by (fastforce simp: lower_entry_def k)
    qed
  qed
qed

interpretation cli: env_callbacks "\<lambda>s. client_sound P (env s) \<and> cl_ranks P rank" "client_OnEvent P" "client_OnAlarm P"
  "client_epoll P" "client_rank rank" for P rank
proof (unfold_locales, goal_cases)
  case (1 s s')
  then show ?case by simp
next
  case (2 s c fd m)
  then have "returns_ok (\<lambda>(out, s'). call_ok None s s') (client_OnEvent P c fd m s)"
    using client_OnEvent_ok [of P s c fd m] by (auto simp: client_sound_def client_kept_def elim: returns_ok_mono)
  then show ?case
    by (rule returns_ok_mono [OF returns_ok_conj [where Q = "\<lambda>(out, s'). client_sound P (env s')"]])
      (use 2 client_OnEvent_session in \<open>auto simp: client_sound_def\<close>)
next
  case (3 s k t al)
  then have "returns_ok (\<lambda>(t', s'). call_ok (Some k) (told al s) s') (client_OnAlarm P al (s\<lparr>all_alarms := all_alarms s - {al}\<rparr>))"
    using client_OnAlarm_ok [of P, OF _ 3(1,3)] by (simp add: client_sound_def)
  then show ?case
    by (rule returns_ok_mono [OF returns_ok_conj [where Q = "\<lambda>(t', s'). client_sound P (env s')"]])
      (use 3 client_OnAlarm_result(1) in \<open>auto simp: client_sound_def\<close>)
next
  case (4 s fd n t)
  then show ?case using lift_epoll_world(1) [of cl_net put_cl_net "cv_epoll P" fd n t "env s"]
    by (auto simp: client_epoll_def client_sound_def has_session_def)
next
  case (5 s)
  then show ?case using lift_epoll_world(2) [of cl_net put_cl_net "cv_epoll P" "env s"]
    by (auto simp: client_epoll_def client_sound_def has_session_def)
next
  case (6 s k t al t' s' e)
  then show ?case using client_OnAlarm_result(2) [OF 6(4) _ 6(5), of rank] by (simp add: lower_entry_def)
qed

lemma client_round:
  "quiescent s \<Longrightarrow> client_sound P (env s) \<Longrightarrow>
   returns_ok (\<lambda>s'. quiescent s' \<and> client_sound P (env s')) (client_WaitForEvents P s)"
proof -
  assume s: "quiescent s" "client_sound P (env s)"
  then obtain rank where "cl_ranks P rank" using cl_lib_okD(8) by (auto simp: client_sound_def)
  with cli.env_round_ok [OF s(1), of P rank] s(2) show ?thesis
    unfolding client_WaitForEvents_def by (auto elim: returns_ok_mono)
qed

end
