(* ===== verification/Server.thy ===== *)
theory Server
  imports Net_Interface
begin

unbundle bit_operations_syntax

text \<open>
  \<open>QuicServer\<close> (net/tools/quic/quic_server.cc and .h): the listening socket, the dispatcher behind it and
  the event loop that drives both.

  The server object is the world of its event loop. The dispatcher works on the same network: its
  world (writer, recorded time, network) is loaded before a call and stored after it, and the calls it
  made on alarms are carried out on the event loop: its own, those of its sessions' connections and those of
  their streams. libquic is a parameter: \<open>sv_quic\<close>, with its
  writer and clock replaced by the ones the server installs.
\<close>

section \<open>Parameters and state\<close>

type_synonym 'w server_world = "QuicDefaultPacketWriter \<times> int \<times> 'w"

record ('ep, 't, 'd, 'v, 'c, 'k, 'w) srv_lib =
  sv_epoll :: "'w netdp_epoll"
  sv_net :: "'w netdp_net"
  sv_ep :: "'ep endpoint_ops"
  sv_time :: "('t, 'd) quic_time"
  sv_quic :: "('ep, 't, 'd, 'v, 'w server_world) dsp_lib"
  sv_config :: "'c quic_config"
  QuicCryptoServerConfig_new :: "string \<Rightarrow> 'k"
  AddDefaultConfig :: "('w \<Rightarrow> int \<times> 'w) \<Rightarrow> 'k \<Rightarrow> 'w \<Rightarrow> 'k \<times> 'w"
  kDefaultSocketReceiveBuffer :: int
  kMaxPacketSize :: nat
  framer_initial_version :: 'v

definition server_dsp_lib ::
  "('ep, 't, 'd, 'v, 'c, 'k, 'w) srv_lib \<Rightarrow> ('ep, 't, 'd, 'v, 'w server_world) dsp_lib" where
  "server_dsp_lib P = (sv_quic P)\<lparr>dl_tw := (dl_tw (sv_quic P))\<lparr>
     tw_writer := default_writer (lift_sock (sv_net P)) (sv_ep P),
     ApproximateNow := clock_ApproximateNow (sv_time P) (sv_epoll P)\<rparr>\<rparr>"

record ('ep, 't, 'd, 'v, 'c, 'k, 'w) QuicServer =
  qs_dispatcher :: "('ep, 't, 'd, 'v, 'w server_world) dsp option"
  qs_port :: int
  qs_fd :: int
  qs_packet_num :: int
  qs_packets_dropped :: "64 word"
  qs_overflow_supported :: bool
  qs_config :: 'c
  qs_crypto_config :: 'k
  qs_supported_versions :: "'v list"
  qs_net :: 'w

type_synonym ('ep, 't, 'd, 'v, 'c, 'k, 'w) srv = "('ep, 't, 'd, 'v, 'c, 'k, 'w) QuicServer"

datatype server_cb = This_server

type_synonym ('ep, 't, 'd, 'v, 'c, 'k, 'w) srv_es =
  "(server_cb, dsp_alarm, ('ep, 't, 'd, 'v, 'c, 'k, 'w) srv) es"

abbreviation put_net :: "'w \<Rightarrow> ('ep, 't, 'd, 'v, 'c, 'k, 'w) srv \<Rightarrow> ('ep, 't, 'd, 'v, 'c, 'k, 'w) srv" where
  "put_net w q \<equiv> q\<lparr>qs_net := w\<rparr>"

definition server_epoll ::
  "('ep, 't, 'd, 'v, 'c, 'k, 'w) srv_lib \<Rightarrow> ('ep, 't, 'd, 'v, 'c, 'k, 'w) srv netdp_epoll" where
  "server_epoll P = lift_epoll qs_net put_net (sv_epoll P)"

section \<open>Construction\<close>

text \<open>
  \<open>fd\<close> is the new epoll descriptor, \<open>n\<close> what \<open>packet_num_\<close> happens to hold: the constructor does not set
  it. The crypto configuration gets its default entry, for which libquic reads the clock; the message
  describing the entry is discarded. The event loop is not running, so the clock is the system's.
\<close>

definition QuicServer_new ::
  "('ep, 't, 'd, 'v, 'c, 'k, 'w) srv_lib \<Rightarrow> 'c \<Rightarrow> 'v list \<Rightarrow> int \<Rightarrow> int \<Rightarrow> 'w \<Rightarrow>
   ('ep, 't, 'd, 'v, 'c, 'k, 'w) srv_es res" where
  "QuicServer_new P config versions fd n w =
     (let C = sv_config P;
          config = SetInitialStreamFlowControlWindowToSend C (30 * 1024) config;
          config = (if GetInitialSessionFlowControlWindowToSend C config = kMinimumFlowControlSendWindow C
                    then SetInitialSessionFlowControlWindowToSend C (1 * 1024 * 1024) config else config)
      in rbind (EpollServer_new fd (\<lambda>_. EpollAlarm_new)
           \<lparr>qs_dispatcher = None, qs_port = 0, qs_fd = -1, qs_packet_num = n, qs_packets_dropped = 0,
            qs_overflow_supported = False, qs_config = config,
            qs_crypto_config = QuicCryptoServerConfig_new P ''secret'',
            qs_supported_versions = versions, qs_net = w\<rparr>) (\<lambda>s.
         let s = set_timeout_in_us (50 * 1000) s;
             q = env s;
             (crypto_config, w) = AddDefaultConfig P (time_now (sv_epoll P)) (qs_crypto_config q) (qs_net q)
         in Inr (s\<lparr>env := q\<lparr>qs_crypto_config := crypto_config, qs_net := w\<rparr>\<rparr>)))"

definition server_SetPacketNum ::
  "int \<Rightarrow> ('ep, 't, 'd, 'v, 'c, 'k, 'w) srv_es \<Rightarrow> ('ep, 't, 'd, 'v, 'c, 'k, 'w) srv_es" where
  "server_SetPacketNum n s = s\<lparr>env := (env s)\<lparr>qs_packet_num := n\<rparr>\<rparr>"

section \<open>Calling the dispatcher\<close>

definition load_dsp ::
  "int \<Rightarrow> ('ep, 't, 'd, 'v, 'c, 'k, 'w) srv \<Rightarrow> ('ep, 't, 'd, 'v, 'w server_world) dsp \<Rightarrow>
   ('ep, 't, 'd, 'v, 'w server_world) dsp" where
  "load_dsp now q d = set_dsp_world (fst (dsp_world d), now, qs_net q) d"

definition store_dsp ::
  "('ep, 't, 'd, 'v, 'w server_world) dsp \<Rightarrow> ('ep, 't, 'd, 'v, 'c, 'k, 'w) srv \<Rightarrow>
   ('ep, 't, 'd, 'v, 'c, 'k, 'w) srv" where
  "store_dsp d q = q\<lparr>qs_dispatcher := Some d, qs_net := snd (snd (dsp_world d))\<rparr>"

definition on_dispatcher ::
  "(('ep, 't, 'd, 'v, 'w server_world) dsp \<Rightarrow> ('ep, 't, 'd, 'v, 'w server_world) dsp outcome) \<Rightarrow> int \<Rightarrow>
   ('ep, 't, 'd, 'v, 'c, 'k, 'w) srv \<Rightarrow> ('ep, 't, 'd, 'v, 'c, 'k, 'w) srv outcome" where
  "on_dispatcher f now q =
     (case qs_dispatcher q of
        None \<Rightarrow> Some (Inl Null_deref)
      | Some d \<Rightarrow> obind (f (load_dsp now q d)) (\<lambda>d. Some (Inr (store_dsp d q))))"

text \<open>
  The calls made on alarms behind the dispatcher so far. The server object after a call on the dispatcher
  replaces the one in the event loop, and the calls that are new are carried out.
\<close>

definition server_log :: "('ep, 't, 'd, 'v, 'c, 'k, 'w) srv \<Rightarrow> (dsp_alarm \<times> 't alarm_call) list" where
  "server_log q = (case qs_dispatcher q of None \<Rightarrow> [] | Some d \<Rightarrow> alarm_log d)"

definition update_server ::
  "('ep, 't, 'd, 'v, 'c, 'k, 'w) srv_lib \<Rightarrow> ('ep, 't, 'd, 'v, 'c, 'k, 'w) srv \<Rightarrow>
   ('ep, 't, 'd, 'v, 'c, 'k, 'w) srv_es \<Rightarrow> ('ep, 't, 'd, 'v, 'c, 'k, 'w) srv_es res" where
  "update_server P q s =
     replay_alarms (sv_time P) (drop (length (server_log (env s))) (server_log q)) (s\<lparr>env := q\<rparr>)"

section \<open>Listening\<close>

definition set_fd_option ::
  "('w \<Rightarrow> 'a \<times> 'w) \<Rightarrow> ('ep, 't, 'd, 'v, 'c, 'k, 'w) srv \<Rightarrow> 'a \<times> ('ep, 't, 'd, 'v, 'c, 'k, 'w) srv" where
  "set_fd_option f q = on_part qs_net put_net f q"

definition bind_socket ::
  "('ep, 't, 'd, 'v, 'c, 'k, 'w) srv_lib \<Rightarrow> 'ep \<Rightarrow> ('ep, 't, 'd, 'v, 'c, 'k, 'w) srv \<Rightarrow>
   (bool \<times> ('ep, 't, 'd, 'v, 'c, 'k, 'w) srv) res" where
  "bind_socket P address q =
     (let S = sv_net P; E = sv_ep P; fd = qs_fd q
      in case ToSockAddr E address of
           None \<Rightarrow> Inl (Check_failed ''address.ToSockAddr'')
         | Some raw_addr \<Rightarrow>
             let (rc, q) = set_fd_option (netdpsock_bind S fd raw_addr sizeof_sockaddr_storage) q
             in if rc < 0 then Inr (False, q)
                else if qs_port q = 0 then
                  let ((rc, storage, len), q) = set_fd_option (sys_getsockname S fd) q
                  in case (if rc \<noteq> 0 then None else FromSockAddr E storage len) of
                       None \<Rightarrow> Inr (False, q)
                     | Some server_address \<Rightarrow> Inr (True, q\<lparr>qs_port := uint (endpoint_port E server_address)\<rparr>)
                else Inr (True, q))"

definition listen_socket ::
  "('ep, 't, 'd, 'v, 'c, 'k, 'w) srv_lib \<Rightarrow> 'ep \<Rightarrow> ('ep, 't, 'd, 'v, 'c, 'k, 'w) srv \<Rightarrow>
   (bool \<times> ('ep, 't, 'd, 'v, 'c, 'k, 'w) srv) res" where
  "listen_socket P address q =
     (let S = sv_net P; E = sv_ep P;
          q = q\<lparr>qs_port := uint (endpoint_port E address)\<rparr>;
          address_family = GetSockAddrFamily E address;
          (fd, q) = set_fd_option (netdpsock_socket S address_family SOCK_DGRAM IPPROTO_UDP) q;
          q = q\<lparr>qs_fd := fd\<rparr>
      in if fd < 0 then Inr (False, q)
         else
           let (rc, q) = set_fd_option (SetGetAddressInfo S fd address_family) q
           in if rc < 0 then Inr (False, q)
              else
                let (rc, q) = set_fd_option (netdpsock_setsockopt S fd SOL_SOCKET SO_RXQ_OVFL 1) q;
                    q = (if rc < 0 then q else q\<lparr>qs_overflow_supported := True\<rparr>);
                    (ok, q) = set_fd_option (SetReceiveBufferSize S fd (kDefaultSocketReceiveBuffer P)) q
                in if \<not> ok then Inr (False, q)
                   else
                     let (ok, q) = set_fd_option (SetSendBufferSize S fd (kDefaultSocketReceiveBuffer P)) q
                     in if \<not> ok then Inr (False, q) else bind_socket P address q)"

text \<open>
  \<open>dispatcher_.reset(...)\<close>: a dispatcher from an earlier \<open>Listen\<close> is destroyed. The new one sets its clean-up
  alarm while it is initialised.
\<close>

definition new_dispatcher ::
  "('ep, 't, 'd, 'v, 'c, 'k, 'w) srv_lib \<Rightarrow> ('ep, 't, 'd, 'v, 'c, 'k, 'w) srv_es \<Rightarrow>
   ('ep, 't, 'd, 'v, 'c, 'k, 'w) srv_es res" where
  "new_dispatcher P s =
     rbind (replay_alarms (sv_time P)
              (case qs_dispatcher (env s) of None \<Rightarrow> [] | Some d \<Rightarrow> QuicDispatcher_delete d) s) (\<lambda>s.
     let q = env s;
         d = QuicDispatcher_new (server_dsp_lib P) (qs_supported_versions q) (framer_initial_version P)
               (IPEndPoint_default (sv_ep P)) (qs_packet_num q)
               (QuicDefaultPacketWriter_new (qs_fd q), recorded_now_in_us s, qs_net q)
     in replay_alarms (sv_time P) (alarm_log d) (s\<lparr>env := store_dsp d q\<rparr>))"

definition Listen ::
  "('ep, 't, 'd, 'v, 'c, 'k, 'w) srv_lib \<Rightarrow> 'ep \<Rightarrow> ('ep, 't, 'd, 'v, 'c, 'k, 'w) srv_es \<Rightarrow>
   (bool \<times> ('ep, 't, 'd, 'v, 'c, 'k, 'w) srv_es) res" where
  "Listen P address s =
     rbind (listen_socket P address (env s)) (\<lambda>(ok, q).
     let s = s\<lparr>env := q\<rparr>
     in if \<not> ok then Inr (False, s)
        else rbind (RegisterFD (server_epoll P) (qs_fd q) (Some This_server) kEpollFlags s) (\<lambda>s.
             rbind (new_dispatcher P s) (\<lambda>s. Inr (True, s))))"

section \<open>Events\<close>

text \<open>
  One packet. \<open>server_ip\<close> stays empty and \<open>packets_dropped\<close> is not written: \<open>ReadPacket\<close> fills in neither.
\<close>

definition ReadAndDispatchSinglePacket ::
  "('ep, 't, 'd, 'v, 'c, 'k, 'w) srv_lib \<Rightarrow> int \<Rightarrow> int \<Rightarrow> int \<Rightarrow> ('ep, 't, 'd, 'v, 'c, 'k, 'w) srv \<Rightarrow>
   (bool \<times> ('ep, 't, 'd, 'v, 'c, 'k, 'w) srv) outcome" where
  "ReadAndDispatchSinglePacket P now fd port q =
     obind (Some (ReadPacket (sv_net P) (sv_ep P) fd (2 * kMaxPacketSize P) (IPEndPoint_default (sv_ep P)) (qs_net q))) (\<lambda>(rp, w).
     let q = put_net w q
     in if rp_result rp < 0 then Some (Inr (False, q))
        else obind (on_dispatcher
                      (dsp_ProcessPacket (server_dsp_lib P) (IPEndPoint_new (sv_ep P) [] (word_of_int port)) (rp_peer rp)
                         (take (nat (rp_result rp)) (rp_data rp))) now q) (\<lambda>q.
             Some (Inr (True, q))))"

partial_function (option) read_loop ::
  "('ep, 't, 'd, 'v, 'c, 'k, 'w) srv_lib \<Rightarrow> int \<Rightarrow> ('ep, 't, 'd, 'v, 'c, 'k, 'w) srv \<Rightarrow>
   ('ep, 't, 'd, 'v, 'c, 'k, 'w) srv outcome" where
  "read_loop L now q =
     Option.bind (ReadAndDispatchSinglePacket L now (qs_fd q) (qs_port q) q) (\<lambda>r.
     case r of
       Inl e \<Rightarrow> Some (Inl e)
     | Inr (read, q) \<Rightarrow> if read then read_loop L now q else Some (Inr q))"

definition write_event ::
  "('ep, 't, 'd, 'v, 'c, 'k, 'w) srv_lib \<Rightarrow> int \<Rightarrow> ('ep, 't, 'd, 'v, 'c, 'k, 'w) srv \<Rightarrow>
   (mask \<times> ('ep, 't, 'd, 'v, 'c, 'k, 'w) srv) outcome" where
  "write_event P now q =
     obind (on_dispatcher (dsp_OnCanWrite (server_dsp_lib P)) now q) (\<lambda>q.
     Some (Inr (case qs_dispatcher q of
                  None \<Rightarrow> 0 | Some d \<Rightarrow> if HasPendingWrites d then EPOLLOUT else 0, q)))"

definition server_OnEvent ::
  "('ep, 't, 'd, 'v, 'c, 'k, 'w) srv_lib \<Rightarrow>
   (server_cb, dsp_alarm, ('ep, 't, 'd, 'v, 'c, 'k, 'w) srv) event_fn" where
  "server_OnEvent P cb fd in_events s =
     (let now = recorded_now_in_us s
      in obind (if in_events AND EPOLLIN \<noteq> 0 then read_loop P now (env s) else Some (Inr (env s))) (\<lambda>q.
         obind (if in_events AND EPOLLOUT \<noteq> 0 then write_event P now q else Some (Inr (0, q))) (\<lambda>(out_ready_mask, q).
         Some (rbind (update_server P q s) (\<lambda>s. Inr (out_ready_mask, s))))))"

text \<open>\<open>EpollAlarmImpl::OnAlarm\<close> for every alarm behind the dispatcher.\<close>

definition server_OnAlarm ::
  "('ep, 't, 'd, 'v, 'c, 'k, 'w) srv_lib \<Rightarrow>
   (server_cb, dsp_alarm, ('ep, 't, 'd, 'v, 'c, 'k, 'w) srv) alarm_fn" where
  "server_OnAlarm P al s =
     (let (_, s) = EpollAlarm_OnAlarm al s
      in obind (on_dispatcher (dsp_Fire (server_dsp_lib P) al) (recorded_now_in_us s) (env s)) (\<lambda>q.
         Some (rbind (update_server P q s) (\<lambda>s. Inr (0, s)))))"

definition server_WaitForEvents ::
  "('ep, 't, 'd, 'v, 'c, 'k, 'w) srv_lib \<Rightarrow> ('ep, 't, 'd, 'v, 'c, 'k, 'w) srv_es \<Rightarrow>
   ('ep, 't, 'd, 'v, 'c, 'k, 'w) srv_es outcome" where
  "server_WaitForEvents P s =
     WaitForEventsAndExecuteCallbacks (server_epoll P) (server_OnEvent P) (server_OnAlarm P) s"

section \<open>Shutdown\<close>

text \<open>\<open>close\<close> is libc's. The registration with the event loop stays.\<close>

definition server_Shutdown ::
  "('ep, 't, 'd, 'v, 'c, 'k, 'w) srv_lib \<Rightarrow> ('ep, 't, 'd, 'v, 'c, 'k, 'w) srv_es \<Rightarrow>
   ('ep, 't, 'd, 'v, 'c, 'k, 'w) srv_es outcome" where
  "server_Shutdown P s =
     obind (on_dispatcher (dsp_Shutdown (server_dsp_lib P)) (recorded_now_in_us s) (env s)) (\<lambda>q.
     Some (update_server P ((snd (set_fd_option (sys_close (sv_net P) (qs_fd q)) q))\<lparr>qs_fd := -1\<rparr>) s))"

end
