(* ===== verification/Dispatcher_Correct.thy ===== *)
theory Dispatcher_Correct
  imports Dispatcher Alarm_Log
begin

text \<open>
  The invariant of \<open>QuicDispatcher\<close> and the properties that follow from it: a session is in the map,
  on the closed list or deleted, and never two of these; no connection id is at once live and in time
  wait; only connections of live sessions wait for the socket; every stream belongs to a session and only
  alarms of live objects are set. Under the documented behaviour of libquic (\<open>dsp_lib_ok\<close>, \<open>framer_ok\<close>) no
  operation uses a deleted session or stream.
\<close>

section \<open>Invariant\<close>

text \<open>The object whose alarm it is still exists.\<close>

fun owner_alive :: "('ep, 't, 'd, 'v, 'x) dsp \<Rightarrow> dsp_alarm \<Rightarrow> bool" where
  "owner_alive d (Connection_alarm a k) \<longleftrightarrow> sessions d a \<noteq> None"
| "owner_alive d (Stream_alarm a sid) \<longleftrightarrow> streams d (a, sid) \<noteq> None"
| "owner_alive d _ \<longleftrightarrow> True"

definition streams_ok :: "('ep, 't, 'd, 'v, 'x) dsp \<Rightarrow> bool" where
  "streams_ok d \<longleftrightarrow> (\<forall>a sid st. streams d (a, sid) = Some st \<longrightarrow>
     (\<exists>ses. sessions d a = Some ses \<and> stream_ok (ses_packet_num ses) st))"

definition objects_ok :: "('ep, 't, 'd, 'v, 'x) dsp \<Rightarrow> bool" where
  "objects_ok d \<longleftrightarrow> streams_ok d \<and> (\<forall>al \<in> arm {} (alarm_log d). owner_alive d al)"

lemma owner_alive_cong:
  "sessions d' = sessions d \<Longrightarrow> streams d' = streams d \<Longrightarrow> owner_alive d' al = owner_alive d al"
  by (cases al) simp_all

text \<open>Objects stay sound when calls are made on alarms of live objects only.\<close>

lemma objects_ok_log:
  assumes "objects_ok d" "streams_ok d'" "\<And>al. owner_alive d al \<Longrightarrow> owner_alive d' al"
    "alarm_log d' = alarm_log d @ cs" "\<And>al. al \<in> fst ` set cs \<Longrightarrow> owner_alive d' al"
  shows "objects_ok d'"
  unfolding objects_ok_def
proof (intro conjI ballI)
  fix al assume "al \<in> arm {} (alarm_log d')"
  then have "al \<in> arm {} (alarm_log d) \<or> al \<in> fst ` set cs"
    using arm_subset [of "arm {} (alarm_log d)" cs] unfolding assms(4) arm_append by blast
  then show "owner_alive d' al" using assms(1,3,5) unfolding objects_ok_def by blast
qed (rule assms(2))

lemma objects_ok_frame:
  assumes "objects_ok d" "sessions d' = sessions d" "streams d' = streams d"
    "alarm_log d' = alarm_log d @ cs" "\<And>al. al \<in> fst ` set cs \<Longrightarrow> owner_alive d al"
  shows "objects_ok d'"
proof (rule objects_ok_log [OF assms(1) _ _ assms(4)])
  show "streams_ok d'" using assms(1-3) by (simp add: objects_ok_def streams_ok_def)
qed (use assms(5) owner_alive_cong [OF assms(2,3)] in simp_all)

definition dsp_ok :: "('ep, 't, 'd, 'v, 'x) dsp \<Rightarrow> bool" where
  "dsp_ok d \<longleftrightarrow>
     keys_distinct (session_map d) \<and>
     distinct (map snd (session_map d) @ closed_session_list d) \<and>
     dom (sessions d) = snd ` set (session_map d) \<union> set (closed_session_list d) \<and>
     (\<forall>a \<in> dom (sessions d). a < next_session d) \<and>
     keys_distinct (connection_id_map (time_wait d)) \<and>
     (\<forall>c. map_of (session_map d) c \<noteq> None \<longrightarrow> map_of (connection_id_map (time_wait d)) c = None) \<and>
     (\<forall>a. Connection a \<in> set (write_blocked_list d) \<longrightarrow> a \<in> snd ` set (session_map d)) \<and>
     objects_ok d"

lemma dsp_okI:
  assumes "keys_distinct (session_map d)" "distinct (map snd (session_map d) @ closed_session_list d)"
    "dom (sessions d) = snd ` set (session_map d) \<union> set (closed_session_list d)"
    "\<And>a. a \<in> dom (sessions d) \<Longrightarrow> a < next_session d"
    "keys_distinct (connection_id_map (time_wait d))"
    "\<And>c. map_of (session_map d) c \<noteq> None \<Longrightarrow> map_of (connection_id_map (time_wait d)) c = None"
    "\<And>a. Connection a \<in> set (write_blocked_list d) \<Longrightarrow> a \<in> snd ` set (session_map d)"
    "objects_ok d"
  shows "dsp_ok d"
  unfolding dsp_ok_def using assms by (intro conjI ballI allI impI) blast+

lemma dsp_okD:
  assumes "dsp_ok d"
  shows "keys_distinct (session_map d)" "distinct (map snd (session_map d) @ closed_session_list d)"
    "dom (sessions d) = snd ` set (session_map d) \<union> set (closed_session_list d)"
    "\<And>a. a \<in> dom (sessions d) \<Longrightarrow> a < next_session d"
    "keys_distinct (connection_id_map (time_wait d))"
    "\<And>c. map_of (session_map d) c \<noteq> None \<Longrightarrow> map_of (connection_id_map (time_wait d)) c = None"
    "\<And>a. Connection a \<in> set (write_blocked_list d) \<Longrightarrow> a \<in> snd ` set (session_map d)"
    "objects_ok d"
  using assms unfolding dsp_ok_def by blast+

lemma CreateQuicSession_simp:
  "CreateQuicSession connection_id d =
     (Some (next_session d), d\<lparr>sessions := (sessions d)(next_session d \<mapsto>
        \<lparr>ses_connection_id = connection_id, ses_packet_num = d_packet_num d, ses_crypto_stream = True\<rparr>),
      next_session := Suc (next_session d)\<rparr>)"
  by (simp add: CreateQuicSession_def Let_def QuicServerSession_new_def session_InitializeSession_def session_SetPacketNum_def)

section \<open>What libquic promises\<close>

text \<open>
  A connection reports that it is blocked only while its session is in the map. A session uses only
  streams it has created and not yet deleted, and gives a new stream a number that is not in use.
\<close>

fun conn_op_ok :: "nat \<Rightarrow> ('ep, 't) conn_op \<Rightarrow> ('ep, 't, 'd, 'v, 'x) dsp \<Rightarrow> bool" where
  "conn_op_ok a Conn_write_blocked d \<longleftrightarrow> a \<in> snd ` set (session_map d)"
| "conn_op_ok a (Conn_new_stream sid n) d \<longleftrightarrow> streams d (a, sid) = None"
| "conn_op_ok a (Conn_stream_data sid len) d \<longleftrightarrow> streams d (a, sid) \<noteq> None"
| "conn_op_ok a (Conn_stream_fin sid) d \<longleftrightarrow> streams d (a, sid) \<noteq> None"
| "conn_op_ok a (Conn_delete_stream sid) d \<longleftrightarrow> streams d (a, sid) \<noteq> None"
| "conn_op_ok a _ d \<longleftrightarrow> True"

primrec live_client :: "nat \<Rightarrow> ('ep, 't, 'd, 'v, 'x) conn_run \<Rightarrow> ('ep, 't, 'd, 'v, 'x) dsp \<Rightarrow> bool" where
  "live_client a (Return r) d = True"
| "live_client a (Perform op k) d =
     (conn_op_ok a op d \<and> (\<forall>d'. live_client a (k d') d'))"

text \<open>
  The framer reports a private header only after the visitor accepted a public header with the same
  connection id; a refusal ends the packet. \<open>st\<close> is the id accepted so far.
\<close>

primrec framer_ok :: "'v framer_run \<Rightarrow> QuicConnectionId option \<Rightarrow> bool" where
  "framer_ok Fr_done st = True"
| "framer_ok (Fr_call c k) st =
     (case c of
        Fv_OnUnauthenticatedPublicHeader h \<Rightarrow>
          (\<forall>v. framer_ok (k True v) (Some (hdr_connection_id h))) \<and> (\<forall>v. framer_ok (k False v) None)
      | Fv_OnUnauthenticatedHeader h n \<Rightarrow>
          st = Some (hdr_connection_id h) \<and> (\<forall>b v. framer_ok (k b v) None)
      | _ \<Rightarrow> (\<forall>b v. framer_ok (k b v) st))"

abbreviation wr_blocked :: "('ep, 't, 'd, 'v, 'x) dsp_lib \<Rightarrow> 'x \<Rightarrow> bool" where
  "wr_blocked L x \<equiv> qw_blocked (tw_writer (dl_tw L)) x"

definition dsp_lib_ok :: "('ep, 't, 'd, 'v, 'x) dsp_lib \<Rightarrow> bool" where
  "dsp_lib_ok L \<longleftrightarrow>
     packet_writer (tw_writer (dl_tw L)) \<and> quic_time_laws (dl_tw L) \<and>
     FLAGS_quic_time_wait_list_max_connections (dl_tw L) > 0 \<and>
     (\<forall>x. wr_blocked L (snd (ApproximateNow (dl_tw L) x)) = wr_blocked L x) \<and>
     (\<forall>a x. wr_blocked L (snd (ReleaseConnectionClosePacket L a x)) = wr_blocked L x) \<and>
     (\<forall>p v. framer_ok (framer_ProcessPacket L p v) None) \<and>
     (\<forall>a srv cli p d. a \<in> snd ` set (session_map d) \<longrightarrow> live_client a (conn_ProcessUdpPacket L a srv cli p) d) \<and>
     (\<forall>a d. a \<in> snd ` set (session_map d) \<longrightarrow> live_client a (conn_OnCanWrite L a) d) \<and>
     (\<forall>a d. a \<in> snd ` set (session_map d) \<longrightarrow> live_client a (conn_SendConnectionClose L a) d) \<and>
     (\<forall>a k d. sessions d a \<noteq> None \<longrightarrow> live_client a (conn_alarm_Fire L a k) d) \<and>
     (\<forall>a i x. wr_blocked L (conn_step L a i x) = wr_blocked L x)"

lemma dsp_lib_okD:
  assumes "dsp_lib_ok L"
  shows "packet_writer (tw_writer (dl_tw L))" "quic_time_laws (dl_tw L)"
    "\<exists>k > 0. FLAGS_quic_time_wait_list_max_connections (dl_tw L) = int k"
    "wr_blocked L (snd (ApproximateNow (dl_tw L) x)) = wr_blocked L x"
    "wr_blocked L (snd (ReleaseConnectionClosePacket L a x)) = wr_blocked L x"
    "framer_ok (framer_ProcessPacket L p v) None"
    "a \<in> snd ` set (session_map d) \<Longrightarrow> live_client a (conn_ProcessUdpPacket L a srv cli p) d"
    "a \<in> snd ` set (session_map d) \<Longrightarrow> live_client a (conn_OnCanWrite L a) d"
    "a \<in> snd ` set (session_map d) \<Longrightarrow> live_client a (conn_SendConnectionClose L a) d"
    "sessions d a \<noteq> None \<Longrightarrow> live_client a (conn_alarm_Fire L a k) d"
    "wr_blocked L (conn_step L a i x) = wr_blocked L x"
  using assms unfolding dsp_lib_ok_def by (auto dest: zero_less_imp_eq_int)

section \<open>The time-wait manager seen from the dispatcher\<close>

lemma dsp_OnWriteBlocked_frame [simp]:
  "session_map (dsp_OnWriteBlocked L b d) = session_map d" "time_wait (dsp_OnWriteBlocked L b d) = time_wait d"
  "closed_session_list (dsp_OnWriteBlocked L b d) = closed_session_list d" "sessions (dsp_OnWriteBlocked L b d) = sessions d"
  "next_session (dsp_OnWriteBlocked L b d) = next_session d" "current_packet (dsp_OnWriteBlocked L b d) = current_packet d"
  "supported_versions (dsp_OnWriteBlocked L b d) = supported_versions d"
  "alarm_log (dsp_OnWriteBlocked L b d) = alarm_log d" "streams (dsp_OnWriteBlocked L b d) = streams d"
  "d_packet_num (dsp_OnWriteBlocked L b d) = d_packet_num d"
  "set (write_blocked_list (dsp_OnWriteBlocked L b d)) \<subseteq> insert b (set (write_blocked_list d))"
  "set (write_blocked_list d) \<subseteq> set (write_blocked_list (dsp_OnWriteBlocked L b d))"
  "\<not> wr_blocked L (dsp_world d) \<Longrightarrow> write_blocked_list (dsp_OnWriteBlocked L b d) = write_blocked_list d"
  by (auto simp: dsp_OnWriteBlocked_def)

lemma replay_visits_frame:
  "session_map (replay_visits L vs d) = session_map d" "time_wait (replay_visits L vs d) = time_wait d"
  "closed_session_list (replay_visits L vs d) = closed_session_list d" "sessions (replay_visits L vs d) = sessions d"
  "next_session (replay_visits L vs d) = next_session d" "current_packet (replay_visits L vs d) = current_packet d"
  "supported_versions (replay_visits L vs d) = supported_versions d"
  "alarm_log (replay_visits L vs d) = alarm_log d" "streams (replay_visits L vs d) = streams d"
  "d_packet_num (replay_visits L vs d) = d_packet_num d"
  by (induction L vs d rule: replay_visits.induct) simp_all

lemma replay_visits_blocked:
  "Connection a \<in> set (write_blocked_list (replay_visits L vs d)) \<longleftrightarrow> Connection a \<in> set (write_blocked_list d)"
  by (induction L vs d rule: replay_visits.induct)
    (use dsp_OnWriteBlocked_frame(11,12) [where b = Time_wait_manager] in \<open>simp_all, blast\<close>)

lemma replay_visits_writable:
  "\<not> wr_blocked L (dsp_world d) \<Longrightarrow> write_blocked_list (replay_visits L vs d) = write_blocked_list d"
  by (induction L vs d rule: replay_visits.induct) (simp_all add: dsp_world_def)

lemma absorb_tw_frame:
  "session_map (absorb_tw L m d) = session_map d" "time_wait (absorb_tw L m d) = m"
  "closed_session_list (absorb_tw L m d) = closed_session_list d" "sessions (absorb_tw L m d) = sessions d"
  "next_session (absorb_tw L m d) = next_session d" "current_packet (absorb_tw L m d) = current_packet d"
  "supported_versions (absorb_tw L m d) = supported_versions d" "dsp_world (absorb_tw L m d) = tw_world m"
  "streams (absorb_tw L m d) = streams d"
  "alarm_log (absorb_tw L m d) = alarm_log d @
     map (Pair Connection_id_clean_up_alarm) (drop (length (tw_alarm_calls (time_wait d))) (tw_alarm_calls m))"
  "d_packet_num (absorb_tw L m d) = d_packet_num d"
  "Connection a \<in> set (write_blocked_list (absorb_tw L m d)) \<longleftrightarrow> Connection a \<in> set (write_blocked_list d)"
  "\<not> wr_blocked L (tw_world m) \<Longrightarrow> write_blocked_list (absorb_tw L m d) = write_blocked_list d"
  by (simp_all add: absorb_tw_def replay_visits_frame replay_visits_blocked replay_visits_writable dsp_world_def)

lemma dsp_ok_absorb:
  assumes "dsp_ok d" "keys_distinct (connection_id_map m)"
    "\<And>c. map_of (session_map d) c \<noteq> None \<Longrightarrow> map_of (connection_id_map m) c = None"
  shows "dsp_ok (absorb_tw L m d)"
proof -
  have "objects_ok (absorb_tw L m d)"
    by (rule objects_ok_frame [OF dsp_okD(8) [OF assms(1)] absorb_tw_frame(4,9,10)]) auto
  then show ?thesis using assms by (simp add: dsp_ok_def absorb_tw_frame)
qed

text \<open>
  \<open>step_ok L d d'\<close>: what an operation of a connection or of the time-wait manager does to the
  dispatcher: sessions move from the map to the closed list but are not created or deleted, the writer
  is not unblocked, and the waiting list grows only when the writer is blocked.
\<close>

definition step_ok ::
  "('ep, 't, 'd, 'v, 'x) dsp_lib \<Rightarrow> ('ep, 't, 'd, 'v, 'x) dsp \<Rightarrow> ('ep, 't, 'd, 'v, 'x) dsp \<Rightarrow> bool" where
  "step_ok L d d' \<longleftrightarrow>
     dsp_ok d' \<and> sessions d' = sessions d \<and> next_session d' = next_session d \<and>
     current_packet d' = current_packet d \<and> supported_versions d' = supported_versions d \<and>
     d_packet_num d' = d_packet_num d \<and>
     set (session_map d') \<subseteq> set (session_map d) \<and>
     (wr_blocked L (dsp_world d) \<longrightarrow> wr_blocked L (dsp_world d')) \<and>
     (\<not> wr_blocked L (dsp_world d') \<longrightarrow> length (write_blocked_list d') \<le> length (write_blocked_list d))"

lemma step_ok_refl: "dsp_ok d \<Longrightarrow> step_ok L d d"
  by (simp add: step_ok_def)

lemma step_ok_trans:
  assumes "step_ok L d e" "step_ok L e f"
  shows "step_ok L d f"
proof -
  have "set (session_map f) \<subseteq> set (session_map d)" using assms unfolding step_ok_def by blast
  then show ?thesis using assms unfolding step_ok_def by (auto intro: order_trans)
qed

lemma step_okD: "step_ok L d d' \<Longrightarrow> dsp_ok d'"
  by (simp add: step_ok_def)

lemma trim_loop_alarm: "trim_loop L m = Some m' \<Longrightarrow> tw_alarm_calls m' = tw_alarm_calls m"
proof (rule trim_loop.raw_induct [where P = "\<lambda>L m m'. tw_alarm_calls m' = tw_alarm_calls m"], goal_cases)
  case (1 f L m y)
  have "tw_alarm_calls (snd (MaybeExpireOldestConnection L t m)) = tw_alarm_calls m" for t
    by (auto simp: MaybeExpireOldestConnection_def tw_visit_log_def split: list.split)
  with 1 show ?case by (auto split: if_splits)
qed

lemma AddConnectionIdToTimeWait_alarm:
  "AddConnectionIdToTimeWait L c v p m = Some m' \<Longrightarrow> tw_alarm_calls m' = tw_alarm_calls m"
  by (auto simp: AddConnectionIdToTimeWait_def TrimTimeWaitListIfNeeded_def tw_now_def tw_visit_log_def Let_def
      bind_eq_Some_conv split_beta split: option.splits if_splits dest!: trim_loop_alarm)

text \<open>Adding an id to the time-wait list, on its own.\<close>

lemma dsp_add_to_time_wait_eq:
  assumes L: "dsp_lib_ok L" and k: "keys_distinct (connection_id_map (time_wait d))"
  shows "\<exists>m. dsp_add_to_time_wait L c v p d = Some (Inr (absorb_tw L m d)) \<and>
    keys_distinct (connection_id_map m) \<and> IsConnectionIdInTimeWait c m \<and>
    (\<forall>c'. c' \<noteq> c \<longrightarrow> map_of (connection_id_map m) c' \<noteq> None \<longrightarrow>
       map_of (connection_id_map (time_wait d)) c' \<noteq> None) \<and>
    wr_blocked L (tw_world m) = wr_blocked L (dsp_world d) \<and> tw_alarm_calls m = tw_alarm_calls (time_wait d)"
proof -
  note LD = dsp_lib_okD [OF L]
  obtain n where n: "FLAGS_quic_time_wait_list_max_connections (dl_tw L) = int n" "n > 0" using LD(3) by blast
  from AddConnectionIdToTimeWait_spec [OF LD(2) k n(1), of c v p] n(2)
  obtain m i e where m: "AddConnectionIdToTimeWait (dl_tw L) c v p (time_wait d) = Some m"
    "connection_id_map m = drop i (AList.delete c (connection_id_map (time_wait d))) @ [(c, e)]"
    "keys_distinct (connection_id_map m)" by auto
  have w: "wr_blocked L (tw_world m) = wr_blocked L (dsp_world d)"
    using AddConnectionIdToTimeWait_world [OF m(1)] LD(4) by (simp add: dsp_world_def)
  have sub: "map_of (connection_id_map (time_wait d)) c' \<noteq> None"
    if "map_of (connection_id_map m) c' \<noteq> None" "c' \<noteq> c" for c'
  proof -
    from that m(2) have "c' \<in> fst ` set (drop i (AList.delete c (connection_id_map (time_wait d))))"
      by (auto simp: map_of_eq_None_iff)
    then have "c' \<in> fst ` set (AList.delete c (connection_id_map (time_wait d)))"
      using set_drop_subset [of i "AList.delete c (connection_id_map (time_wait d))"] by blast
    then show ?thesis by (auto simp: AList.delete_eq map_of_eq_None_iff)
  qed
  have "IsConnectionIdInTimeWait c m"
    using m(2) by (auto simp: IsConnectionIdInTimeWait_def map_of_eq_None_iff)
  moreover have "dsp_add_to_time_wait L c v p d = Some (Inr (absorb_tw L m d))"
    by (simp add: dsp_add_to_time_wait_def m(1))
  ultimately show ?thesis using m(3) w sub AddConnectionIdToTimeWait_alarm [OF m(1)] by blast
qed

lemma step_ok_absorb:
  assumes "dsp_ok (absorb_tw L m d)" "wr_blocked L (dsp_world d) \<Longrightarrow> wr_blocked L (tw_world m)"
  shows "step_ok L d (absorb_tw L m d)"
  using assms absorb_tw_frame(13) [of L m d] by (auto simp: step_ok_def absorb_tw_frame)

lemma dsp_add_to_time_wait_ok:
  assumes L: "dsp_lib_ok L" and c: "map_of (session_map d) c = None" and ok: "dsp_ok d"
  shows "\<exists>m. dsp_add_to_time_wait L c v p d = Some (Inr (absorb_tw L m d)) \<and> step_ok L d (absorb_tw L m d) \<and>
    IsConnectionIdInTimeWait c m"
proof -
  note D = dsp_okD [OF ok]
  obtain m where m: "dsp_add_to_time_wait L c v p d = Some (Inr (absorb_tw L m d))"
    "keys_distinct (connection_id_map m)" "IsConnectionIdInTimeWait c m"
    "\<forall>c'. c' \<noteq> c \<longrightarrow> map_of (connection_id_map m) c' \<noteq> None \<longrightarrow>
       map_of (connection_id_map (time_wait d)) c' \<noteq> None"
    "wr_blocked L (tw_world m) = wr_blocked L (dsp_world d)"
    using dsp_add_to_time_wait_eq [OF L D(5), of c v p] by blast
  have "dsp_ok (absorb_tw L m d)" by (rule dsp_ok_absorb [OF ok m(2)]) (use D(6) m(4) c in metis)
  then have "step_ok L d (absorb_tw L m d)" by (rule step_ok_absorb) (use m(5) in simp)
  with m(1,3) show ?thesis by blast
qed

section \<open>Closing a connection\<close>

lemma dsp_world_set [simp]:
  "dsp_world (set_dsp_world x d) = x" "session_map (set_dsp_world x d) = session_map d"
  "closed_session_list (set_dsp_world x d) = closed_session_list d" "sessions (set_dsp_world x d) = sessions d"
  "next_session (set_dsp_world x d) = next_session d" "write_blocked_list (set_dsp_world x d) = write_blocked_list d"
  "connection_id_map (time_wait (set_dsp_world x d)) = connection_id_map (time_wait d)"
  "current_packet (set_dsp_world x d) = current_packet d" "supported_versions (set_dsp_world x d) = supported_versions d"
  "alarm_log (set_dsp_world x d) = alarm_log d" "streams (set_dsp_world x d) = streams d"
  "tw_alarm_calls (time_wait (set_dsp_world x d)) = tw_alarm_calls (time_wait d)"
  "d_packet_num (set_dsp_world x d) = d_packet_num d"
  by (simp_all add: set_dsp_world_def dsp_world_def)

lemma dsp_world_fields [simp]:
  "dsp_world (d\<lparr>write_blocked_list := b\<rparr>) = dsp_world d" "dsp_world (d\<lparr>session_map := sm\<rparr>) = dsp_world d"
  "dsp_world (d\<lparr>closed_session_list := cl\<rparr>) = dsp_world d" "dsp_world (d\<lparr>alarm_log := al\<rparr>) = dsp_world d"
  "dsp_world (d\<lparr>streams := sts\<rparr>) = dsp_world d"
  "dsp_world (d\<lparr>framer_version := v\<rparr>) = dsp_world d" "dsp_world (d\<lparr>sessions := ss\<rparr>) = dsp_world d"
  "dsp_world (d\<lparr>next_session := n\<rparr>) = dsp_world d" "dsp_world (d\<lparr>visitor_connection_id := c\<rparr>) = dsp_world d"
  by (simp_all add: dsp_world_def)

lemma delete_session_facts:
  assumes "keys_distinct sm" "distinct (map snd sm @ cl)" "map_of sm c = Some a"
  shows "snd ` set (AList.delete c sm) = snd ` set sm - {a}" "a \<in> snd ` set sm"
    "distinct (map snd (AList.delete c sm) @ cl @ [a])"
  using assms
proof (induction sm)
  case (Cons e sm)
  {
    case 1 then show ?case using Cons by (cases e) (auto simp: delete_absent split: if_splits)
  next
    case 2 then show ?case using Cons by (cases e) (auto split: if_splits)
  next
    case 3
    obtain c' a' where e: "e = (c', a')" by (cases e)
    show ?case
    proof (cases "c' = c")
      case True
      with 3 e show ?thesis by (auto simp: delete_absent)
    next
      case False
      then have "snd ` set (AList.delete c sm) = snd ` set sm - {a}" "distinct (map snd (AList.delete c sm) @ cl @ [a])"
        using Cons 3 e by auto
      moreover have "a' \<noteq> a" using 3 e False Cons.IH(2) by (auto simp: image_iff dest: map_of_SomeD)
      ultimately show ?thesis using 3 e False by auto
    qed
  }
qed auto

text \<open>\<open>CleanUpSession\<close>, field by field.\<close>

lemma CleanUpSession_run:
  assumes L: "dsp_lib_ok L" and k: "keys_distinct (connection_id_map (time_wait d))" and a: "sessions d a \<noteq> None"
  shows "\<exists>d'. CleanUpSession L c a d = Some (Inr d') \<and> session_map d' = AList.delete c (session_map d) \<and>
    closed_session_list d' = closed_session_list d \<and> sessions d' = sessions d \<and> next_session d' = next_session d \<and>
    current_packet d' = current_packet d \<and> supported_versions d' = supported_versions d \<and>
    alarm_log d' = alarm_log d \<and> streams d' = streams d \<and> d_packet_num d' = d_packet_num d \<and>
    keys_distinct (connection_id_map (time_wait d')) \<and>
    IsConnectionIdInTimeWait c (time_wait d') \<and>
    (\<forall>c'. c' \<noteq> c \<longrightarrow> map_of (connection_id_map (time_wait d')) c' \<noteq> None \<longrightarrow>
       map_of (connection_id_map (time_wait d)) c' \<noteq> None) \<and>
    wr_blocked L (dsp_world d') = wr_blocked L (dsp_world d) \<and>
    (\<forall>b. Connection b \<in> set (write_blocked_list d') \<longleftrightarrow> Connection b \<in> set (write_blocked_list d) \<and> b \<noteq> a) \<and>
    (\<not> wr_blocked L (dsp_world d') \<longrightarrow> length (write_blocked_list d') \<le> length (write_blocked_list d))"
proof -
  obtain cp y where rel: "ReleaseConnectionClosePacket L a (dsp_world d) = (cp, y)" by fastforce
  define d2 where "d2 = (set_dsp_world y d)\<lparr>write_blocked_list :=
      filter (\<lambda>b. b \<noteq> Connection a) (write_blocked_list d)\<rparr>"
  have w: "wr_blocked L (dsp_world d2) = wr_blocked L (dsp_world d)"
    using dsp_lib_okD(5) [OF L, of a "dsp_world d"] rel by (simp add: d2_def)
  have k2: "keys_distinct (connection_id_map (time_wait d2))" using k by (simp add: d2_def)
  obtain m where m: "dsp_add_to_time_wait L c (conn_version L a y) cp d2 = Some (Inr (absorb_tw L m d2))"
    "keys_distinct (connection_id_map m)" "IsConnectionIdInTimeWait c m"
    "\<forall>c'. c' \<noteq> c \<longrightarrow> map_of (connection_id_map m) c' \<noteq> None \<longrightarrow>
       map_of (connection_id_map (time_wait d2)) c' \<noteq> None"
    "wr_blocked L (tw_world m) = wr_blocked L (dsp_world d2)" "tw_alarm_calls m = tw_alarm_calls (time_wait d2)"
    using dsp_add_to_time_wait_eq [OF L k2] by blast
  define d' where "d' = (absorb_tw L m d2)\<lparr>session_map := AList.delete c (session_map d)\<rparr>"
  have "CleanUpSession L c a d = Some (Inr d')"
    using a rel m(1) by (auto simp: CleanUpSession_def Let_def d'_def absorb_tw_frame d2_def)
  moreover have "length (write_blocked_list d') \<le> length (write_blocked_list d)" if "\<not> wr_blocked L (dsp_world d')"
    using that absorb_tw_frame(13) [of L m d2] by (simp add: d'_def absorb_tw_frame) (simp add: d2_def)
  moreover have "wr_blocked L (dsp_world d') = wr_blocked L (dsp_world d)"
    using m(5) w by (simp add: d'_def absorb_tw_frame)
  moreover have "\<forall>c'. c' \<noteq> c \<longrightarrow> map_of (connection_id_map (time_wait d')) c' \<noteq> None \<longrightarrow>
       map_of (connection_id_map (time_wait d)) c' \<noteq> None"
    using m(4) by (simp add: d'_def absorb_tw_frame d2_def)
  moreover have "Connection b \<in> set (write_blocked_list d') \<longleftrightarrow> Connection b \<in> set (write_blocked_list d) \<and> b \<noteq> a" for b
    by (auto simp: d'_def absorb_tw_frame d2_def)
  ultimately show ?thesis
    using m(2,3,6) by (intro exI [of _ d']) (simp add: d'_def absorb_tw_frame d2_def)
qed

text \<open>
  The exact effect of a close: the session leaves the map and the write-blocked list, joins the closed list,
  its id enters time wait, and the first closed session arms the deletion alarm.
\<close>

lemma dsp_OnConnectionClosed_effect:
  assumes L: "dsp_lib_ok L" and ok: "dsp_ok d" and a: "map_of (session_map d) c = Some a"
  shows "\<exists>d'. dsp_OnConnectionClosed L c d = Some (Inr d') \<and> step_ok L d d' \<and>
    session_map d' = AList.delete c (session_map d) \<and> closed_session_list d' = closed_session_list d @ [a] \<and>
    IsConnectionIdInTimeWait c (time_wait d') \<and> Connection a \<notin> set (write_blocked_list d') \<and>
    alarm_log d' = alarm_log d @
      (if closed_session_list d = []
       then [(Delete_sessions_alarm, Alarm_Cancel),
             (Delete_sessions_alarm, Alarm_Set (fst (ApproximateNow (dl_tw L) (dsp_world d))))] else [])"
proof -
  note D = dsp_okD [OF ok]
  note F = delete_session_facts [OF D(1,2) a]
  obtain now x where now: "ApproximateNow (dl_tw L) (dsp_world d) = (now, x)" by fastforce
  define d1 where "d1 = (if closed_session_list d = []
      then (set_dsp_world x d)\<lparr>alarm_log := alarm_log d @
             [(Delete_sessions_alarm, Alarm_Cancel), (Delete_sessions_alarm, Alarm_Set now)]\<rparr>
      else d)\<lparr>closed_session_list := closed_session_list d @ [a]\<rparr>"
  have wx: "wr_blocked L x = wr_blocked L (dsp_world d)" using dsp_lib_okD(4) [OF L, of "dsp_world d"] now by simp
  have f1: "wr_blocked L (dsp_world d1) = wr_blocked L (dsp_world d)" "session_map d1 = session_map d"
    "sessions d1 = sessions d" "next_session d1 = next_session d"
    "write_blocked_list d1 = write_blocked_list d" "current_packet d1 = current_packet d"
    "supported_versions d1 = supported_versions d" "d_packet_num d1 = d_packet_num d" "connection_id_map (time_wait d1) = connection_id_map (time_wait d)"
    "closed_session_list d1 = closed_session_list d @ [a]"
    "alarm_log d1 = alarm_log d @ (if closed_session_list d = []
       then [(Delete_sessions_alarm, Alarm_Cancel), (Delete_sessions_alarm, Alarm_Set now)] else [])"
    "streams d1 = streams d"
    by (simp_all add: d1_def wx)
  have "sessions d1 a \<noteq> None" using D(3) F(2) f1(3) by auto
  from CleanUpSession_run [OF L _ this, of c] D(5)
  obtain d' where d': "CleanUpSession L c a d1 = Some (Inr d')" "session_map d' = AList.delete c (session_map d)"
    "closed_session_list d' = closed_session_list d @ [a]" "sessions d' = sessions d" "next_session d' = next_session d"
    "current_packet d' = current_packet d" "supported_versions d' = supported_versions d"
    "alarm_log d' = alarm_log d1" "streams d' = streams d" "d_packet_num d' = d_packet_num d" "keys_distinct (connection_id_map (time_wait d'))"
    "IsConnectionIdInTimeWait c (time_wait d')"
    and tw: "\<And>c'. c' \<noteq> c \<Longrightarrow> map_of (connection_id_map (time_wait d')) c' \<noteq> None \<Longrightarrow>
       map_of (connection_id_map (time_wait d)) c' \<noteq> None"
    and w: "wr_blocked L (dsp_world d') = wr_blocked L (dsp_world d)"
    and wb: "\<And>b. Connection b \<in> set (write_blocked_list d') \<longleftrightarrow> Connection b \<in> set (write_blocked_list d) \<and> b \<noteq> a"
    and len: "\<not> wr_blocked L (dsp_world d') \<longrightarrow> length (write_blocked_list d') \<le> length (write_blocked_list d)"
    unfolding f1 by blast
  have "dsp_OnConnectionClosed L c d = CleanUpSession L c a d1"
    using a now by (simp add: dsp_OnConnectionClosed_def d1_def)
  moreover have "dsp_ok d'"
  proof (rule dsp_okI)
    show "keys_distinct (session_map d')" using D(1) by (simp add: d')
    show "distinct (map snd (session_map d') @ closed_session_list d')" using F(3) by (simp add: d')
    show "dom (sessions d') = snd ` set (session_map d') \<union> set (closed_session_list d')"
      using D(3) F(1,2) by (auto simp: d')
    show "b < next_session d'" if "b \<in> dom (sessions d')" for b using D(4) [of b] that by (simp add: d')
    show "keys_distinct (connection_id_map (time_wait d'))" by (rule d'(11))
    show "objects_ok d'"
      by (rule objects_ok_frame [OF D(8) d'(4,9) trans [OF d'(8) f1(11)]]) (auto split: if_splits)
    show "map_of (connection_id_map (time_wait d')) e = None" if "map_of (session_map d') e \<noteq> None" for e
    proof -
      have "e \<noteq> c" "map_of (session_map d) e \<noteq> None" using that by (auto simp: d' split: if_splits)
      with D(6) [of e] tw [of e] show ?thesis by (cases "map_of (connection_id_map (time_wait d')) e") auto
    qed
    show "b \<in> snd ` set (session_map d')" if "Connection b \<in> set (write_blocked_list d')" for b
      using that D(7) [of b] wb F(1) by (simp add: d')
  qed
  moreover have "set (AList.delete c (session_map d)) \<subseteq> set (session_map d)" by (auto simp: AList.delete_eq)
  ultimately show ?thesis using d' w len wb now f1(11) by (simp add: step_ok_def)
qed

lemma dsp_OnConnectionClosed_ok:
  assumes "dsp_lib_ok L" "dsp_ok d"
  shows "returns_ok (step_ok L d) (dsp_OnConnectionClosed L c d)"
proof (cases "map_of (session_map d) c")
  case None
  with assms(2) show ?thesis by (simp add: dsp_OnConnectionClosed_def step_ok_refl)
next
  case (Some a)
  with dsp_OnConnectionClosed_effect [OF assms Some] show ?thesis by auto
qed

section \<open>Running a connection\<close>

lemma dsp_ok_frame:
  assumes "dsp_ok d" "session_map d' = session_map d" "closed_session_list d' = closed_session_list d"
    "sessions d' = sessions d" "next_session d' = next_session d"
    "connection_id_map (time_wait d') = connection_id_map (time_wait d)"
    "\<And>a. Connection a \<in> set (write_blocked_list d') \<Longrightarrow> a \<in> snd ` set (session_map d)"
    "streams d' = streams d" "alarm_log d' = alarm_log d"
  shows "dsp_ok d'"
proof -
  have "objects_ok d'"
    by (rule objects_ok_frame [OF dsp_okD(8) [OF assms(1)] assms(4,8), of "[]"]) (simp_all add: assms(9))
  with assms(1-7) show ?thesis by (simp add: dsp_ok_def)
qed

text \<open>Changes to streams and alarms alone.\<close>

lemma dsp_ok_objects:
  assumes "dsp_ok d" "objects_ok d'" "session_map d' = session_map d" "closed_session_list d' = closed_session_list d"
    "sessions d' = sessions d" "next_session d' = next_session d"
    "connection_id_map (time_wait d') = connection_id_map (time_wait d)" "write_blocked_list d' = write_blocked_list d"
  shows "dsp_ok d'"
  using assms by (simp add: dsp_ok_def)

lemma dsp_OnWriteBlocked_ok:
  assumes "dsp_ok d" "a \<in> snd ` set (session_map d)"
  shows "step_ok L d (dsp_OnWriteBlocked L (Connection a) d)"
proof -
  have "set (write_blocked_list (dsp_OnWriteBlocked L (Connection a) d)) \<subseteq> insert (Connection a) (set (write_blocked_list d))"
    by (auto simp: dsp_OnWriteBlocked_def split: if_splits)
  then have wb: "b \<in> snd ` set (session_map d)"
    if "Connection b \<in> set (write_blocked_list (dsp_OnWriteBlocked L (Connection a) d))" for b
    using that assms(2) dsp_okD(7) [OF assms(1), of b] by blast
  have "dsp_ok (dsp_OnWriteBlocked L (Connection a) d)"
    by (rule dsp_ok_frame [OF assms(1)]) (simp_all add: dsp_OnWriteBlocked_def wb [unfolded dsp_OnWriteBlocked_def])
  then show ?thesis by (simp add: step_ok_def dsp_OnWriteBlocked_def)
qed

lemma streams_ok_update:
  assumes "streams_ok d" "sessions d' = sessions d" "streams d' = (streams d)((a, sid) \<mapsto> st)"
    "sessions d a = Some ses" "stream_ok (ses_packet_num ses) st"
  shows "streams_ok d'"
  using assms by (auto simp: streams_ok_def)

lemma streams_okE:
  assumes "streams_ok d" "streams d (a, sid) = Some st"
  obtains ses where "sessions d a = Some ses" "stream_ok (ses_packet_num ses) st"
  using assms unfolding streams_ok_def by blast

lemma on_stream_ok:
  assumes ok: "dsp_ok d" and st: "streams d (a, sid) \<noteq> None" and f: "\<And>n st. stream_ok n st \<Longrightarrow> stream_ok n (f st)"
  shows "returns_ok (step_ok L d) (Some (on_stream a sid f d))"
proof -
  obtain st where st: "streams d (a, sid) = Some st" using st by blast
  have o: "objects_ok d" by (rule dsp_okD(8) [OF ok])
  then obtain ses where ses: "sessions d a = Some ses" "stream_ok (ses_packet_num ses) st"
    using st by (auto simp: objects_ok_def elim: streams_okE)
  let ?d = "d\<lparr>streams := (streams d)((a, sid) \<mapsto> f st)\<rparr>"
  have "streams_ok ?d"
    by (rule streams_ok_update [OF _ _ _ ses(1) f [OF ses(2)]]) (use o in \<open>simp_all add: objects_ok_def\<close>)
  moreover have "owner_alive ?d al" if "owner_alive d al" for al using that by (cases al) auto
  ultimately have "objects_ok ?d" by (intro objects_ok_log [OF o, of ?d "[]"]) simp_all
  then have "dsp_ok ?d" by (rule dsp_ok_objects [OF ok]) simp_all
  then show ?thesis using st by (simp add: on_stream_def step_ok_def)
qed

lemma new_stream_ok:
  assumes L: "dsp_lib_ok L" and ok: "dsp_ok d" and a: "sessions d a \<noteq> None"
  shows "returns_ok (step_ok L d) (Some (new_stream L a sid n d))"
proof -
  obtain ses where ses: "sessions d a = Some ses" using a by blast
  obtain st x where st: "CreateIncomingDynamicStream (dl_tw L) (ses_packet_num ses) n (dsp_world d) = (st, x)" by fastforce
  have o: "objects_ok d" by (rule dsp_okD(8) [OF ok])
  have x: "wr_blocked L x = wr_blocked L (dsp_world d)"
    using dsp_lib_okD(4) [OF L, of "dsp_world d"] new_stream_fields(5) [of "dl_tw L" "ses_packet_num ses" n "dsp_world d"] st by simp
  define cs where "cs = map (Pair (Stream_alarm a sid)) (case st_alarm st of None \<Rightarrow> [] | Some cs \<Rightarrow> cs)"
  let ?d = "(set_dsp_world x d)\<lparr>streams := (streams d)((a, sid) \<mapsto> st), alarm_log := alarm_log d @ cs\<rparr>"
  have new: "stream_ok (ses_packet_num ses) st" using stream_ok_new [of "ses_packet_num ses" "dl_tw L" n "dsp_world d"] st by simp
  have "streams_ok ?d"
    by (rule streams_ok_update [OF _ _ _ ses new]) (use o in \<open>simp_all add: objects_ok_def\<close>)
  moreover have "owner_alive ?d al" if "owner_alive d al" for al using that by (cases al) auto
  moreover have "owner_alive ?d al" if "al \<in> fst ` set cs" for al using that by (auto simp: cs_def)
  ultimately have "objects_ok ?d" by (intro objects_ok_log [OF o, of ?d cs]) simp_all
  then have "dsp_ok ?d" by (rule dsp_ok_objects [OF ok]) simp_all
  then show ?thesis using ses st x by (simp add: new_stream_def step_ok_def cs_def)
qed

lemma delete_stream_ok:
  assumes ok: "dsp_ok d" and st: "streams d (a, sid) \<noteq> None"
  shows "returns_ok (step_ok L d) (Some (delete_stream a sid d))"
proof -
  obtain st where st: "streams d (a, sid) = Some st" using st by blast
  have o: "objects_ok d" by (rule dsp_okD(8) [OF ok])
  have del: "QuicServerStream_delete st = Inr [Alarm_Cancel]"
    using st o by (auto simp: objects_ok_def stream_ok_def QuicServerStream_delete_def elim!: streams_okE)
  let ?d = "d\<lparr>streams := (streams d)((a, sid) := None), alarm_log := alarm_log d @ [(Stream_alarm a sid, Alarm_Cancel)]\<rparr>"
  have "streams_ok ?d" using o by (auto simp: objects_ok_def streams_ok_def)
  moreover have "owner_alive ?d al" if "owner_alive d al" "al \<noteq> Stream_alarm a sid" for al using that by (cases al) auto
  ultimately have "objects_ok ?d" using o by (auto simp: objects_ok_def)
  then have "dsp_ok ?d" by (rule dsp_ok_objects [OF ok]) simp_all
  then show ?thesis using st del by (simp add: delete_stream_def step_ok_def)
qed

lemma run_conn_op_ok:
  assumes L: "dsp_lib_ok L" and ok: "dsp_ok d" and op: "conn_op_ok a op d" and a: "sessions d a \<noteq> None"
  shows "returns_ok (step_ok L d) (run_conn_op L a op d)"
proof (cases op)
  case (Conn_closed c)
  with dsp_OnConnectionClosed_ok [OF L ok] show ?thesis by simp
next
  case Conn_write_blocked
  with assms dsp_OnWriteBlocked_ok show ?thesis by simp
next
  case (Conn_write buf self peer)
  note W = dsp_lib_okD(1) [OF L]
  show ?thesis
  proof (cases "qw_write (tw_writer (dl_tw L)) buf self peer (dsp_world d)")
    case (Inl e)
    with Conn_write packet_writer.write_aborts [OF W Inl] show ?thesis by simp
  next
    case (Inr rx)
    then obtain r x where w: "qw_write (tw_writer (dl_tw L)) buf self peer (dsp_world d) = Inr (r, x)" by (cases rx) auto
    have "dsp_ok (set_dsp_world x d)" by (rule dsp_ok_frame [OF ok]) (use dsp_okD(7) [OF ok] in auto)
    then have "step_ok L d (set_dsp_world x d)"
      using packet_writer.blocked_after_write [OF W w] by (simp add: step_ok_def)
    with Conn_write w show ?thesis by simp
  qed
next
  case (Conn_step i)
  let ?d = "set_dsp_world (conn_step L a i (dsp_world d)) d"
  have "dsp_ok ?d" by (rule dsp_ok_frame [OF ok]) (use dsp_okD(7) [OF ok] in auto)
  with Conn_step show ?thesis by (simp add: step_ok_def dsp_lib_okD(11) [OF L])
next
  case (Conn_alarm k c)
  let ?d = "d\<lparr>alarm_log := alarm_log d @ [(Connection_alarm a k, c)]\<rparr>"
  have "objects_ok ?d"
    by (rule objects_ok_frame [OF dsp_okD(8) [OF ok], of ?d "[(Connection_alarm a k, c)]"]) (use a in simp_all)
  then have "dsp_ok ?d" by (rule dsp_ok_objects [OF ok]) simp_all
  with Conn_alarm show ?thesis by (simp add: step_ok_def)
next
  case (Conn_new_stream sid n)
  with new_stream_ok [OF L ok a] show ?thesis by simp
next
  case (Conn_stream_data sid len)
  with op on_stream_ok [OF ok, of a sid "\<lambda>st. snd (ProcessRawData len st)" L, OF _ stream_ok_data] show ?thesis by simp
next
  case (Conn_stream_fin sid)
  with op on_stream_ok [OF ok, of a sid OnFinRead L, OF _ stream_ok_fin] show ?thesis by simp
next
  case (Conn_delete_stream sid)
  with op delete_stream_ok [OF ok] show ?thesis by simp
qed

lemma run_conn_ok:
  assumes L: "dsp_lib_ok L"
  shows "dsp_ok d \<Longrightarrow> sessions d a \<noteq> None \<Longrightarrow> live_client a p d \<Longrightarrow>
    returns_ok (step_ok L d) (run_conn (\<lambda>d op. run_conn_op L a op d) p d)"
proof (induction p arbitrary: d)
  case (Return r)
  then show ?case by (simp add: step_ok_refl)
next
  case (Perform op k)
  have "returns_ok (step_ok L d) (run_conn_op L a op d)"
    by (rule run_conn_op_ok [OF L Perform.prems(1) _ Perform.prems(2)]) (use Perform.prems(3) in simp)
  then have "returns_ok (step_ok L d) (obind (run_conn_op L a op d) (\<lambda>d. run_conn (\<lambda>d op. run_conn_op L a op d) (k d) d))"
  proof (rule returns_ok_obind)
    fix e assume e: "step_ok L d e"
    have "live_client a (k e) e" "sessions e a \<noteq> None" using Perform.prems(2,3) e by (simp_all add: step_ok_def)
    from Perform.IH [OF rangeI step_okD [OF e] this(2,1)]
    show "returns_ok (step_ok L d) (run_conn (\<lambda>d op. run_conn_op L a op d) (k e) e)"
      by (rule returns_ok_mono) (rule step_ok_trans [OF e])
  qed
  then show ?case by simp
qed

lemma on_connection_ok:
  assumes "dsp_lib_ok L" "dsp_ok d" "sessions d a \<noteq> None" "live_client a p d"
  shows "returns_ok (step_ok L d) (on_connection L a p d)"
  using run_conn_ok [OF assms] assms(3) by (simp add: on_connection_def)

lemma session_in_map_live: "dsp_ok d \<Longrightarrow> a \<in> snd ` set (session_map d) \<Longrightarrow> sessions d a \<noteq> None"
  by (auto dest: dsp_okD(3))

section \<open>Dispatching a packet\<close>

lemma process_on_session_ok:
  assumes L: "dsp_lib_ok L" and ok: "dsp_ok d" and a: "a \<in> snd ` set (session_map d)" and p: "current_packet d \<noteq> None"
  shows "returns_ok (\<lambda>(b, d'). \<not> b \<and> step_ok L d d') (process_on_session L a d)"
proof -
  obtain packet where packet: "current_packet d = Some packet" using p by blast
  have "returns_ok (step_ok L d) (on_connection L a
      (conn_ProcessUdpPacket L a (current_server_address d) (current_client_address d) packet) d)"
    by (rule on_connection_ok [OF L ok session_in_map_live [OF ok a] dsp_lib_okD(7) [OF L a]])
  then show ?thesis unfolding process_on_session_def packet option.case by (rule returns_ok_obind) simp
qed

text \<open>
  \<open>packet_ok\<close>: the state between two calls of the framer; sessions may have been created, never deleted.
  Every session carries the dispatcher's packet count (\<open>counts_ok\<close>).
\<close>

definition counts_ok :: "('ep, 't, 'd, 'v, 'x) dsp \<Rightarrow> bool" where
  "counts_ok d \<longleftrightarrow> (\<forall>a s. sessions d a = Some s \<longrightarrow> ses_packet_num s = d_packet_num d)"

definition packet_ok :: "('ep, 't, 'd, 'v, 'x) dsp \<Rightarrow> bool" where
  "packet_ok d \<longleftrightarrow> dsp_ok d \<and> current_packet d \<noteq> None \<and> supported_versions d \<noteq> [] \<and> counts_ok d"

lemma counts_ok_frame: "sessions d' = sessions d \<Longrightarrow> d_packet_num d' = d_packet_num d \<Longrightarrow> counts_ok d' = counts_ok d"
  by (simp add: counts_ok_def)

lemma HandlePacketForTimeWait_ok:
  assumes "packet_ok d" "IsConnectionIdInTimeWait (hdr_connection_id h) (time_wait d)"
  shows "returns_ok (\<lambda>(b, d'). packet_ok d' \<and> session_map d' = session_map d \<and> sessions d' = sessions d \<and>
      b = (\<not> hdr_reset_flag h) \<and> IsConnectionIdInTimeWait (hdr_connection_id h) (time_wait d')) (Some (HandlePacketForTimeWait h d))"
proof -
  obtain data where "map_of (connection_id_map (time_wait d)) (hdr_connection_id h) = Some data"
    using assms(2) by (auto simp: IsConnectionIdInTimeWait_def)
  moreover have "dsp_ok (d\<lparr>framer_version := v\<rparr>)" for v
    by (rule dsp_ok_frame) (use assms(1) dsp_okD(7) [of d] in \<open>auto simp: packet_ok_def\<close>)
  ultimately show ?thesis
    using assms by (auto simp: HandlePacketForTimeWait_def GetQuicVersionFromConnectionId_def packet_ok_def counts_ok_def)
qed

lemma create_session_ok:
  assumes ok: "dsp_ok d" and c: "map_of (session_map d) c = None" "map_of (connection_id_map (time_wait d)) c = None"
    and d': "CreateQuicSession c d = (Some a, d')"
  shows "dsp_ok (d'\<lparr>session_map := (c, a) # session_map d'\<rparr>)"
proof -
  note D = dsp_okD [OF ok]
  have d: "a = next_session d" "d' = d\<lparr>sessions := (sessions d)(a \<mapsto> \<lparr>ses_connection_id = c, ses_packet_num = d_packet_num d, ses_crypto_stream = True\<rparr>),
      next_session := Suc a\<rparr>" using d' by (auto simp: CreateQuicSession_simp Let_def)
  have new: "a \<notin> dom (sessions d)" using D(4) d(1) by blast
  show ?thesis
  proof (rule dsp_okI, goal_cases)
    case 1 then show ?case using D(1) c(1) by (simp add: d(2))
  next
    case 2 then show ?case using D(2,3) new by (simp add: d(2))
  next
    case 3 then show ?case using D(3) by (auto simp: d(2))
  next
    case (4 b) then show ?case using D(4) [of b] d(1) by (auto simp: d(2) less_Suc_eq split: if_splits)
  next
    case 5 then show ?case using D(5) by (simp add: d(2))
  next
    case (6 e) then show ?case using D(6) [of e] c(2) by (auto simp: d(2) split: if_splits)
  next
    case (7 b) then show ?case using D(7) [of b] by (auto simp: d(2))
  next
    case 8
    let ?d = "d'\<lparr>session_map := (c, a) # session_map d'\<rparr>"
    have "streams_ok ?d" unfolding streams_ok_def
    proof (intro allI impI)
      fix b sid st assume "streams ?d (b, sid) = Some st"
      then have "streams d (b, sid) = Some st" by (simp add: d(2))
      with D(8) obtain ses where "sessions d b = Some ses" "stream_ok (ses_packet_num ses) st"
        unfolding objects_ok_def by (blast elim: streams_okE)
      with new show "\<exists>ses. sessions ?d b = Some ses \<and> stream_ok (ses_packet_num ses) st" by (auto simp: d(2))
    qed
    moreover have "owner_alive ?d al" if "owner_alive d al" for al using that by (cases al) (auto simp: d(2))
    ultimately show ?case by (intro objects_ok_log [OF D(8), of ?d "[]"]) (simp_all add: d(2))
  qed
qed

lemma step_packet_ok: "packet_ok d \<Longrightarrow> step_ok L d d' \<Longrightarrow> packet_ok d'"
  by (simp add: packet_ok_def step_ok_def counts_ok_def)

text \<open>
  Where a packet goes, by its public header. \<open>b\<close> is the answer to the framer: a packet for a session has
  been consumed, one for the time-wait list is to be parsed further.
\<close>

definition routed ::
  "('ep, 't, 'd, 'v, 'x) dsp_lib \<Rightarrow> 'v public_header \<Rightarrow> ('ep, 't, 'd, 'v, 'x) dsp \<Rightarrow>
   bool \<times> ('ep, 't, 'd, 'v, 'x) dsp \<Rightarrow> bool" where
  "routed L h d = (\<lambda>(b, d').
     packet_ok d' \<and>
     (if ep_port L (current_client_address d) = 0 then \<not> b \<and> d' = d
      else case map_of (session_map d) (hdr_connection_id h) of
        Some a \<Rightarrow> \<not> b \<and> sessions d' = sessions d
      | None \<Rightarrow>
          if IsConnectionIdInTimeWait (hdr_connection_id h) (time_wait d) \<or> \<not> hdr_reset_flag h \<and> \<not> hdr_version_flag h
          then b = (\<not> hdr_reset_flag h) \<and> sessions d' = sessions d \<and> session_map d' = session_map d \<and>
               IsConnectionIdInTimeWait (hdr_connection_id h) (time_wait d')
          else if hdr_reset_flag h then \<not> b \<and> d' = d
          else \<not> b \<and> sessions d' = (sessions d)(next_session d \<mapsto>
                 \<lparr>ses_connection_id = hdr_connection_id h, ses_packet_num = d_packet_num d, ses_crypto_stream = True\<rparr>)))"

lemma process_on_session_packet_ok:
  assumes L: "dsp_lib_ok L" and ok: "packet_ok d" and a: "a \<in> snd ` set (session_map d)"
  shows "returns_ok (\<lambda>(b, d'). \<not> b \<and> packet_ok d' \<and> sessions d' = sessions d) (process_on_session L a d)"
proof -
  have "returns_ok (\<lambda>(b, d'). \<not> b \<and> step_ok L d d') (process_on_session L a d)"
    using ok process_on_session_ok [OF L _ a] by (simp add: packet_ok_def)
  then show ?thesis by (rule returns_ok_mono) (use ok in \<open>auto simp: packet_ok_def step_ok_def counts_ok_def\<close>)
qed

lemma new_session_routed:
  assumes L: "dsp_lib_ok L" and ok: "packet_ok d" and c: "map_of (session_map d) (hdr_connection_id h) = None"
    "\<not> IsConnectionIdInTimeWait (hdr_connection_id h) (time_wait d)"
  shows "returns_ok (\<lambda>(b, d'). \<not> b \<and> packet_ok d' \<and> sessions d' = (sessions d)(next_session d \<mapsto>
        \<lparr>ses_connection_id = hdr_connection_id h, ses_packet_num = d_packet_num d, ses_crypto_stream = True\<rparr>))
    (obind (AdditionalValidityChecksThenCreateSession L h (hdr_connection_id h) d) (\<lambda>(session, d).
       case session of None \<Rightarrow> Some (Inr (False, d)) | Some a \<Rightarrow> process_on_session L a d))"
proof -
  let ?c = "hdr_connection_id h" and ?a = "next_session d"
  obtain e where e: "CreateQuicSession ?c d = (Some ?a, e)" by (auto simp: CreateQuicSession_simp Let_def)
  let ?e = "e\<lparr>session_map := (?c, ?a) # session_map e\<rparr>"
  have "dsp_ok ?e"
    using create_session_ok [OF _ c(1) _ e] ok c(2) by (simp add: packet_ok_def IsConnectionIdInTimeWait_def)
  then have "packet_ok ?e" using ok e by (auto simp: packet_ok_def CreateQuicSession_simp Let_def counts_ok_def split: if_splits)
  then have "returns_ok (\<lambda>(b, d'). \<not> b \<and> packet_ok d' \<and> sessions d' = sessions ?e) (process_on_session L ?a ?e)"
    by (rule process_on_session_packet_ok [OF L]) simp
  moreover have "sessions e = (sessions d)(?a \<mapsto> \<lparr>ses_connection_id = ?c, ses_packet_num = d_packet_num d, ses_crypto_stream = True\<rparr>)"
    using e by (auto simp: CreateQuicSession_simp Let_def)
  ultimately show ?thesis by (simp add: AdditionalValidityChecksThenCreateSession_def e)
qed

lemma unversioned_routed:
  assumes L: "dsp_lib_ok L" and ok: "packet_ok d" and c: "map_of (session_map d) (hdr_connection_id h) = None"
    and v: "supported_versions d = v # vs" and h: "\<not> hdr_reset_flag h"
  shows "returns_ok (\<lambda>(b, d'). b \<and> packet_ok d' \<and> sessions d' = sessions d \<and> session_map d' = session_map d \<and>
        IsConnectionIdInTimeWait (hdr_connection_id h) (time_wait d'))
    (obind (dsp_add_to_time_wait L (hdr_connection_id h) v None d) (\<lambda>d. Some (HandlePacketForTimeWait h d)))"
proof -
  let ?c = "hdr_connection_id h"
  have D: "dsp_ok d" using ok by (simp add: packet_ok_def)
  obtain m where m: "dsp_add_to_time_wait L ?c v None d = Some (Inr (absorb_tw L m d))"
    "step_ok L d (absorb_tw L m d)" "IsConnectionIdInTimeWait ?c m"
    using dsp_add_to_time_wait_ok [OF L c D, of v None] by blast
  have "IsConnectionIdInTimeWait ?c (time_wait (absorb_tw L m d))" using m(3) by (simp add: absorb_tw_frame)
  from HandlePacketForTimeWait_ok [OF step_packet_ok [OF ok m(2)] this]
  have "returns_ok (\<lambda>(b, d'). b \<and> packet_ok d' \<and> sessions d' = sessions d \<and> session_map d' = session_map d \<and>
        IsConnectionIdInTimeWait ?c (time_wait d')) (Some (HandlePacketForTimeWait h (absorb_tw L m d)))"
    by (rule returns_ok_mono) (use h in \<open>auto simp: absorb_tw_frame\<close>)
  with m(1) show ?thesis by simp
qed

lemma dsp_OnUnauthenticatedPublicHeader_routed:
  assumes L: "dsp_lib_ok L" and ok: "packet_ok d"
  shows "returns_ok (routed L h d) (dsp_OnUnauthenticatedPublicHeader L h d)"
proof (cases "ep_port L (current_client_address d) = 0")
  case True
  then show ?thesis using ok by (simp add: dsp_OnUnauthenticatedPublicHeader_def routed_def)
next
  case port: False
  let ?c = "hdr_connection_id h"
  show ?thesis
  proof (cases "map_of (session_map d) ?c")
    case (Some a)
    then have "a \<in> snd ` set (session_map d)" by (force dest: map_of_SomeD)
    from process_on_session_packet_ok [OF L ok this]
    have "returns_ok (routed L h d) (process_on_session L a d)"
      by (rule returns_ok_mono) (use port Some in \<open>auto simp: routed_def\<close>)
    with Some port show ?thesis by (simp add: dsp_OnUnauthenticatedPublicHeader_def)
  next
    case None
    consider (tw) "IsConnectionIdInTimeWait ?c (time_wait d)"
      | (reset) "\<not> IsConnectionIdInTimeWait ?c (time_wait d)" "hdr_reset_flag h"
      | (unversioned) "\<not> IsConnectionIdInTimeWait ?c (time_wait d)" "\<not> hdr_reset_flag h" "\<not> hdr_version_flag h"
      | (fresh) "\<not> IsConnectionIdInTimeWait ?c (time_wait d)" "\<not> hdr_reset_flag h" "hdr_version_flag h"
      by blast
    then show ?thesis
    proof cases
      case tw
      from HandlePacketForTimeWait_ok [OF ok this] have "returns_ok (routed L h d) (Some (HandlePacketForTimeWait h d))"
        by (rule returns_ok_mono) (use port None tw in \<open>auto simp: routed_def\<close>)
      with tw None port show ?thesis by (simp add: dsp_OnUnauthenticatedPublicHeader_def)
    next
      case reset
      with ok None port show ?thesis by (simp add: dsp_OnUnauthenticatedPublicHeader_def routed_def)
    next
      case unversioned
      obtain v vs where v: "supported_versions d = v # vs" using ok by (auto simp: packet_ok_def neq_Nil_conv)
      from unversioned_routed [OF L ok None v unversioned(2)] show ?thesis
        unfolding dsp_OnUnauthenticatedPublicHeader_def using port None unversioned v
        by (auto elim!: returns_ok_mono simp: routed_def)
    next
      case fresh
      from new_session_routed [OF L ok None fresh(1)] show ?thesis
        unfolding dsp_OnUnauthenticatedPublicHeader_def using port None fresh
        by (auto elim!: returns_ok_mono simp: routed_def)
    qed
  qed
qed

text \<open>The visitor accepts a public header only for an id that is in time wait when it returns.\<close>

lemma routed_accepts:
  assumes "routed L h d (b, d')"
  shows "packet_ok d' \<and> (b \<longrightarrow> IsConnectionIdInTimeWait (hdr_connection_id h) (time_wait d'))"
  using assms by (cases b) (simp_all add: routed_def split: if_splits option.splits)

lemma dsp_OnUnauthenticatedPublicHeader_ok:
  assumes "dsp_lib_ok L" "packet_ok d"
  shows "returns_ok (\<lambda>(b, d'). packet_ok d' \<and> (b \<longrightarrow> IsConnectionIdInTimeWait (hdr_connection_id h) (time_wait d')))
    (dsp_OnUnauthenticatedPublicHeader L h d)"
  using dsp_OnUnauthenticatedPublicHeader_routed [OF assms]
  by (rule returns_ok_mono) (auto dest: routed_accepts)

lemma SendOrQueuePacket_map:
  "SendOrQueuePacket L p m = Inr m' \<Longrightarrow> connection_id_map m' = connection_id_map m"
  by (auto simp: SendOrQueuePacket_def rbind_eq_Inr dest!: WriteToWire_frame(1))

lemma tw_ProcessPacket_ok:
  assumes W: "packet_writer (tw_writer L)" and d: "map_of (connection_id_map m) c = Some data"
  shows "case tw_ProcessPacket L srv cli c n m of
      Inl e \<Rightarrow> benign e
    | Inr m' \<Rightarrow> map fst (connection_id_map m') = map fst (connection_id_map m)"
proof (cases "tw_ProcessPacket L srv cli c n m")
  case (Inl e)
  with d SendOrQueuePacket_aborts [OF W] show ?thesis
    by (auto simp: tw_ProcessPacket_def SendPublicReset_def Let_def split: if_splits option.splits)
next
  case (Inr m')
  have "map fst (AList.update c x (connection_id_map m)) = map fst (connection_id_map m)" for x
    using d by (simp add: update_keys map_of_SomeD [OF d, THEN imageI, of fst, simplified])
  with Inr d show ?thesis
    by (auto simp: tw_ProcessPacket_def SendPublicReset_def Let_def split: if_splits option.splits
        dest!: SendOrQueuePacket_map)
qed

lemma same_keys_absorb:
  assumes "dsp_ok d" "map fst (connection_id_map m) = map fst (connection_id_map (time_wait d))"
  shows "dsp_ok (absorb_tw L m d)"
proof (rule dsp_ok_absorb [OF assms(1)])
  show "keys_distinct (connection_id_map m)" using assms dsp_okD(5) by (simp add: keys_distinct_def)
  have "dom (map_of (connection_id_map m)) = dom (map_of (connection_id_map (time_wait d)))"
    by (metis assms(2) dom_map_of_conv_image_fst set_map)
  then show "map_of (connection_id_map m) c = None" if "map_of (session_map d) c \<noteq> None" for c
    using dsp_okD(6) [OF assms(1) that] by (metis domIff)
qed

lemma dsp_OnUnauthenticatedHeader_ok:
  assumes L: "dsp_lib_ok L" and ok: "packet_ok d"
    and c: "IsConnectionIdInTimeWait (hdr_connection_id h) (time_wait d)"
  shows "returns_ok packet_ok (Some (dsp_OnUnauthenticatedHeader L h n d))"
proof -
  obtain packet where packet: "current_packet d = Some packet" using ok by (auto simp: packet_ok_def)
  obtain data where data: "map_of (connection_id_map (time_wait d)) (hdr_connection_id h) = Some data"
    using c by (auto simp: IsConnectionIdInTimeWait_def)
  let ?r = "tw_ProcessPacket (dl_tw L) (current_server_address d) (current_client_address d) (hdr_connection_id h) n (time_wait d)"
  show ?thesis
  proof (cases ?r)
    case (Inl e)
    with tw_ProcessPacket_ok [OF dsp_lib_okD(1) [OF L] data] packet show ?thesis
      by (force simp: dsp_OnUnauthenticatedHeader_def split: sum.splits)
  next
    case (Inr m)
    then have "map fst (connection_id_map m) = map fst (connection_id_map (time_wait d))"
      using tw_ProcessPacket_ok [OF dsp_lib_okD(1) [OF L] data, of "current_server_address d" "current_client_address d" n] by simp
    with ok have "packet_ok (absorb_tw L m d)" by (simp add: packet_ok_def same_keys_absorb absorb_tw_frame counts_ok_def)
    with Inr packet show ?thesis by (simp add: dsp_OnUnauthenticatedHeader_def)
  qed
qed

lemma packet_ok_visitor: "packet_ok d \<Longrightarrow> packet_ok (d\<lparr>visitor_connection_id := c\<rparr>)"
  using dsp_ok_objects [of d "d\<lparr>visitor_connection_id := c\<rparr>"] objects_ok_frame [of d "d\<lparr>visitor_connection_id := c\<rparr>" "[]"] dsp_okD(8)
  by (auto simp: packet_ok_def counts_ok_def)

lemma run_framer_ok:
  fixes L :: "('ep, 't, 'd, 'v, 'x) dsp_lib"
  assumes L: "dsp_lib_ok L"
  shows "packet_ok d \<Longrightarrow> framer_ok r st \<Longrightarrow>
    (\<And>c. st = Some c \<Longrightarrow> IsConnectionIdInTimeWait c (time_wait d)) \<Longrightarrow> returns_ok packet_ok (run_framer L r d)"
proof (induction r arbitrary: d st)
  case Fr_done
  then show ?case by simp
next
  case (Fr_call c k)
  have IH: "returns_ok packet_ok (run_framer L (k b v) e)"
    if "packet_ok e" "framer_ok (k b v) st'" "\<And>c. st' = Some c \<Longrightarrow> IsConnectionIdInTimeWait c (time_wait e)" for b v e st'
    using Fr_call.IH [OF rangeI rangeI that] .
  have pass: "\<forall>b v. framer_ok (k b v) st \<Longrightarrow> returns_ok packet_ok (run_framer L (k b v) d)" for b v
    by (rule IH [OF Fr_call.prems(1) _ Fr_call.prems(3)]) simp_all
  show ?case
  proof (cases c)
    case (Fv_OnUnauthenticatedPublicHeader h)
    have "returns_ok packet_ok (obind (dsp_OnUnauthenticatedPublicHeader L h (d\<lparr>visitor_connection_id := hdr_connection_id h\<rparr>))
        (\<lambda>(b, d). run_framer L (k b (framer_version d)) d))"
    proof (rule returns_ok_obind [OF dsp_OnUnauthenticatedPublicHeader_ok [OF L packet_ok_visitor [OF Fr_call.prems(1)]]], clarify)
      fix b and e :: "('ep, 't, 'd, 'v, 'x) dsp"
      assume e: "packet_ok e" "b \<longrightarrow> IsConnectionIdInTimeWait (hdr_connection_id h) (time_wait e)"
      show "returns_ok packet_ok (run_framer L (k b (framer_version e)) e)"
        by (rule IH [OF e(1), of _ _ "if b then Some (hdr_connection_id h) else None"])
          (use Fr_call.prems(2) Fv_OnUnauthenticatedPublicHeader e(2) in \<open>cases b; simp\<close>)+
    qed
    with Fv_OnUnauthenticatedPublicHeader show ?thesis by simp
  next
    case (Fv_OnUnauthenticatedHeader h n)
    have "IsConnectionIdInTimeWait (hdr_connection_id h) (time_wait d)"
      using Fr_call.prems(2,3) Fv_OnUnauthenticatedHeader by simp
    from dsp_OnUnauthenticatedHeader_ok [OF L Fr_call.prems(1) this, of n] show ?thesis
    proof (cases rule: returns_okE)
      case (abort e)
      with Fv_OnUnauthenticatedHeader show ?thesis by simp
    next
      case (result e)
      have "returns_ok packet_ok (run_framer L (k False (framer_version e)) e)"
        by (rule IH [OF result(2), of _ _ None]) (use Fr_call.prems(2) Fv_OnUnauthenticatedHeader in simp_all)
      with result Fv_OnUnauthenticatedHeader show ?thesis by simp
    qed
  qed (use Fr_call.prems(2) pass in simp_all)
qed

lemma dsp_ProcessPacket_ok:
  assumes "dsp_lib_ok L" "dsp_ok d" "supported_versions d \<noteq> []" "counts_ok d"
  shows "returns_ok packet_ok (dsp_ProcessPacket L srv cli packet d)"
proof -
  let ?d = "d\<lparr>current_server_address := srv, current_client_address := cli, current_packet := Some packet\<rparr>"
  have "dsp_ok ?d" by (rule dsp_ok_frame [OF assms(2)]) (use dsp_okD(7) [OF assms(2)] in simp_all)
  then have "packet_ok ?d" using assms(3,4) by (simp add: packet_ok_def counts_ok_def)
  then show ?thesis unfolding dsp_ProcessPacket_def
    by (rule run_framer_ok [OF assms(1) _ dsp_lib_okD(6) [OF assms(1)]]) simp
qed

section \<open>Writing\<close>

lemma flush_queue_frame:
  "flush_queue L ps m = Inr m' \<Longrightarrow> connection_id_map m' = connection_id_map m"
  by (induction L ps m rule: flush_queue.induct)
    (auto simp: rbind_eq_Inr dest!: WriteToWire_frame(1) split: if_splits)

lemma WriteToWire_blocked_mono:
  assumes "packet_writer (tw_writer L)" "WriteToWire L p m = Inr (sent, m')" "qw_blocked (tw_writer L) (tw_world m)"
  shows "qw_blocked (tw_writer L) (tw_world m')"
  using assms by (auto simp: WriteToWire_def tw_visit_log_def)

lemma flush_queue_blocked_mono:
  assumes "packet_writer (tw_writer L)"
  shows "flush_queue L ps m = Inr m' \<Longrightarrow> qw_blocked (tw_writer L) (tw_world m) \<Longrightarrow> qw_blocked (tw_writer L) (tw_world m')"
  by (induction ps arbitrary: m)
    (auto simp: rbind_eq_Inr dest: WriteToWire_blocked_mono [OF assms] split: if_splits)

lemma blocked_writer_turn_ok:
  assumes L: "dsp_lib_ok L" and ok: "dsp_ok d" and bs: "write_blocked_list d = b # bs"
  shows "returns_ok (step_ok L (d\<lparr>write_blocked_list := bs\<rparr>))
    (case b of
       Time_wait_manager \<Rightarrow> Some (rbind (tw_OnCanWrite (dl_tw L) (time_wait (d\<lparr>write_blocked_list := bs\<rparr>)))
         (\<lambda>m. Inr (absorb_tw L m (d\<lparr>write_blocked_list := bs\<rparr>))))
     | Connection a \<Rightarrow> on_connection L a (conn_OnCanWrite L a) (d\<lparr>write_blocked_list := bs\<rparr>))"
proof -
  let ?d = "d\<lparr>write_blocked_list := bs\<rparr>"
  have ok': "dsp_ok ?d" by (rule dsp_ok_frame [OF ok]) (use dsp_okD(7) [OF ok] bs in auto)
  show ?thesis
  proof (cases b)
    case Time_wait_manager
    note W = dsp_lib_okD(1) [OF L]
    show ?thesis
    proof (cases "tw_OnCanWrite (dl_tw L) (time_wait ?d)")
      case (Inl e)
      with Time_wait_manager flush_queue_aborts [OF W] show ?thesis by (simp add: tw_OnCanWrite_def)
    next
      case (Inr m)
      note q = Inr [unfolded tw_OnCanWrite_def]
      have "dsp_ok (absorb_tw L m ?d)" by (rule same_keys_absorb [OF ok']) (simp add: flush_queue_frame [OF q])
      then have "step_ok L ?d (absorb_tw L m ?d)"
        by (rule step_ok_absorb) (use flush_queue_blocked_mono [OF W q] in \<open>simp add: dsp_world_def\<close>)
      with Inr Time_wait_manager show ?thesis by simp
    qed
  next
    case (Connection a)
    then have "a \<in> snd ` set (session_map ?d)" using dsp_okD(7) [OF ok, of a] bs by simp
    from on_connection_ok [OF L ok' session_in_map_live [OF ok' this] dsp_lib_okD(8) [OF L this]] Connection
    show ?thesis by simp
  qed
qed

lemma blocked_loop_ok:
  assumes L: "dsp_lib_ok L"
  shows "dsp_ok d \<Longrightarrow> returns_ok (\<lambda>d'. dsp_ok d' \<and> supported_versions d' = supported_versions d \<and>
      sessions d' = sessions d \<and> d_packet_num d' = d_packet_num d \<and>
      (write_blocked_list d' = [] \<or> wr_blocked L (dsp_world d'))) (blocked_loop L d)"
proof (induction "(if wr_blocked L (dsp_world d) then 0 else length (write_blocked_list d))" arbitrary: d rule: less_induct)
  case less
  show ?case
  proof (cases "write_blocked_list d")
    case Nil
    with less.prems show ?thesis by (subst blocked_loop.simps) simp
  next
    case (Cons b bs)
    show ?thesis
    proof (cases "wr_blocked L (dsp_world d)")
      case True
      with Cons less.prems show ?thesis by (subst blocked_loop.simps) simp
    next
      case False
      from blocked_writer_turn_ok [OF L less.prems Cons] show ?thesis
      proof (cases rule: returns_okE)
        case (abort e)
        with Cons False show ?thesis by (subst blocked_loop.simps) (simp add: Let_def)
      next
        case (result e)
        have "dsp_ok e" "(if wr_blocked L (dsp_world e) then 0 else length (write_blocked_list e)) < length (write_blocked_list d)"
          "supported_versions e = supported_versions d" "sessions e = sessions d" "d_packet_num e = d_packet_num d"
          using result(2) Cons by (auto simp: step_ok_def)
        with less.hyps [of e] False have "returns_ok (\<lambda>d'. dsp_ok d' \<and> supported_versions d' = supported_versions d \<and>
      sessions d' = sessions d \<and> d_packet_num d' = d_packet_num d \<and>
            (write_blocked_list d' = [] \<or> wr_blocked L (dsp_world d'))) (blocked_loop L e)" by simp
        with result Cons False show ?thesis by (subst blocked_loop.simps) (simp add: Let_def)
      qed
    qed
  qed
qed

lemma dsp_OnCanWrite_ok:
  assumes "dsp_lib_ok L" "dsp_ok d"
  shows "returns_ok (\<lambda>d'. dsp_ok d' \<and> supported_versions d' = supported_versions d \<and>
      sessions d' = sessions d \<and> d_packet_num d' = d_packet_num d \<and>
      (write_blocked_list d' = [] \<or> wr_blocked L (dsp_world d'))) (dsp_OnCanWrite L d)"
proof -
  let ?d = "set_dsp_world (qw_set_writable (tw_writer (dl_tw L)) (dsp_world d)) d"
  have "dsp_ok ?d" by (rule dsp_ok_frame [OF assms(2)]) (use dsp_okD(7) [OF assms(2)] in auto)
  from blocked_loop_ok [OF assms(1) this] show ?thesis by (simp add: dsp_OnCanWrite_def)
qed

section \<open>Deletion and shutdown\<close>

text \<open>What is deleted takes its streams along and leaves no alarm set.\<close>

lemma DeleteSessions_objects:
  assumes "objects_ok d"
  shows "objects_ok (DeleteSessions d)"
proof -
  let ?cl = "set (closed_session_list d)"
  let ?gone = "filter (\<lambda>al. alarm_session al \<in> Some ` ?cl) (remdups (map fst (alarm_log d)))"
  have "streams_ok (DeleteSessions d)"
    using assms by (auto simp: objects_ok_def streams_ok_def DeleteSessions_def split: if_splits)
  moreover have "owner_alive (DeleteSessions d) al" if "al \<in> arm {} (alarm_log (DeleteSessions d))" for al
  proof -
    from that have al: "al \<in> arm {} (alarm_log d)" "al \<notin> set ?gone" by (simp_all add: DeleteSessions_def arm_cancels)
    then have "alarm_session al \<notin> Some ` ?cl" using arm_subset [of "{}" "alarm_log d"] by auto
    moreover have "owner_alive d al" using al(1) assms by (simp add: objects_ok_def)
    ultimately show ?thesis by (cases al) (auto simp: DeleteSessions_def)
  qed
  ultimately show ?thesis by (simp add: objects_ok_def)
qed

lemma DeleteSessions_ok:
  assumes "dsp_ok d"
  shows "dsp_ok (DeleteSessions d)"
proof -
  note D = dsp_okD [OF assms]
  show ?thesis
  proof (rule dsp_okI, goal_cases)
    case 2 then show ?case using D(2) by (simp add: DeleteSessions_def)
  next
    case 3
    have "snd ` set (session_map d) \<inter> set (closed_session_list d) = {}" using D(2) by auto
    moreover have "dom (sessions (DeleteSessions d)) = dom (sessions d) - set (closed_session_list d)"
      by (auto simp: DeleteSessions_def split: if_splits)
    moreover have "session_map (DeleteSessions d) = session_map d" "closed_session_list (DeleteSessions d) = []"
      by (simp_all add: DeleteSessions_def)
    ultimately show ?case using D(3) by auto
  next
    case (4 a) then show ?case by (auto simp: DeleteSessions_def split: if_splits intro: D(4) domI)
  next
    case 8 then show ?case by (rule DeleteSessions_objects [OF D(8)])
  qed (use D in \<open>simp_all add: DeleteSessions_def\<close>)
qed

text \<open>
  What the DCHECK in \<open>Shutdown\<close> states: a connection told to close has removed its session from the map
  when \<open>SendConnectionClose\<close> returns.
\<close>

definition closes_itself :: "('ep, 't, 'd, 'v, 'x) dsp_lib \<Rightarrow> bool" where
  "closes_itself L \<longleftrightarrow> (\<forall>a d d'. dsp_ok d \<longrightarrow> a \<in> snd ` set (session_map d) \<longrightarrow>
     on_connection L a (conn_SendConnectionClose L a) d = Some (Inr d') \<longrightarrow> a \<notin> snd ` set (session_map d'))"

lemma shutdown_loop_ok:
  assumes L: "dsp_lib_ok L" and C: "closes_itself L"
  shows "dsp_ok d \<Longrightarrow> returns_ok (\<lambda>d'. step_ok L d d' \<and> session_map d' = []) (shutdown_loop L d)"
proof (induction "card (set (session_map d))" arbitrary: d rule: less_induct)
  case less
  show ?case
  proof (cases "session_map d")
    case Nil
    with less.prems show ?thesis by (subst shutdown_loop.simps) (simp add: step_ok_refl)
  next
    case (Cons e es)
    then obtain c a where e: "session_map d = (c, a) # es" by (cases e) auto
    then have a: "a \<in> snd ` set (session_map d)" by simp
    from on_connection_ok [OF L less.prems session_in_map_live [OF less.prems a] dsp_lib_okD(9) [OF L a]] show ?thesis
    proof (cases rule: returns_okE)
      case (abort x)
      with e show ?thesis by (subst shutdown_loop.simps) simp
    next
      case (result d')
      have "set (session_map d') \<subseteq> set (session_map d)" using result(2) by (simp add: step_ok_def)
      moreover have "a \<notin> snd ` set (session_map d')" using C result(1) less.prems a unfolding closes_itself_def by blast
      ultimately have "card (set (session_map d')) < card (set (session_map d))"
        using a by (intro psubset_card_mono) auto
      from less.hyps [OF this step_okD [OF result(2)]]
      have "returns_ok (\<lambda>d''. step_ok L d d'' \<and> session_map d'' = []) (shutdown_loop L d')"
        by (rule returns_ok_mono) (use step_ok_trans [OF result(2)] in blast)
      with result e show ?thesis by (subst shutdown_loop.simps) simp
    qed
  qed
qed

lemma dsp_Shutdown_ok:
  assumes "dsp_lib_ok L" "closes_itself L" "dsp_ok d"
  shows "returns_ok (\<lambda>d'. dsp_ok d' \<and> session_map d' = [] \<and> closed_session_list d' = [] \<and> sessions d' = Map.empty)
    (dsp_Shutdown L d)"
  unfolding dsp_Shutdown_def
proof (rule returns_ok_obind [OF shutdown_loop_ok [OF assms]], goal_cases)
  case (1 e)
  then have ok: "dsp_ok (DeleteSessions e)" using DeleteSessions_ok step_okD by blast
  have m: "session_map (DeleteSessions e) = []" "closed_session_list (DeleteSessions e) = []"
    using 1 by (simp_all add: DeleteSessions_def)
  with dsp_okD(3) [OF ok] have "sessions (DeleteSessions e) = Map.empty" by simp
  with ok m show ?case by simp
qed

section \<open>Events\<close>

text \<open>
  What reaches a dispatcher over its life: packets, the socket becoming writable, and every alarm that is
  set, be it of the dispatcher, the time-wait manager, a connection or a stream.
\<close>

datatype 'ep dsp_event =
    Ev_packet 'ep 'ep "byte list"
  | Ev_writable
  | Ev_alarm dsp_alarm

fun run_event ::
  "('ep, 't, 'd, 'v, 'x) dsp_lib \<Rightarrow> 'ep dsp_event \<Rightarrow>
   ('ep, 't, 'd, 'v, 'x) dsp \<Rightarrow> ('ep, 't, 'd, 'v, 'x) dsp outcome" where
  "run_event L (Ev_packet srv cli p) d = dsp_ProcessPacket L srv cli p d"
| "run_event L Ev_writable d = dsp_OnCanWrite L d"
| "run_event L (Ev_alarm al) d = (if al \<in> arm {} (alarm_log d) then dsp_Fire L al d else Some (Inr d))"

fun run_events ::
  "('ep, 't, 'd, 'v, 'x) dsp_lib \<Rightarrow> 'ep dsp_event list \<Rightarrow>
   ('ep, 't, 'd, 'v, 'x) dsp \<Rightarrow> ('ep, 't, 'd, 'v, 'x) dsp outcome" where
  "run_events L [] d = Some (Inr d)"
| "run_events L (e # es) d = obind (run_event L e d) (run_events L es)"

lemma CleanUpOldConnectionIds_map:
  fixes m :: "('ep, 't, 'd, 'v, 'x) tw"
  shows "\<exists>n. connection_id_map (CleanUpOldConnectionIds L m) = drop n (connection_id_map m)"
proof -
  have "connection_id_map (SetConnectionIdCleanUpAlarm L m) = connection_id_map m" for m :: "('ep, 't, 'd, 'v, 'x) tw"
    by (auto simp: SetConnectionIdCleanUpAlarm_def tw_alarm_def tw_now_def Let_def split_beta split: list.splits)
  then show ?thesis
    by (auto simp: CleanUpOldConnectionIds_def tw_now_def Let_def split_beta expire_loop_map dropWhile_eq_drop)
qed

lemma ConnectionIdCleanUpAlarm_OnAlarm_ok:
  assumes "dsp_ok d"
  shows "dsp_ok (ConnectionIdCleanUpAlarm_OnAlarm L d)"
proof -
  note D = dsp_okD [OF assms]
  obtain n where n: "connection_id_map (CleanUpOldConnectionIds (dl_tw L) (time_wait d)) =
      drop n (connection_id_map (time_wait d))" using CleanUpOldConnectionIds_map by blast
  show ?thesis unfolding ConnectionIdCleanUpAlarm_OnAlarm_def
  proof (rule dsp_ok_absorb [OF assms], unfold n)
    show "keys_distinct (drop n (connection_id_map (time_wait d)))"
      using D(5) by (simp add: keys_distinct_def distinct_drop flip: drop_map)
    show "map_of (drop n (connection_id_map (time_wait d))) c = None" if "map_of (session_map d) c \<noteq> None" for c
      using D(6) [OF that] set_drop_subset [of n "connection_id_map (time_wait d)"] by (auto simp: map_of_eq_None_iff)
  qed
qed

definition dsp_inv :: "('ep, 't, 'd, 'v, 'x) dsp \<Rightarrow> bool" where
  "dsp_inv d \<longleftrightarrow> dsp_ok d \<and> supported_versions d \<noteq> [] \<and> counts_ok d"

text \<open>An alarm whose owner exists fires.\<close>

lemma stream_fires_ok:
  assumes L: "dsp_lib_ok L" and ok: "dsp_ok d" and st: "streams d (a, sid) \<noteq> None"
  shows "returns_ok (step_ok L d) (dsp_Fire L (Stream_alarm a sid) d)"
proof -
  obtain st where st: "streams d (a, sid) = Some st" using st by blast
  have o: "objects_ok d" by (rule dsp_okD(8) [OF ok])
  then obtain ses where ses: "sessions d a = Some ses" "stream_ok (ses_packet_num ses) st"
    using st by (auto simp: objects_ok_def elim: streams_okE)
  obtain t st' x where r: "stream_OnAlarm (dl_tw L) st (dsp_world d) = (t, st', x)" by (metis surj_pair)
  have x: "wr_blocked L x = wr_blocked L (dsp_world d)"
    using stream_OnAlarm_world [of "dl_tw L" st "dsp_world d"] dsp_lib_okD(4) [OF L] r by simp
  have "stream_ok (ses_packet_num ses) st'" using stream_ok_alarm [OF ses(2), of "dl_tw L" "dsp_world d"] r by simp
  let ?d = "(set_dsp_world x d)\<lparr>streams := (streams d)((a, sid) \<mapsto> st'), alarm_log := alarm_log d @ [(Stream_alarm a sid, Alarm_Set t)]\<rparr>"
  have "streams_ok ?d" by (rule streams_ok_update [OF _ _ _ ses(1) \<open>stream_ok _ st'\<close>]) (use o in \<open>simp_all add: objects_ok_def\<close>)
  moreover have "owner_alive ?d al" if "owner_alive d al" for al using that by (cases al) auto
  ultimately have "objects_ok ?d" by (intro objects_ok_log [OF o, of ?d "[(Stream_alarm a sid, Alarm_Set t)]"]) simp_all
  then have "dsp_ok ?d" by (rule dsp_ok_objects [OF ok]) simp_all
  then show ?thesis using st r x by (simp add: step_ok_def)
qed

lemma step_inv: "dsp_inv d \<Longrightarrow> step_ok L d d' \<Longrightarrow> dsp_inv d'"
  by (simp add: dsp_inv_def step_ok_def counts_ok_def)

lemma dsp_Fire_ok:
  assumes L: "dsp_lib_ok L" and d: "dsp_inv d" and al: "owner_alive d al"
  shows "returns_ok dsp_inv (dsp_Fire L al d)"
proof -
  have D: "dsp_ok d" "supported_versions d \<noteq> []" "counts_ok d" using d by (simp_all add: dsp_inv_def)
  show ?thesis
  proof (cases al)
    case Delete_sessions_alarm
    with D DeleteSessions_ok show ?thesis by (auto simp: DeleteSessionsAlarm_OnAlarm_def dsp_inv_def DeleteSessions_def counts_ok_def)
  next
    case Connection_id_clean_up_alarm
    with D ConnectionIdCleanUpAlarm_OnAlarm_ok show ?thesis
      by (simp add: dsp_inv_def) (simp add: ConnectionIdCleanUpAlarm_OnAlarm_def absorb_tw_frame counts_ok_def)
  next
    case (Connection_alarm a k)
    with al have a: "sessions d a \<noteq> None" by simp
    from on_connection_ok [OF L D(1) a dsp_lib_okD(10) [OF L a, of k]] have "returns_ok dsp_inv (on_connection L a (conn_alarm_Fire L a k) d)"
      by (rule returns_ok_mono) (rule step_inv [OF d])
    with Connection_alarm show ?thesis by simp
  next
    case (Stream_alarm a sid)
    with al have "streams d (a, sid) \<noteq> None" by simp
    from stream_fires_ok [OF L D(1) this] have "returns_ok dsp_inv (dsp_Fire L (Stream_alarm a sid) d)"
      by (rule returns_ok_mono) (rule step_inv [OF d])
    with Stream_alarm show ?thesis by simp
  qed
qed

lemma run_event_ok:
  assumes L: "dsp_lib_ok L" and d: "dsp_inv d"
  shows "returns_ok dsp_inv (run_event L e d)"
proof -
  have D: "dsp_ok d" "supported_versions d \<noteq> []" "counts_ok d" using d by (simp_all add: dsp_inv_def)
  show ?thesis
  proof (cases e)
    case (Ev_packet srv cli p)
    have "returns_ok dsp_inv (dsp_ProcessPacket L srv cli p d)"
      using dsp_ProcessPacket_ok [OF L D] by (rule returns_ok_mono) (simp add: packet_ok_def dsp_inv_def)
    with Ev_packet show ?thesis by simp
  next
    case Ev_writable
    have "returns_ok dsp_inv (dsp_OnCanWrite L d)"
      using dsp_OnCanWrite_ok [OF L D(1)] by (rule returns_ok_mono) (use D(2,3) in \<open>simp add: dsp_inv_def counts_ok_def\<close>)
    with Ev_writable show ?thesis by simp
  next
    case (Ev_alarm al)
    have "owner_alive d al" if "al \<in> arm {} (alarm_log d)" using that dsp_okD(8) [OF D(1)] by (simp add: objects_ok_def)
    with Ev_alarm d dsp_Fire_ok [OF L d, of al] show ?thesis by simp
  qed
qed

lemma run_events_ok:
  assumes "dsp_lib_ok L"
  shows "dsp_inv d \<Longrightarrow> returns_ok dsp_inv (run_events L es d)"
  by (induction es arbitrary: d) (auto intro: returns_ok_obind [OF run_event_ok [OF assms]])

lemma QuicDispatcher_new_inv: "vs \<noteq> [] \<Longrightarrow> dsp_inv (QuicDispatcher_new L vs v ep n x)"
proof -
  let ?d = "QuicDispatcher_new L vs v ep n x"
  assume vs: "vs \<noteq> []"
  have "owner_alive ?d al" if "al \<in> arm {} (alarm_log ?d)" for al
  proof -
    from that have "al \<in> arm {} (map (Pair Connection_id_clean_up_alarm) (tw_alarm_calls (time_wait ?d)))"
      by (simp add: QuicDispatcher_new_def Let_def)
    with arm_tagged have "al = Connection_id_clean_up_alarm" by fastforce
    then show ?thesis by simp
  qed
  moreover have "streams_ok ?d" by (simp add: streams_ok_def QuicDispatcher_new_def Let_def)
  ultimately have "objects_ok ?d" by (simp add: objects_ok_def)
  with vs show ?thesis
    by (simp add: dsp_inv_def dsp_ok_def) (simp add: counts_ok_def QuicDispatcher_new_def QuicTimeWaitListManager_new_def
      SetConnectionIdCleanUpAlarm_def tw_alarm_def tw_now_def Let_def split_beta)
qed

end
