(* ===== verification/Dispatcher_World.thy ===== *)
theory Dispatcher_World
  imports Dispatcher_Correct
begin

text \<open>
  How the dispatcher moves the world: only through the packet writer, the clock, the release of close
  packets and the connections' own steps. Whatever preorder these respect, every operation respects; with
  "no more packets are waiting on the socket" for the preorder this bounds the server's read loop. The
  time-wait period is fixed when the manager is made, and the packet count when the dispatcher is; the
  log of alarm calls only grows.
\<close>

definition clock_order :: "('ep, 't, 'd, 'x) tw_lib \<Rightarrow> ('x \<Rightarrow> 'x \<Rightarrow> bool) \<Rightarrow> bool" where
  "clock_order T R \<longleftrightarrow> reflp R \<and> transp R \<and> (\<forall>x. R x (snd (ApproximateNow T x)))"

lemma clock_orderD:
  assumes "clock_order T R"
  shows "R x x" "R x y \<Longrightarrow> R y z \<Longrightarrow> R x z" "R x (snd (ApproximateNow T x))"
  using assms unfolding clock_order_def by (blast intro: reflpD dest: transpD)+

definition world_order :: "('ep, 't, 'd, 'v, 'x) dsp_lib \<Rightarrow> ('x \<Rightarrow> 'x \<Rightarrow> bool) \<Rightarrow> bool" where
  "world_order L R \<longleftrightarrow>
     clock_order (dl_tw L) R \<and>
     (\<forall>a x. R x (snd (ReleaseConnectionClosePacket L a x))) \<and>
     (\<forall>buf self peer x r x'. qw_write (tw_writer (dl_tw L)) buf self peer x = Inr (r, x') \<longrightarrow> R x x') \<and>
     (\<forall>a i x. R x (conn_step L a i x))"

lemma world_orderD:
  assumes "world_order L R"
  shows "clock_order (dl_tw L) R" "R x x" "R x y \<Longrightarrow> R y z \<Longrightarrow> R x z" "R x (snd (ApproximateNow (dl_tw L) x))"
    "R x (snd (ReleaseConnectionClosePacket L a x))"
    "qw_write (tw_writer (dl_tw L)) buf self peer x = Inr (r, x') \<Longrightarrow> R x x'"
    "R x (conn_step L a i x)"
  using assms unfolding world_order_def by (blast dest: clock_orderD)+

definition tw_moved :: "('x \<Rightarrow> 'x \<Rightarrow> bool) \<Rightarrow> ('ep, 't, 'd, 'v, 'x) tw \<Rightarrow> ('ep, 't, 'd, 'v, 'x) tw \<Rightarrow> bool" where
  "tw_moved R m m' \<longleftrightarrow> R (tw_world m) (tw_world m') \<and> time_wait_period m' = time_wait_period m"

definition moved :: "('x \<Rightarrow> 'x \<Rightarrow> bool) \<Rightarrow> ('ep, 't, 'd, 'v, 'x) dsp \<Rightarrow> ('ep, 't, 'd, 'v, 'x) dsp \<Rightarrow> bool" where
  "moved R d d' \<longleftrightarrow> tw_moved R (time_wait d) (time_wait d') \<and> d_packet_num d' = d_packet_num d \<and>
     (\<exists>cs. alarm_log d' = alarm_log d @ cs)"

lemma tw_moved_refl: "world_order L R \<Longrightarrow> tw_moved R m m"
  by (simp add: tw_moved_def world_orderD(2))

lemma tw_moved_trans: "world_order L R \<Longrightarrow> tw_moved R m n \<Longrightarrow> tw_moved R n k \<Longrightarrow> tw_moved R m k"
  using world_orderD(3) by (fastforce simp: tw_moved_def)

lemma moved_refl:
  "world_order L R \<Longrightarrow> time_wait d' = time_wait d \<Longrightarrow> d_packet_num d' = d_packet_num d \<Longrightarrow>
   alarm_log d' = alarm_log d \<Longrightarrow> moved R d d'"
  by (simp add: moved_def tw_moved_refl)

lemma moved_trans: "world_order L R \<Longrightarrow> moved R d e \<Longrightarrow> moved R e f \<Longrightarrow> moved R d f"
  using tw_moved_trans by (fastforce simp: moved_def)

lemma moved_frame:
  "moved R d e \<Longrightarrow> time_wait f = time_wait e \<Longrightarrow> d_packet_num f = d_packet_num e \<Longrightarrow>
   alarm_log f = alarm_log e @ cs \<Longrightarrow> moved R d f"
  by (auto simp: moved_def)

lemma moved_set_world: "R (dsp_world d) x \<Longrightarrow> moved R d (set_dsp_world x d)"
  by (simp add: moved_def tw_moved_def) (simp add: set_dsp_world_def dsp_world_def)

lemma WriteToWire_world:
  assumes "world_order L R" "WriteToWire (dl_tw L) p m = Inr (sent, m')"
  shows "tw_moved R m m'"
  using assms(2) world_orderD(2,6) [OF assms(1)]
  by (auto simp: WriteToWire_def tw_visit_log_def rbind_eq_Inr Let_def tw_moved_def split: if_splits)

lemma SendOrQueuePacket_world:
  assumes "world_order L R" "SendOrQueuePacket (dl_tw L) p m = Inr m'"
  shows "tw_moved R m m'"
  using assms(2) by (auto simp: SendOrQueuePacket_def rbind_eq_Inr tw_moved_def
      dest!: WriteToWire_world [OF assms(1)] split: if_splits)

lemma tw_ProcessPacket_world:
  assumes "world_order L R" "tw_ProcessPacket (dl_tw L) srv cli c n m = Inr m'"
  shows "tw_moved R m m'"
  using assms(2) world_orderD(2) [OF assms(1)]
  by (auto simp: tw_ProcessPacket_def SendPublicReset_def Let_def tw_moved_def split: option.splits if_splits
      dest!: SendOrQueuePacket_world [OF assms(1)])

lemma flush_queue_world:
  assumes "world_order L R"
  shows "flush_queue (dl_tw L) ps m = Inr m' \<Longrightarrow> tw_moved R m m'"
proof (induction ps arbitrary: m)
  case Nil
  then show ?case using tw_moved_refl [OF assms] by (auto simp: tw_moved_def)
next
  case (Cons p ps)
  then obtain sent n where n: "WriteToWire (dl_tw L) p m = Inr (sent, n)"
    "(if sent then flush_queue (dl_tw L) ps (n\<lparr>pending_packets_queue := ps\<rparr>) else Inr n) = Inr m'"
    by (auto simp: rbind_eq_Inr)
  have "tw_moved R n m'"
  proof (cases sent)
    case True
    with n(2) Cons.IH have "tw_moved R (n\<lparr>pending_packets_queue := ps\<rparr>) m'" by simp
    then show ?thesis by (simp add: tw_moved_def)
  qed (use n(2) tw_moved_refl [OF assms] in simp)
  from tw_moved_trans [OF assms WriteToWire_world [OF assms n(1)] this] show ?case .
qed

lemma trim_loop_period:
  assumes "trim_loop L m = Some m'"
  shows "time_wait_period m' = time_wait_period m \<and> tw_world m' = tw_world m"
proof (rule trim_loop.raw_induct [where P = "\<lambda>L m m'. time_wait_period m' = time_wait_period m \<and> tw_world m' = tw_world m",
      OF _ assms], goal_cases)
  case (1 f L m y)
  have "time_wait_period (snd (MaybeExpireOldestConnection L t m)) = time_wait_period m \<and>
      tw_world (snd (MaybeExpireOldestConnection L t m)) = tw_world m" for t
    by (auto simp: MaybeExpireOldestConnection_def tw_visit_log_def split: list.split)
  with 1 show ?case by (auto split: if_splits)
qed

lemma AddConnectionIdToTimeWait_moved:
  assumes "world_order L R" "AddConnectionIdToTimeWait (dl_tw L) c v p m = Some m'"
  shows "tw_moved R m m'"
  using assms(2) world_orderD(4) [OF assms(1), of "tw_world m"]
  by (auto simp: AddConnectionIdToTimeWait_def TrimTimeWaitListIfNeeded_def tw_now_def tw_visit_log_def Let_def
      bind_eq_Some_conv tw_moved_def split_beta split: option.splits if_splits dest!: trim_loop_period)

lemma dsp_add_to_time_wait_world:
  assumes "world_order L R" "dsp_add_to_time_wait L c v p d = Some (Inr d')"
  shows "moved R d d'"
  using assms(2) by (auto simp: dsp_add_to_time_wait_def bind_eq_Some_conv absorb_tw_frame moved_def
      dest!: AddConnectionIdToTimeWait_moved [OF assms(1)])

lemma CleanUpSession_world:
  assumes r: "world_order L R" and c: "CleanUpSession L c a d = Some (Inr d')"
  shows "moved R d d'"
proof -
  obtain cp y where rel: "ReleaseConnectionClosePacket L a (dsp_world d) = (cp, y)" by fastforce
  let ?d = "(set_dsp_world y d)\<lparr>write_blocked_list := filter (\<lambda>b. b \<noteq> Connection a) (write_blocked_list d)\<rparr>"
  from c rel obtain e where e: "dsp_add_to_time_wait L c (conn_version L a y) cp ?d = Some (Inr e)"
    "time_wait d' = time_wait e \<and> d_packet_num d' = d_packet_num e \<and> alarm_log d' = alarm_log e"
    by (auto simp: CleanUpSession_def Let_def obind_eq_Inr split: if_splits)
  have "moved R d ?d" using moved_set_world [of R d y] world_orderD(5) [OF r, of "dsp_world d" a] rel
    by (simp add: moved_def)
  from moved_trans [OF r this dsp_add_to_time_wait_world [OF r e(1)]] e(2) show ?thesis by (simp add: moved_def)
qed

lemma dsp_OnConnectionClosed_world:
  assumes r: "world_order L R" and c: "dsp_OnConnectionClosed L c d = Some (Inr d')"
  shows "moved R d d'"
proof (cases "map_of (session_map d) c")
  case None
  with c show ?thesis by (auto simp: dsp_OnConnectionClosed_def intro: moved_refl [OF r])
next
  case (Some a)
  obtain now x where now: "ApproximateNow (dl_tw L) (dsp_world d) = (now, x)" by fastforce
  from c Some now obtain e where e: "CleanUpSession L c a e = Some (Inr d')"
    "d_packet_num e = d_packet_num d" "time_wait e = time_wait d \<or> time_wait e = time_wait (set_dsp_world x d)"
    "\<exists>cs. alarm_log e = alarm_log d @ cs"
    by (auto simp: dsp_OnConnectionClosed_def Let_def split: if_splits)
  have "moved R d (set_dsp_world x d)"
    using moved_set_world [of R d x] world_orderD(4) [OF r, of "dsp_world d"] now by simp
  with e(2-4) tw_moved_refl [OF r] have "moved R d e" by (auto simp: moved_def)
  from moved_trans [OF r this CleanUpSession_world [OF r e(1)]] show ?thesis .
qed

lemma new_stream_world:
  assumes r: "world_order L R" and n: "new_stream L a sid n d = Inr d'"
  shows "moved R d d'"
proof -
  obtain ses where ses: "sessions d a = Some ses" using n by (auto simp: new_stream_def split: option.splits)
  obtain st x where st: "CreateIncomingDynamicStream (dl_tw L) (ses_packet_num ses) n (dsp_world d) = (st, x)" by fastforce
  have x: "x = snd (ApproximateNow (dl_tw L) (dsp_world d))"
    using new_stream_fields(5) [of "dl_tw L" "ses_packet_num ses" n "dsp_world d"] st by simp
  have "moved R d (set_dsp_world x d)" unfolding x by (rule moved_set_world) (rule world_orderD(4) [OF r])
  then show ?thesis by (rule moved_frame) (use n ses st in \<open>auto simp: new_stream_def\<close>)
qed

lemma run_conn_op_world:
  assumes "world_order L R" "run_conn_op L a op d = Some (Inr d')"
  shows "moved R d d'"
proof (cases op)
  case (Conn_closed c)
  with assms dsp_OnConnectionClosed_world show ?thesis by simp
next
  case Conn_write_blocked
  with assms(2) show ?thesis by (intro moved_refl [OF assms(1)]) (auto simp: dsp_OnWriteBlocked_def)
next
  case (Conn_write buf self peer)
  with assms(2) world_orderD(6) [OF assms(1)] show ?thesis by (auto simp: rbind_eq_Inr intro!: moved_set_world)
next
  case (Conn_step i)
  with assms(2) world_orderD(7) [OF assms(1)] show ?thesis by (auto intro!: moved_set_world)
next
  case (Conn_alarm k c)
  with assms(2) show ?thesis by (intro moved_frame [OF moved_refl [OF assms(1) refl refl refl]]) auto
next
  case (Conn_new_stream sid n)
  with assms show ?thesis by (auto intro: new_stream_world)
next
  case (Conn_stream_data sid len)
  with assms(2) show ?thesis by (intro moved_refl [OF assms(1)]) (auto simp: on_stream_def split: option.splits)
next
  case (Conn_stream_fin sid)
  with assms(2) show ?thesis by (intro moved_refl [OF assms(1)]) (auto simp: on_stream_def split: option.splits)
next
  case (Conn_delete_stream sid)
  with assms(2) show ?thesis
    by (auto simp: delete_stream_def rbind_eq_Inr split: option.splits intro!: moved_frame [OF moved_refl [OF assms(1) refl refl refl]])
qed

lemma run_conn_world:
  assumes "world_order L R"
  shows "run_conn (\<lambda>d op. run_conn_op L a op d) p d = Some (Inr d') \<Longrightarrow> moved R d d'"
proof (induction p arbitrary: d)
  case (Return r)
  then show ?case by (intro moved_refl [OF assms]) simp_all
next
  case (Perform op k)
  then obtain e where e: "run_conn_op L a op d = Some (Inr e)"
    "run_conn (\<lambda>d op. run_conn_op L a op d) (k e) e = Some (Inr d')" by (auto simp: obind_eq_Inr)
  from Perform.IH [OF rangeI e(2)] run_conn_op_world [OF assms e(1)] show ?case by (rule moved_trans [OF assms, rotated])
qed

lemma on_connection_world:
  "world_order L R \<Longrightarrow> on_connection L a p d = Some (Inr d') \<Longrightarrow> moved R d d'"
  by (auto simp: on_connection_def split: if_splits dest: run_conn_world)

lemma process_on_session_world:
  assumes "world_order L R" "process_on_session L a d = Some (Inr (b, d'))"
  shows "moved R d d'"
  using assms(2)
  by (auto simp: process_on_session_def obind_eq_Inr split: option.splits dest!: on_connection_world [OF assms(1)])

lemma HandlePacketForTimeWait_world:
  "HandlePacketForTimeWait h d = Inr (b, d') \<Longrightarrow> time_wait d' = time_wait d \<and> d_packet_num d' = d_packet_num d \<and> alarm_log d' = alarm_log d"
  by (auto simp: HandlePacketForTimeWait_def rbind_eq_Inr split: if_splits)

lemma AdditionalValidityChecksThenCreateSession_world:
  assumes "AdditionalValidityChecksThenCreateSession L h c d = Some (Inr (s, d'))"
  shows "time_wait d' = time_wait d \<and> d_packet_num d' = d_packet_num d \<and> alarm_log d' = alarm_log d"
  using assms by (auto simp: AdditionalValidityChecksThenCreateSession_def CreateQuicSession_simp Let_def)

lemma dsp_OnUnauthenticatedPublicHeader_world:
  assumes r: "world_order L R" and h: "dsp_OnUnauthenticatedPublicHeader L h d = Some (Inr (b, d'))"
  shows "moved R d d'"
  using h tw_moved_refl [OF r]
  by (auto simp: dsp_OnUnauthenticatedPublicHeader_def Let_def obind_eq_Inr moved_def
      split: if_splits option.splits list.splits
      dest!: HandlePacketForTimeWait_world AdditionalValidityChecksThenCreateSession_world
        process_on_session_world [OF r] dsp_add_to_time_wait_world [OF r])

lemma run_framer_call_world:
  assumes r: "world_order L R" and c: "run_framer_call L c d = Some (Inr (b, d'))"
  shows "moved R d d'"
proof (cases c)
  case (Fv_OnUnauthenticatedPublicHeader h)
  with c dsp_OnUnauthenticatedPublicHeader_world [OF r] show ?thesis by (fastforce simp: moved_def)
next
  case (Fv_OnUnauthenticatedHeader h n)
  with c show ?thesis
    by (auto simp: dsp_OnUnauthenticatedHeader_def obind_eq_Inr rbind_eq_Inr absorb_tw_frame moved_def
        split: option.splits dest!: tw_ProcessPacket_world [OF r])
qed (use c in \<open>auto intro: moved_refl [OF r]\<close>)

lemma run_framer_world:
  assumes r: "world_order L R"
  shows "run_framer L f d = Some (Inr d') \<Longrightarrow> moved R d d'"
proof (induction f arbitrary: d)
  case Fr_done
  then show ?case by (intro moved_refl [OF r]) simp_all
next
  case (Fr_call c k)
  then obtain b e where e: "run_framer_call L c d = Some (Inr (b, e))" "run_framer L (k b (framer_version e)) e = Some (Inr d')"
    by (auto simp: obind_eq_Inr)
  from Fr_call.IH [OF rangeI rangeI e(2)] run_framer_call_world [OF r e(1)] show ?case
    by (rule moved_trans [OF r, rotated])
qed

lemma dsp_ProcessPacket_world:
  assumes "world_order L R" "dsp_ProcessPacket L srv cli p d = Some (Inr d')"
  shows "moved R d d'"
  using run_framer_world [OF assms(1) assms(2) [unfolded dsp_ProcessPacket_def]] by (simp add: moved_def)

lemma blocked_loop_world:
  assumes r: "world_order L R" and b: "blocked_loop L d = Some r" and i: "r = Inr d'"
  shows "moved R d d'"
proof -
  let ?P = "\<lambda>L' d r. L' = L \<longrightarrow> (\<forall>d'. r = Inr d' \<longrightarrow> moved R d d')"
  have "?P L d r"
  proof (rule blocked_loop.raw_induct [where P = ?P, OF _ b], intro impI allI, goal_cases)
    case (1 f L' d y d')
    note IH = 1(1) [rule_format, OF _ 1(3)]
    show ?case
    proof (cases "write_blocked_list d = [] \<or> qw_blocked (tw_writer (dl_tw L')) (dsp_world d)")
      case True
      with 1(2,4) show ?thesis by (auto split: list.splits intro: moved_refl [OF r])
    next
      case False
      then obtain b bs where bs: "write_blocked_list d = b # bs" by (cases "write_blocked_list d") auto
      let ?d = "d\<lparr>write_blocked_list := bs\<rparr>"
      let ?turn = "case b of
           Time_wait_manager \<Rightarrow> Some (rbind (tw_OnCanWrite (dl_tw L') (time_wait ?d)) (\<lambda>m. Inr (absorb_tw L' m ?d)))
         | Connection a \<Rightarrow> on_connection L' a (conn_OnCanWrite L' a) ?d"
      have "Option.bind ?turn (\<lambda>r. case r of Inl e \<Rightarrow> Some (Inl e) | Inr d \<Rightarrow> f L' d) = Some (Inr d')"
        using 1(2,4) False bs by (simp add: Let_def)
      then have "obind ?turn (f L') = Some (Inr d')" by (simp only: obind_def)
      then obtain e where e: "?turn = Some (Inr e)" "f L' e = Some (Inr d')" unfolding obind_eq_Inr by blast
      have "moved R ?d e" using e(1) 1(3)
        by (auto simp: rbind_eq_Inr tw_OnCanWrite_def absorb_tw_frame moved_def split: blocked_writer.splits
            dest!: flush_queue_world [OF r] on_connection_world [OF r])
      then have "moved R d e" by (simp add: moved_def)
      from moved_trans [OF r this IH [OF e(2)]] show ?thesis by simp
    qed
  qed
  with i show ?thesis by simp
qed

lemma dsp_OnCanWrite_world:
  assumes "world_order L R" "\<And>x. R x (qw_set_writable (tw_writer (dl_tw L)) x)" "dsp_OnCanWrite L d = Some (Inr d')"
  shows "moved R d d'"
proof -
  have "moved R d (set_dsp_world (qw_set_writable (tw_writer (dl_tw L)) (dsp_world d)) d)"
    by (rule moved_set_world) (rule assms(2))
  from moved_trans [OF assms(1) this blocked_loop_world [OF assms(1) assms(3) [unfolded dsp_OnCanWrite_def] refl]]
  show ?thesis .
qed

lemma shutdown_loop_world:
  assumes r: "world_order L R" and b: "shutdown_loop L d = Some y" and i: "y = Inr d'"
  shows "moved R d d'"
proof -
  let ?P = "\<lambda>L' d y. L' = L \<longrightarrow> (\<forall>d'. y = Inr d' \<longrightarrow> moved R d d')"
  have "?P L d y"
  proof (rule shutdown_loop.raw_induct [where P = ?P, OF _ b], intro impI allI, goal_cases)
    case (1 f L' d y d')
    show ?case
    proof (cases "session_map d")
      case Nil
      with 1(2,4) show ?thesis by (auto intro: moved_refl [OF r])
    next
      case (Cons ca sm)
      let ?turn = "on_connection L' (snd ca) (conn_SendConnectionClose L' (snd ca)) d"
      have "obind ?turn (f L') = Some (Inr d')" using 1(2,4) Cons by (simp add: obind_def split_beta)
      then obtain e where e: "?turn = Some (Inr e)" "f L' e = Some (Inr d')" unfolding obind_eq_Inr by blast
      have "moved R e d'" using 1(1) e(2) 1(3) by blast
      with on_connection_world [OF r, of "snd ca"] e(1) 1(3) show ?thesis by (blast intro: moved_trans [OF r])
    qed
  qed
  with i show ?thesis by simp
qed

section \<open>Alarms\<close>

lemma expire_loop_frame:
  "tw_world (expire_loop L t m) = tw_world m \<and> time_wait_period (expire_loop L t m) = time_wait_period m \<and>
   tw_alarm_calls (expire_loop L t m) = tw_alarm_calls m"
proof (induction L t m rule: expire_loop.induct)
  case (1 L t m)
  then show ?case
    by (subst (1 2 3) expire_loop.simps)
      (auto simp: MaybeExpireOldestConnection_def tw_visit_log_def split: list.splits if_splits prod.splits bool.splits)
qed

lemma SetConnectionIdCleanUpAlarm_moved:
  assumes "clock_order T R"
  shows "tw_moved R m (SetConnectionIdCleanUpAlarm T m)"
proof -
  have "R (tw_world m) (snd (ApproximateNow T (tw_world m)))"
    "R (tw_world m) (snd (ApproximateNow T (snd (ApproximateNow T (tw_world m)))))"
    using clock_orderD(2,3) [OF assms] by blast+
  then show ?thesis
    by (auto simp: SetConnectionIdCleanUpAlarm_def tw_alarm_def tw_now_def Let_def tw_moved_def split_beta split: list.splits)
qed

lemma CleanUpOldConnectionIds_moved:
  assumes r: "clock_order T R"
  shows "tw_moved R m (CleanUpOldConnectionIds T m)"
proof -
  obtain t x where x: "ApproximateNow T (tw_world m) = (t, x)" by fastforce
  let ?e = "expire_loop T (t_minus T t (time_wait_period m)) (m\<lparr>tw_world := x\<rparr>)"
  have "tw_moved R m ?e" using clock_orderD(3) [OF r, of "tw_world m"] x by (simp add: tw_moved_def expire_loop_frame)
  with SetConnectionIdCleanUpAlarm_moved [OF r, of ?e] clock_orderD(2) [OF r] have "tw_moved R m (SetConnectionIdCleanUpAlarm T ?e)"
    by (fastforce simp: tw_moved_def)
  then show ?thesis using x by (simp add: CleanUpOldConnectionIds_def tw_now_def)
qed

lemma stream_OnAlarm_moved:
  "clock_order T R \<Longrightarrow> R x (snd (snd (stream_OnAlarm T st x)))"
  unfolding stream_OnAlarm_world by (blast dest: clock_orderD)

lemma dsp_Fire_world:
  assumes r: "world_order L R" and f: "dsp_Fire L al d = Some (Inr d')"
  shows "moved R d d'"
proof (cases al)
  case Connection_id_clean_up_alarm
  with f have "d' = absorb_tw L (CleanUpOldConnectionIds (dl_tw L) (time_wait d)) d"
    by (simp add: ConnectionIdCleanUpAlarm_OnAlarm_def)
  then show ?thesis using CleanUpOldConnectionIds_moved [OF world_orderD(1) [OF r], of "time_wait d"] by (simp add: moved_def absorb_tw_frame)
next
  case Delete_sessions_alarm
  with f show ?thesis
    by (intro moved_frame [OF moved_refl [OF r refl refl refl]]) (auto simp: DeleteSessionsAlarm_OnAlarm_def DeleteSessions_def)
next
  case (Connection_alarm a k)
  with f on_connection_world [OF r] show ?thesis by simp
next
  case (Stream_alarm a sid)
  obtain st where st: "streams d (a, sid) = Some st" using f Stream_alarm by (auto split: option.splits)
  obtain t st' x where o: "stream_OnAlarm (dl_tw L) st (dsp_world d) = (t, st', x)" by (metis surj_pair)
  have "R (dsp_world d) x" using stream_OnAlarm_moved [OF world_orderD(1) [OF r], of "dsp_world d" st] o by simp
  then have "moved R d (set_dsp_world x d)" by (rule moved_set_world)
  then show ?thesis by (rule moved_frame) (use f st o Stream_alarm in auto)
qed

text \<open>The calls a connection makes on alarms other than its own.\<close>

lemma CleanUpSession_log:
  assumes "CleanUpSession L c a d = Some (Inr d')"
  shows "alarm_log d' = alarm_log d"
  using assms
  by (auto simp: CleanUpSession_def Let_def obind_eq_Inr dsp_add_to_time_wait_def bind_eq_Some_conv absorb_tw_frame split_beta
      split: if_splits dest!: AddConnectionIdToTimeWait_alarm)

lemma dsp_OnConnectionClosed_log:
  assumes "dsp_OnConnectionClosed L c d = Some (Inr d')"
  shows "\<exists>cs. alarm_log d' = alarm_log d @ cs \<and>
    set cs \<subseteq> {(Delete_sessions_alarm, Alarm_Cancel),
      (Delete_sessions_alarm, Alarm_Set (fst (ApproximateNow (dl_tw L) (dsp_world d))))}"
proof (cases "map_of (session_map d) c")
  case None
  with assms show ?thesis by (simp add: dsp_OnConnectionClosed_def)
next
  case (Some a)
  with assms show ?thesis
    by (auto simp: dsp_OnConnectionClosed_def Let_def split_beta split: if_splits dest!: CleanUpSession_log)
qed

lemma new_stream_log:
  assumes "new_stream L a sid n d = Inr d'"
  shows "alarm_log d' = alarm_log d @ [(Stream_alarm a sid,
    Alarm_Set (t_add (dl_tw L) (fst (ApproximateNow (dl_tw L) (dsp_world d))) (d_from_seconds (dl_tw L) 1)))]"
proof -
  obtain ses where ses: "sessions d a = Some ses" using assms by (auto simp: new_stream_def split: option.splits)
  with assms new_stream_fields(4) [of "dl_tw L" "ses_packet_num ses" n "dsp_world d"] show ?thesis
    by (auto simp: new_stream_def Let_def split_beta)
qed

end
