(* ===== verification/Server_Correct.thy ===== *)
theory Server_Correct
  imports Server Dispatcher_World Alarm_Replay
begin

unbundle bit_operations_syntax

text \<open>
  The server's callbacks fulfil the contract of the event loop.

  \<open>server_inv\<close> is the invariant the callbacks rely on: there is a dispatcher, it is sound, and every alarm
  registered with the event loop is one its log leaves set, so its owner exists. It includes what is assumed
  of libquic and netdp (\<open>server_lib_ok\<close>): the laws of the dispatcher's library, QuicTime as a count of
  microseconds, a clock past its epoch, a socket with finitely many packets waiting, none of which are added
  by sending, and connections whose alarms do not go on for ever at one moment (\<open>conn_ranks\<close>).
\<close>

section \<open>Assumptions\<close>

definition time_ok :: "('t, 'd) quic_time \<Rightarrow> ('ep, 't, 'd, 'x) tw_lib \<Rightarrow> bool" where
  "time_ok Q T \<longleftrightarrow>
     (\<forall>n. us_of Q (qt_Add Q (qt_Zero Q) (qd_FromMicroseconds Q n)) = n) \<and>
     (\<forall>t d. us_of Q (t_add T t d) = us_of Q t + qd_ToMicroseconds Q d) \<and>
     (\<forall>t d. us_of Q (t_minus T t d) = us_of Q t - qd_ToMicroseconds Q d) \<and>
     (\<forall>a b. qd_ToMicroseconds Q (t_diff T a b) = us_of Q a - us_of Q b) \<and>
     (\<forall>a b. t_gt T a b \<longrightarrow> us_of Q b < us_of Q a) \<and>
     (\<forall>a b. d_lt T a b \<longleftrightarrow> qd_ToMicroseconds Q a < qd_ToMicroseconds Q b) \<and>
     qd_ToMicroseconds Q (d_zero T) = 0 \<and>
     0 < qd_ToMicroseconds Q (d_from_seconds T (FLAGS_quic_time_wait_list_seconds T)) \<and>
     0 < qd_ToMicroseconds Q (d_from_seconds T 1)"

lemma time_okD:
  assumes "time_ok Q T"
  shows "us_of Q (qt_Add Q (qt_Zero Q) (qd_FromMicroseconds Q n)) = n"
    "us_of Q (t_add T t d) = us_of Q t + qd_ToMicroseconds Q d"
    "us_of Q (t_minus T t d) = us_of Q t - qd_ToMicroseconds Q d"
    "qd_ToMicroseconds Q (t_diff T a b) = us_of Q a - us_of Q b"
    "t_gt T a b \<Longrightarrow> us_of Q b < us_of Q a"
    "d_lt T c c' \<longleftrightarrow> qd_ToMicroseconds Q c < qd_ToMicroseconds Q c'"
    "qd_ToMicroseconds Q (d_zero T) = 0"
    "0 < qd_ToMicroseconds Q (d_from_seconds T (FLAGS_quic_time_wait_list_seconds T))"
    "0 < qd_ToMicroseconds Q (d_from_seconds T 1)"
  using assms unfolding time_ok_def by blast+

text \<open>No packet is added to those waiting, and the time the event loop has recorded stays.\<close>

definition fewer_waiting :: "('w \<Rightarrow> nat) \<Rightarrow> 'p \<times> int \<times> 'w \<Rightarrow> 'p \<times> int \<times> 'w \<Rightarrow> bool" where
  "fewer_waiting backlog x y \<longleftrightarrow> backlog (snd (snd y)) \<le> backlog (snd (snd x)) \<and> fst (snd y) = fst (snd x)"

definition backlog_ok :: "('ep, 't, 'd, 'v, 'c, 'k, 'w) srv_lib \<Rightarrow> ('w \<Rightarrow> nat) \<Rightarrow> bool" where
  "backlog_ok P backlog \<longleftrightarrow>
     world_order (server_dsp_lib P) (fewer_waiting backlog) \<and>
     (\<forall>fd n w r w'. netdpsock_recvfrom (sv_net P) fd n w = (r, w') \<longrightarrow> 0 \<le> rr_bytes r \<longrightarrow> backlog w' < backlog w)"

text \<open>
  A connection's alarm that fires sets the connection's alarms for later, or for this very moment to go on
  with work of which less is left: the rank of an alarm is that work. What the work of other alarms gains
  stays below it. Reading the clock adds no work.
\<close>

abbreviation dsp_now :: "('ep, 't, 'd, 'v, 'w server_world) dsp \<Rightarrow> int" where
  "dsp_now d \<equiv> fst (snd (dsp_world d))"

abbreviation dsp_net :: "('ep, 't, 'd, 'v, 'w server_world) dsp \<Rightarrow> 'w" where
  "dsp_net d \<equiv> snd (snd (dsp_world d))"

definition conn_ranks :: "('ep, 't, 'd, 'v, 'c, 'k, 'w) srv_lib \<Rightarrow> ('w \<Rightarrow> nat \<Rightarrow> nat \<Rightarrow> nat) \<Rightarrow> bool" where
  "conn_ranks P rank \<longleftrightarrow>
     (\<forall>w a k. rank (snd (time_now (sv_epoll P) w)) a k \<le> rank w a k) \<and>
     (\<forall>a k d d'. on_connection (server_dsp_lib P) a (conn_alarm_Fire (sv_quic P) a k) d = Some (Inr d') \<longrightarrow>
        (\<forall>b j t. (Connection_alarm b j, Alarm_Set t) \<in> set (drop (length (alarm_log d)) (alarm_log d')) \<longrightarrow>
           dsp_now d < us_of (sv_time P) t \<or>
           us_of (sv_time P) t = dsp_now d \<and> rank (dsp_net d') b j < rank (dsp_net d) a k) \<and>
        (\<forall>b j. rank (dsp_net d') b j \<le> rank (dsp_net d) b j \<or> rank (dsp_net d') b j < rank (dsp_net d) a k))"

lemma conn_ranksD:
  assumes "conn_ranks P rank"
  shows "rank (snd (time_now (sv_epoll P) w)) a k \<le> rank w a k"
    "on_connection (server_dsp_lib P) a (conn_alarm_Fire (sv_quic P) a k) d = Some (Inr d') \<Longrightarrow>
     (Connection_alarm b j, Alarm_Set t) \<in> set (drop (length (alarm_log d)) (alarm_log d')) \<Longrightarrow>
     dsp_now d < us_of (sv_time P) t \<or> us_of (sv_time P) t = dsp_now d \<and> rank (dsp_net d') b j < rank (dsp_net d) a k"
    "on_connection (server_dsp_lib P) a (conn_alarm_Fire (sv_quic P) a k) d = Some (Inr d') \<Longrightarrow>
     rank (dsp_net d') b j \<le> rank (dsp_net d) b j \<or> rank (dsp_net d') b j < rank (dsp_net d) a k"
  using assms unfolding conn_ranks_def by blast+

definition server_lib_ok :: "('ep, 't, 'd, 'v, 'c, 'k, 'w) srv_lib \<Rightarrow> bool" where
  "server_lib_ok P \<longleftrightarrow>
     dsp_lib_ok (server_dsp_lib P) \<and> time_ok (sv_time P) (dl_tw (sv_quic P)) \<and>
     (\<forall>w. 0 < fst (time_now (sv_epoll P) w)) \<and> (\<exists>backlog. backlog_ok P backlog) \<and> (\<exists>rank. conn_ranks P rank)"

lemma server_lib_okD:
  assumes "server_lib_ok P"
  shows "dsp_lib_ok (server_dsp_lib P)" "time_ok (sv_time P) (dl_tw (sv_quic P))" "\<forall>w. 0 < fst (time_now (sv_epoll P) w)"
    "\<exists>backlog. backlog_ok P backlog" "\<exists>rank. conn_ranks P rank"
  using assms unfolding server_lib_ok_def by blast+

section \<open>The invariant\<close>

definition dsp_sound ::
  "('ep, 't, 'd, 'v, 'c, 'k, 'w) srv_lib \<Rightarrow> int \<Rightarrow> ('ep, 't, 'd, 'v, 'w server_world) dsp \<Rightarrow> bool" where
  "dsp_sound P n d \<longleftrightarrow>
     dsp_inv d \<and> d_packet_num d = n \<and>
     time_wait_period (time_wait d) =
       d_from_seconds (dl_tw (sv_quic P)) (FLAGS_quic_time_wait_list_seconds (dl_tw (sv_quic P)))"

definition has_dispatcher :: "('ep, 't, 'd, 'v, 'c, 'k, 'w) srv_lib \<Rightarrow> ('ep, 't, 'd, 'v, 'c, 'k, 'w) srv \<Rightarrow> bool" where
  "has_dispatcher P q \<longleftrightarrow> (\<exists>d. qs_dispatcher q = Some d \<and> dsp_sound P (qs_packet_num q) d)"

definition server_sound ::
  "('ep, 't, 'd, 'v, 'c, 'k, 'w) srv_lib \<Rightarrow> int \<Rightarrow> ('ep, 't, 'd, 'v, 'c, 'k, 'w) srv \<Rightarrow> bool" where
  "server_sound P n q \<longleftrightarrow> server_lib_ok P \<and> has_dispatcher P q \<and> qs_packet_num q = n"

definition alarms_owned :: "('ep, 't, 'd, 'v, 'c, 'k, 'w) srv_es \<Rightarrow> bool" where
  "alarms_owned s \<longleftrightarrow> all_alarms s \<subseteq> arm {} (server_log (env s))"

definition server_inv ::
  "('ep, 't, 'd, 'v, 'c, 'k, 'w) srv_lib \<Rightarrow> int \<Rightarrow> ('ep, 't, 'd, 'v, 'c, 'k, 'w) srv_es \<Rightarrow> bool" where
  "server_inv P n s \<longleftrightarrow> server_sound P n (env s) \<and> alarms_owned s"

lemma server_dsp_lib_fields [simp]:
  "d_from_seconds (dl_tw (server_dsp_lib P)) = d_from_seconds (dl_tw (sv_quic P))"
  "FLAGS_quic_time_wait_list_seconds (dl_tw (server_dsp_lib P)) = FLAGS_quic_time_wait_list_seconds (dl_tw (sv_quic P))"
  "tw_writer (dl_tw (server_dsp_lib P)) = default_writer (lift_sock (sv_net P)) (sv_ep P)"
  "ApproximateNow (dl_tw (server_dsp_lib P)) = clock_ApproximateNow (sv_time P) (sv_epoll P)"
  "t_add (dl_tw (server_dsp_lib P)) = t_add (dl_tw (sv_quic P))"
  "t_minus (dl_tw (server_dsp_lib P)) = t_minus (dl_tw (sv_quic P))"
  "t_diff (dl_tw (server_dsp_lib P)) = t_diff (dl_tw (sv_quic P))"
  "t_gt (dl_tw (server_dsp_lib P)) = t_gt (dl_tw (sv_quic P))"
  "d_lt (dl_tw (server_dsp_lib P)) = d_lt (dl_tw (sv_quic P))"
  "d_zero (dl_tw (server_dsp_lib P)) = d_zero (dl_tw (sv_quic P))"
  "conn_alarm_Fire (server_dsp_lib P) = conn_alarm_Fire (sv_quic P)"
  by (simp_all add: server_dsp_lib_def)

lemma owner_alive_set_world [simp]: "owner_alive (set_dsp_world x d) al = owner_alive d al"
  by (rule owner_alive_cong) simp_all

lemma dsp_inv_set_world [simp]: "dsp_inv (set_dsp_world x d) = dsp_inv d"
  by (simp add: dsp_inv_def dsp_ok_def counts_ok_def objects_ok_def streams_ok_def)

lemma dsp_sound_load: "dsp_sound P n d \<Longrightarrow> dsp_sound P n (load_dsp now q d)"
  by (simp add: dsp_sound_def load_dsp_def) (simp add: set_dsp_world_def)

lemma store_dsp_fields [simp]:
  "qs_dispatcher (store_dsp d q) = Some d" "qs_net (store_dsp d q) = snd (snd (dsp_world d))"
  "qs_fd (store_dsp d q) = qs_fd q" "qs_port (store_dsp d q) = qs_port q"
  "qs_packet_num (store_dsp d q) = qs_packet_num q" "server_log (store_dsp d q) = alarm_log d"
  by (simp_all add: store_dsp_def server_log_def)

lemma dsp_world_load [simp]: "snd (snd (dsp_world (load_dsp now q d))) = qs_net q"
  "fst (snd (dsp_world (load_dsp now q d))) = now" "alarm_log (load_dsp now q d) = alarm_log d"
  by (simp_all add: load_dsp_def)

section \<open>Operations on the dispatcher\<close>

text \<open>\<open>kept P backlog q q'\<close>: a call on the dispatcher leaves the rest of the server alone.\<close>

definition kept ::
  "('ep, 't, 'd, 'v, 'c, 'k, 'w) srv_lib \<Rightarrow> ('w \<Rightarrow> nat) \<Rightarrow> ('ep, 't, 'd, 'v, 'c, 'k, 'w) srv \<Rightarrow>
   ('ep, 't, 'd, 'v, 'c, 'k, 'w) srv \<Rightarrow> bool" where
  "kept P backlog q q' \<longleftrightarrow>
     has_dispatcher P q' \<and> qs_fd q' = qs_fd q \<and> qs_port q' = qs_port q \<and> qs_packet_num q' = qs_packet_num q \<and>
     backlog (qs_net q') \<le> backlog (qs_net q) \<and> (\<exists>cs. server_log q' = server_log q @ cs)"

lemma kept_trans: "kept P b q r \<Longrightarrow> kept P b r t \<Longrightarrow> kept P b q t"
  by (auto simp: kept_def)

lemma on_dispatcher_ok:
  assumes q: "has_dispatcher P q"
    and inv: "\<And>d. qs_dispatcher q = Some d \<Longrightarrow> dsp_inv (load_dsp now q d) \<Longrightarrow> returns_ok dsp_inv (f (load_dsp now q d))"
    and mv: "\<And>d d'. f d = Some (Inr d') \<Longrightarrow> moved (fewer_waiting backlog) d d'"
  shows "returns_ok (kept P backlog q) (on_dispatcher f now q)"
proof -
  obtain d where d: "qs_dispatcher q = Some d" "dsp_sound P (qs_packet_num q) d" using q by (auto simp: has_dispatcher_def)
  let ?d = "load_dsp now q d"
  have s: "dsp_sound P (qs_packet_num q) ?d" by (rule dsp_sound_load [OF d(2)])
  then have "dsp_inv ?d" by (simp add: dsp_sound_def)
  from returns_ok_conj [OF inv [OF d(1) this] mv]
  have "returns_ok (\<lambda>d'. dsp_inv d' \<and> moved (fewer_waiting backlog) ?d d') (f ?d)" .
  then have "returns_ok (kept P backlog q) (obind (f ?d) (\<lambda>d. Some (Inr (store_dsp d q))))"
  proof (rule returns_ok_obind)
    fix d' assume d': "dsp_inv d' \<and> moved (fewer_waiting backlog) ?d d'"
    then have "dsp_sound P (qs_packet_num q) d'" using s by (simp add: dsp_sound_def moved_def tw_moved_def)
    moreover have "backlog (snd (snd (dsp_world d'))) \<le> backlog (qs_net q)"
      using d' dsp_world_load(1) [of now q d] by (simp add: moved_def tw_moved_def fewer_waiting_def dsp_world_def)
    moreover have "\<exists>cs. alarm_log d' = server_log q @ cs" using d' d(1) by (simp add: moved_def server_log_def)
    ultimately show "returns_ok (kept P backlog q) (Some (Inr (store_dsp d' q)))"
      by (simp add: kept_def has_dispatcher_def)
  qed
  then show ?thesis by (simp add: on_dispatcher_def d(1))
qed

lemma backlog_okD:
  assumes "backlog_ok P backlog"
  shows "world_order (server_dsp_lib P) (fewer_waiting backlog)"
    "netdpsock_recvfrom (sv_net P) fd n w = (r, w') \<Longrightarrow> 0 \<le> rr_bytes r \<Longrightarrow> backlog w' < backlog w"
  using assms unfolding backlog_ok_def by blast+

lemma ProcessPacket_inv:
  "dsp_lib_ok L \<Longrightarrow> dsp_inv d \<Longrightarrow> returns_ok dsp_inv (dsp_ProcessPacket L srv cli p d)"
  using run_event_ok [of L d "Ev_packet srv cli p"] by simp

lemma OnCanWrite_inv: "dsp_lib_ok L \<Longrightarrow> dsp_inv d \<Longrightarrow> returns_ok dsp_inv (dsp_OnCanWrite L d)"
  using run_event_ok [of L d Ev_writable] by simp

lemma ReadAndDispatchSinglePacket_ok:
  assumes L: "dsp_lib_ok (server_dsp_lib P)" and b: "backlog_ok P backlog" and q: "has_dispatcher P q"
  shows "returns_ok (\<lambda>(read, q'). has_dispatcher P q' \<and> qs_fd q' = qs_fd q \<and> qs_port q' = qs_port q \<and>
      qs_packet_num q' = qs_packet_num q \<and> (\<exists>cs. server_log q' = server_log q @ cs) \<and>
      (read \<longrightarrow> backlog (qs_net q') < backlog (qs_net q)))
    (ReadAndDispatchSinglePacket P now fd port q)"
proof (cases "ReadPacket (sv_net P) (sv_ep P) fd (2 * kMaxPacketSize P) (IPEndPoint_default (sv_ep P)) (qs_net q)")
  case (Inl e)
  then have "benign e"
    by (auto simp: ReadPacket_def Let_def split: prod.splits if_splits option.splits)
  with Inl show ?thesis by (simp add: ReadAndDispatchSinglePacket_def)
next
  case (Inr z)
  obtain rp w where z: "z = (rp, w)" by (cases z)
  have h: "has_dispatcher P (put_net w q)" "server_log (put_net w q) = server_log q"
    using q by (simp_all add: has_dispatcher_def server_log_def)
  show ?thesis
  proof (cases "rp_result rp < 0")
    case True
    with Inr z h show ?thesis by (simp add: ReadAndDispatchSinglePacket_def kept_def)
  next
    case False
    obtain r where r: "netdpsock_recvfrom (sv_net P) fd (2 * kMaxPacketSize P) (qs_net q) = (r, w)" "0 \<le> rr_bytes r"
      using Inr z False by (auto simp: ReadPacket_def Let_def split: prod.splits if_splits option.splits)
    have less: "backlog w < backlog (qs_net q)" by (rule backlog_okD(2) [OF b r])
    let ?f = "dsp_ProcessPacket (server_dsp_lib P) (IPEndPoint_new (sv_ep P) [] (word_of_int port)) (rp_peer rp)
       (take (nat (rp_result rp)) (rp_data rp))"
    have "returns_ok (kept P backlog (put_net w q)) (on_dispatcher ?f now (put_net w q))"
      by (rule on_dispatcher_ok [OF h(1)]) (rule ProcessPacket_inv [OF L] dsp_ProcessPacket_world [OF backlog_okD(1) [OF b]], assumption)+
    then show ?thesis
      unfolding ReadAndDispatchSinglePacket_def Inr z
      by (cases rule: returns_okE) (use False less h(2) in \<open>auto simp: kept_def\<close>)
  qed
qed

lemma read_loop_ok:
  assumes L: "dsp_lib_ok (server_dsp_lib P)" and b: "backlog_ok P backlog"
  shows "has_dispatcher P q \<Longrightarrow> returns_ok (\<lambda>q'. has_dispatcher P q' \<and> qs_fd q' = qs_fd q \<and> qs_port q' = qs_port q \<and>
      qs_packet_num q' = qs_packet_num q \<and> (\<exists>cs. server_log q' = server_log q @ cs)) (read_loop P now q)"
proof (induction "backlog (qs_net q)" arbitrary: q rule: less_induct)
  case less
  from ReadAndDispatchSinglePacket_ok [OF L b less.prems, of now "qs_fd q" "qs_port q"] show ?case
  proof (cases rule: returns_okE)
    case (abort e)
    then show ?thesis by (subst read_loop.simps) simp
  next
    case (result y)
    obtain read q1 where y: "y = (read, q1)" by (cases y)
    show ?thesis
    proof (cases read)
      case False
      with result y show ?thesis by (subst read_loop.simps) simp
    next
      case True
      with result y less.hyps [of q1] have q1: "returns_ok (\<lambda>q'. has_dispatcher P q' \<and> qs_fd q' = qs_fd q \<and>
          qs_port q' = qs_port q \<and> qs_packet_num q' = qs_packet_num q \<and> (\<exists>cs. server_log q' = server_log q1 @ cs))
        (read_loop P now q1)" by simp
      have "returns_ok (\<lambda>q'. has_dispatcher P q' \<and> qs_fd q' = qs_fd q \<and>
          qs_port q' = qs_port q \<and> qs_packet_num q' = qs_packet_num q \<and> (\<exists>cs. server_log q' = server_log q @ cs))
        (read_loop P now q1)" by (rule returns_ok_mono [OF q1]) (use result(2) y in auto)
      with True result y show ?thesis by (subst read_loop.simps) simp
    qed
  qed
qed

lemma set_writable_waiting:
  "fewer_waiting backlog x (qw_set_writable (tw_writer (dl_tw (server_dsp_lib P))) x)"
  by (cases x) (simp add: fewer_waiting_def default_writer_def)

text \<open>The answer to a writable event: EPOLLOUT again exactly when something still waits for the socket.\<close>

lemma write_event_ok:
  assumes L: "dsp_lib_ok (server_dsp_lib P)" and b: "backlog_ok P backlog" and q: "has_dispatcher P q"
  shows "returns_ok (\<lambda>(out, q'). has_dispatcher P q' \<and> qs_fd q' = qs_fd q \<and> qs_packet_num q' = qs_packet_num q \<and>
      (\<exists>cs. server_log q' = server_log q @ cs) \<and>
      (out = EPOLLOUT \<longleftrightarrow> (\<exists>d. qs_dispatcher q' = Some d \<and> write_blocked_list d \<noteq> []))) (write_event P now q)"
proof -
  have "returns_ok (kept P backlog q) (on_dispatcher (dsp_OnCanWrite (server_dsp_lib P)) now q)"
    by (rule on_dispatcher_ok [OF q])
      (rule OnCanWrite_inv [OF L] dsp_OnCanWrite_world [OF backlog_okD(1) [OF b] set_writable_waiting], assumption)+
  then show ?thesis unfolding write_event_def
  proof (rule returns_ok_obind, goal_cases)
    case (1 q')
    then have k: "has_dispatcher P q'" "qs_fd q' = qs_fd q" "qs_packet_num q' = qs_packet_num q"
      "\<exists>cs. server_log q' = server_log q @ cs" unfolding kept_def by blast+
    then obtain d' where "qs_dispatcher q' = Some d'" unfolding has_dispatcher_def by blast
    with k show ?case by (simp add: HasPendingWrites_def EPOLLOUT_def)
  qed
qed

section \<open>Alarms\<close>

lemma update_server_ok:
  assumes "server_ok cur s"
  shows "case update_server P q s of Inl e \<Rightarrow> benign e
    | Inr s' \<Rightarrow> call_ok cur s s' \<and> env s' = q \<and>
        all_alarms s' = arm (all_alarms s) (drop (length (server_log (env s))) (server_log q))"
proof -
  note c = server_ok_env [OF assms, of q]
  then have "server_ok cur (s\<lparr>env := q\<rparr>)" by (simp add: call_ok_def)
  from replay_alarms_ok [OF this, where Q = "sv_time P" and cs = "drop (length (server_log (env s))) (server_log q)"]
  show ?thesis unfolding update_server_def [symmetric]
    by (cases "update_server P q s") (simp_all add: call_ok_trans [OF c])
qed

lemma env_update_server: "update_server P q s = Inr s' \<Longrightarrow> env s' = q"
  by (auto simp: update_server_def dest!: replay_alarms_env)

lemma alarms_owned_update:
  assumes "alarms_owned s" "server_log q = server_log (env s) @ cs" "env s' = q"
    "all_alarms s' \<subseteq> arm (all_alarms s) (drop (length (server_log (env s))) (server_log q))"
  shows "alarms_owned s'"
  using assms(4) arm_mono [OF assms(1) [unfolded alarms_owned_def], of cs] by (simp add: alarms_owned_def assms(2,3))

text \<open>
  The clean-up alarm is set for the future. With a recorded time every reading of the clock is that
  time, and the entries left on the list have not expired; without one every time is past the epoch.
\<close>

lemma clock_reading:
  assumes "time_ok Q T" "\<forall>w. 0 < fst (time_now N w)"
  obtains t w' where "clock_ApproximateNow Q N (p, now, w) = (t, p, now, w')"
    "now \<noteq> 0 \<Longrightarrow> us_of Q t = now" "now = 0 \<Longrightarrow> 0 < us_of Q t"
proof (cases "now = 0")
  case True
  obtain us w' where us: "time_now N w = (us, w')" by (cases "time_now N w")
  with assms(2) have "0 < us" by (metis fst_conv)
  with True us that [of "qt_Add Q (qt_Zero Q) (qd_FromMicroseconds Q us)" w'] time_okD(1) [OF assms(1)]
  show ?thesis by (simp add: clock_ApproximateNow_def)
next
  case False
  with that [of "qt_Add Q (qt_Zero Q) (qd_FromMicroseconds Q now)" w] time_okD(1) [OF assms(1)]
  show ?thesis by (simp add: clock_ApproximateNow_def)
qed

lemma clean_up_alarm_set:
  fixes P :: "('ep, 't, 'd, 'v, 'c, 'k, 'w) srv_lib" and m :: "('ep, 't, 'd, 'v, 'w server_world) tw"
  assumes T: "time_ok (sv_time P) (dl_tw (sv_quic P))" and N: "\<forall>w. 0 < fst (time_now (sv_epoll P) w)"
    and m: "0 < qd_ToMicroseconds (sv_time P) (time_wait_period m)" "fst (snd (tw_world m)) = now"
    and h: "\<And>c data rest. connection_id_map m = (c, data) # rest \<Longrightarrow> now \<noteq> 0 \<Longrightarrow>
      now - qd_ToMicroseconds (sv_time P) (time_wait_period m) < us_of (sv_time P) (cd_time_added data)"
  shows "\<exists>t. tw_alarm_calls (SetConnectionIdCleanUpAlarm (dl_tw (server_dsp_lib P)) m) =
      tw_alarm_calls m @ [Alarm_Cancel, Alarm_Set t] \<and> now < us_of (sv_time P) t"
proof -
  note D = time_okD [OF T]
  let ?clock = "clock_ApproximateNow (sv_time P) (sv_epoll P)"
  obtain p w where w: "tw_world m = (p, now, w)" using m(2) by (cases "tw_world m") auto
  obtain t1 w1 where t1: "?clock (p, now, w) = (t1, p, now, w1)"
    and r1: "now \<noteq> 0 \<Longrightarrow> us_of (sv_time P) t1 = now" "now = 0 \<Longrightarrow> 0 < us_of (sv_time P) t1"
    by (rule clock_reading [OF T N, of p now w]) blast
  obtain t2 w2 where t2: "?clock (p, now, w1) = (t2, p, now, w2)"
    and r2: "now \<noteq> 0 \<Longrightarrow> us_of (sv_time P) t2 = now" "now = 0 \<Longrightarrow> 0 < us_of (sv_time P) t2"
    by (rule clock_reading [OF T N, of p now w1]) blast
  show ?thesis
  proof (cases "connection_id_map m")
    case Nil
    with w t1 have "tw_alarm_calls (SetConnectionIdCleanUpAlarm (dl_tw (server_dsp_lib P)) m) =
        tw_alarm_calls m @ [Alarm_Cancel, Alarm_Set (t_add (dl_tw (sv_quic P)) t1 (time_wait_period m))]"
      by (simp add: SetConnectionIdCleanUpAlarm_def tw_alarm_def tw_now_def)
    moreover have "now < us_of (sv_time P) (t_add (dl_tw (sv_quic P)) t1 (time_wait_period m))"
      using r1 m(1) by (cases "now = 0") (simp_all add: D(2))
    ultimately show ?thesis by blast
  next
    case (Cons e rest)
    obtain c data where e: "e = (c, data)" by (cases e)
    note h' = h [OF Cons [unfolded e]]
    let ?T = "dl_tw (sv_quic P)" and ?old = "cd_time_added data" and ?per = "time_wait_period m"
    let ?d = "if d_lt ?T (t_diff ?T t1 ?old) ?per then t_diff ?T (t_add ?T ?old ?per) t1 else d_zero ?T"
    have "tw_alarm_calls (SetConnectionIdCleanUpAlarm (dl_tw (server_dsp_lib P)) m) =
        tw_alarm_calls m @ [Alarm_Cancel, Alarm_Set (t_add ?T t2 ?d)]"
      using w t1 t2 Cons e by (simp add: SetConnectionIdCleanUpAlarm_def tw_alarm_def tw_now_def)
    moreover have "now < us_of (sv_time P) (t_add ?T t2 ?d)"
      using r1 r2 h' m(1) by (cases "now = 0") (simp_all add: D)
    ultimately show ?thesis by blast
  qed
qed

lemma CleanUpOldConnectionIds_alarm:
  fixes P :: "('ep, 't, 'd, 'v, 'c, 'k, 'w) srv_lib" and m :: "('ep, 't, 'd, 'v, 'w server_world) tw"
  assumes T: "time_ok (sv_time P) (dl_tw (sv_quic P))" and N: "\<forall>w. 0 < fst (time_now (sv_epoll P) w)"
    and m: "0 < qd_ToMicroseconds (sv_time P) (time_wait_period m)" "fst (snd (tw_world m)) = now"
  shows "\<exists>t. tw_alarm_calls (CleanUpOldConnectionIds (dl_tw (server_dsp_lib P)) m) =
      tw_alarm_calls m @ [Alarm_Cancel, Alarm_Set t] \<and> now < us_of (sv_time P) t"
proof -
  note D = time_okD [OF T]
  let ?T = "dl_tw (server_dsp_lib P)"
  obtain p w where w: "tw_world m = (p, now, w)" using m(2) by (cases "tw_world m") auto
  obtain t1 w1 where t1: "clock_ApproximateNow (sv_time P) (sv_epoll P) (p, now, w) = (t1, p, now, w1)"
    and r1: "now \<noteq> 0 \<Longrightarrow> us_of (sv_time P) t1 = now"
    by (rule clock_reading [OF T N, of p now w]) blast
  let ?m = "m\<lparr>tw_world := (p, now, w1)\<rparr>" and ?t = "t_minus (dl_tw (sv_quic P)) t1 (time_wait_period m)"
  have "now - qd_ToMicroseconds (sv_time P) (time_wait_period m) < us_of (sv_time P) (cd_time_added data)"
    if "connection_id_map (expire_loop ?T ?t ?m) = (c, data) # rest" "now \<noteq> 0" for c data rest
  proof -
    have "t_gt (dl_tw (sv_quic P)) (cd_time_added data) ?t"
      using that(1) hd_dropWhile [of "\<lambda>e. \<not> t_gt (dl_tw (sv_quic P)) (cd_time_added (snd e)) ?t" "connection_id_map m"]
      by (simp add: expire_loop_map)
    then have "us_of (sv_time P) ?t < us_of (sv_time P) (cd_time_added data)" by (rule D(5))
    with r1 [OF that(2)] show ?thesis by (simp add: D(3))
  qed
  then have "\<exists>t. tw_alarm_calls (SetConnectionIdCleanUpAlarm ?T (expire_loop ?T ?t ?m)) =
      tw_alarm_calls (expire_loop ?T ?t ?m) @ [Alarm_Cancel, Alarm_Set t] \<and> now < us_of (sv_time P) t"
    by (intro clean_up_alarm_set [OF T N]) (use m(1) in \<open>auto simp: expire_loop_frame\<close>)
  moreover have "CleanUpOldConnectionIds ?T m = SetConnectionIdCleanUpAlarm ?T (expire_loop ?T ?t ?m)"
    using w t1 by (simp add: CleanUpOldConnectionIds_def tw_now_def)
  ultimately show ?thesis by (simp add: expire_loop_frame)
qed

text \<open>
  What the calls on alarms other than the connections' are for, while something is done on the dispatcher:
  the future, or for the deletion alarm this very moment.
\<close>

definition later_calls ::
  "('ep, 't, 'd, 'v, 'c, 'k, 'w) srv_lib \<Rightarrow> int \<Rightarrow> (dsp_alarm \<times> 't alarm_call) list \<Rightarrow> bool" where
  "later_calls P now cs \<longleftrightarrow> (\<forall>al t. (al, Alarm_Set t) \<in> set cs \<longrightarrow>
     (\<exists>a k. al = Connection_alarm a k) \<or> now < us_of (sv_time P) t \<or>
     al = Delete_sessions_alarm \<and> us_of (sv_time P) t = now)"

definition later ::
  "('ep, 't, 'd, 'v, 'c, 'k, 'w) srv_lib \<Rightarrow> ('ep, 't, 'd, 'v, 'w server_world) dsp \<Rightarrow>
   ('ep, 't, 'd, 'v, 'w server_world) dsp \<Rightarrow> bool" where
  "later P d d' \<longleftrightarrow> dsp_now d' = dsp_now d \<and> (\<exists>cs. alarm_log d' = alarm_log d @ cs \<and> later_calls P (dsp_now d) cs)"

lemma later_trans:
  assumes "later P d e" "later P e f"
  shows "later P d f"
proof -
  from assms obtain cs cs' where cs: "alarm_log e = alarm_log d @ cs" "later_calls P (dsp_now d) cs"
    "alarm_log f = alarm_log e @ cs'" "later_calls P (dsp_now d) cs'" "dsp_now f = dsp_now d" by (auto simp: later_def)
  then have "alarm_log f = alarm_log d @ cs @ cs'" "later_calls P (dsp_now d) (cs @ cs')" by (auto simp: later_calls_def)
  with cs(5) show ?thesis unfolding later_def by blast
qed

lemma later_same: "dsp_now d' = dsp_now d \<Longrightarrow> alarm_log d' = alarm_log d \<Longrightarrow> later P d d'"
  by (auto simp: later_def later_calls_def)

lemma clock_later:
  assumes P: "server_lib_ok P"
  shows "us_of (sv_time P) (fst (clock_ApproximateNow (sv_time P) (sv_epoll P) x)) \<ge> fst (snd x)"
proof -
  obtain p now w where x: "x = (p, now, w)" by (cases x)
  show ?thesis unfolding x
    by (rule clock_reading [OF server_lib_okD(2,3) [OF P], of p now w]) (cases "now = 0"; simp)
qed

lemma second_later:
  assumes P: "server_lib_ok P"
  shows "fst (snd x) < us_of (sv_time P) (t_add (dl_tw (sv_quic P))
    (fst (clock_ApproximateNow (sv_time P) (sv_epoll P) x)) (d_from_seconds (dl_tw (sv_quic P)) 1))"
  using clock_later [OF P, of x] time_okD(2,9) [OF server_lib_okD(2) [OF P]] by (simp add: add_strict_increasing2 add.commute)

lemma moved_now: "moved (fewer_waiting backlog) d d' \<Longrightarrow> dsp_now d' = dsp_now d"
  by (simp add: moved_def tw_moved_def fewer_waiting_def dsp_world_def)

lemma run_conn_op_later:
  assumes P: "server_lib_ok P" and b: "backlog_ok P backlog" and r: "run_conn_op (server_dsp_lib P) a op d = Some (Inr d')"
  shows "later P d d'"
proof -
  have now: "dsp_now d' = dsp_now d" by (rule moved_now [OF run_conn_op_world [OF backlog_okD(1) [OF b] r]])
  show ?thesis
  proof (cases op)
    case (Conn_closed c)
    with r dsp_OnConnectionClosed_log obtain cs where cs: "alarm_log d' = alarm_log d @ cs"
      "set cs \<subseteq> {(Delete_sessions_alarm, Alarm_Cancel),
        (Delete_sessions_alarm, Alarm_Set (fst (ApproximateNow (dl_tw (server_dsp_lib P)) (dsp_world d))))}" by fastforce
    then have "later_calls P (dsp_now d) cs" using clock_later [OF P, of "dsp_world d"] by (auto simp: later_calls_def)
    with now cs(1) show ?thesis by (auto simp: later_def)
  next
    case (Conn_new_stream sid n)
    with r have "new_stream (server_dsp_lib P) a sid n d = Inr d'" by simp
    from new_stream_log [OF this] now second_later [OF P, of "dsp_world d"] show ?thesis by (simp add: later_def later_calls_def)
  next
    case (Conn_alarm k c)
    with r now show ?thesis by (auto simp: later_def later_calls_def)
  next
    case (Conn_delete_stream sid)
    with r now show ?thesis
      by (auto simp: delete_stream_def QuicServerStream_delete_def rbind_eq_Inr later_def later_calls_def split: option.splits)
  qed (use r now in \<open>auto simp: rbind_eq_Inr on_stream_def split: option.splits intro!: later_same\<close>)
qed

lemma on_connection_later:
  assumes P: "server_lib_ok P" and r: "on_connection (server_dsp_lib P) a p d = Some (Inr d')"
  shows "later P d d'"
proof -
  obtain backlog where b: "backlog_ok P backlog" using server_lib_okD(4) [OF P] by blast
  have "run_conn (\<lambda>d op. run_conn_op (server_dsp_lib P) a op d) p d = Some (Inr d') \<Longrightarrow> later P d d'"
  proof (induction p arbitrary: d)
    case (Return x)
    then show ?case by (simp add: later_same)
  next
    case (Perform op k)
    then obtain e where e: "run_conn_op (server_dsp_lib P) a op d = Some (Inr e)"
      "run_conn (\<lambda>d op. run_conn_op (server_dsp_lib P) a op d) (k e) e = Some (Inr d')" by (auto simp: obind_eq_Inr)
    from Perform.IH [OF rangeI e(2)] run_conn_op_later [OF P b e(1)] show ?case by (rule later_trans [rotated])
  qed
  with r show ?thesis by (simp add: on_connection_def split: if_splits)
qed

section \<open>Alarms that fire\<close>

definition alarm_rank :: "('w \<Rightarrow> nat \<Rightarrow> nat \<Rightarrow> nat) \<Rightarrow> 'w \<Rightarrow> dsp_alarm \<Rightarrow> nat" where
  "alarm_rank rank w al = (case al of Connection_alarm a k \<Rightarrow> Suc (rank w a k) | _ \<Rightarrow> 0)"

definition server_rank :: "('w \<Rightarrow> nat \<Rightarrow> nat \<Rightarrow> nat) \<Rightarrow> ('ep, 't, 'd, 'v, 'c, 'k, 'w) srv \<Rightarrow> dsp_alarm \<Rightarrow> nat" where
  "server_rank rank q = alarm_rank rank (qs_net q)"

text \<open>\<open>fired P rank al d d'\<close>: what the firing of \<open>al\<close> may do to alarms and their ranks.\<close>

definition fired ::
  "('ep, 't, 'd, 'v, 'c, 'k, 'w) srv_lib \<Rightarrow> ('w \<Rightarrow> nat \<Rightarrow> nat \<Rightarrow> nat) \<Rightarrow> dsp_alarm \<Rightarrow>
   ('ep, 't, 'd, 'v, 'w server_world) dsp \<Rightarrow> ('ep, 't, 'd, 'v, 'w server_world) dsp \<Rightarrow> bool" where
  "fired P rank al d d' \<longleftrightarrow>
     (\<forall>al' t. (al', Alarm_Set t) \<in> set (drop (length (alarm_log d)) (alarm_log d')) \<longrightarrow>
        dsp_now d < us_of (sv_time P) t \<or>
        us_of (sv_time P) t = dsp_now d \<and> alarm_rank rank (dsp_net d') al' < alarm_rank rank (dsp_net d) al) \<and>
     (\<forall>al'. alarm_rank rank (dsp_net d') al' \<le> alarm_rank rank (dsp_net d) al' \<or>
        alarm_rank rank (dsp_net d') al' < alarm_rank rank (dsp_net d) al)"

lemma alarm_rank_mono: "(\<And>a k. rank w' a k \<le> rank w a k) \<Longrightarrow> alarm_rank rank w' al \<le> alarm_rank rank w al"
  by (simp add: alarm_rank_def split: dsp_alarm.split)

lemma clock_adds_no_work:
  assumes "conn_ranks P rank"
  shows "clock_order (dl_tw (server_dsp_lib P)) (\<lambda>x y. \<forall>a k. rank (snd (snd y)) a k \<le> rank (snd (snd x)) a k)"
  using conn_ranksD(1) [OF assms]
  by (auto simp: clock_order_def clock_ApproximateNow_def split_beta intro!: reflpI transpI) (meson order_trans)

lemma fired_clock:
  assumes "\<forall>a k. rank (dsp_net d') a k \<le> rank (dsp_net d) a k"
    "\<And>al' t. (al', Alarm_Set t) \<in> set (drop (length (alarm_log d)) (alarm_log d')) \<Longrightarrow> dsp_now d < us_of (sv_time P) t"
  shows "fired P rank al d d'"
  using assms by (auto simp: fired_def intro: alarm_rank_mono)

lemma clean_up_fired:
  fixes P :: "('ep, 't, 'd, 'v, 'c, 'k, 'w) srv_lib" and d :: "('ep, 't, 'd, 'v, 'w server_world) dsp"
  assumes P: "server_lib_ok P" and R: "conn_ranks P rank" and d: "dsp_sound P n d"
  shows "fired P rank al d (ConnectionIdCleanUpAlarm_OnAlarm (server_dsp_lib P) d)"
proof (rule fired_clock)
  let ?L = "server_dsp_lib P"
  let ?m = "CleanUpOldConnectionIds (dl_tw ?L) (time_wait d)"
  have p: "0 < qd_ToMicroseconds (sv_time P) (time_wait_period (time_wait d))" "fst (snd (tw_world (time_wait d))) = dsp_now d"
    using d time_okD(8) [OF server_lib_okD(2) [OF P]] by (simp_all add: dsp_sound_def dsp_world_def)
  obtain u where u: "tw_alarm_calls ?m = tw_alarm_calls (time_wait d) @ [Alarm_Cancel, Alarm_Set u]" "dsp_now d < us_of (sv_time P) u"
    using CleanUpOldConnectionIds_alarm [OF server_lib_okD(2,3) [OF P] p] by blast
  show "\<forall>a k. rank (dsp_net (ConnectionIdCleanUpAlarm_OnAlarm ?L d)) a k \<le> rank (dsp_net d) a k"
    using CleanUpOldConnectionIds_moved [OF clock_adds_no_work [OF R], of "time_wait d"]
    by (simp add: ConnectionIdCleanUpAlarm_OnAlarm_def absorb_tw_frame tw_moved_def) (simp add: dsp_world_def)
  show "dsp_now d < us_of (sv_time P) t"
    if "(al', Alarm_Set t) \<in> set (drop (length (alarm_log d)) (alarm_log (ConnectionIdCleanUpAlarm_OnAlarm ?L d)))" for al' t
    using that u by (auto simp: ConnectionIdCleanUpAlarm_OnAlarm_def absorb_tw_frame)
qed

lemma connection_fired:
  assumes P: "server_lib_ok P" and R: "conn_ranks P rank"
    and f: "on_connection (server_dsp_lib P) a (conn_alarm_Fire (sv_quic P) a k) d = Some (Inr d')"
  shows "fired P rank (Connection_alarm a k) d d'"
  unfolding fired_def
proof (intro conjI allI impI)
  obtain cs where cs: "alarm_log d' = alarm_log d @ cs" "later_calls P (dsp_now d) cs"
    using on_connection_later [OF P f] by (auto simp: later_def)
  fix al' t assume al': "(al', Alarm_Set t) \<in> set (drop (length (alarm_log d)) (alarm_log d'))"
  show "dsp_now d < us_of (sv_time P) t \<or> us_of (sv_time P) t = dsp_now d \<and>
      alarm_rank rank (dsp_net d') al' < alarm_rank rank (dsp_net d) (Connection_alarm a k)"
  proof (cases "\<exists>b j. al' = Connection_alarm b j")
    case True
    with conn_ranksD(2) [OF R f] al' show ?thesis by (fastforce simp: alarm_rank_def)
  next
    case False
    with al' cs show ?thesis by (cases al') (auto simp: later_calls_def alarm_rank_def)
  qed
next
  fix al'
  show "alarm_rank rank (dsp_net d') al' \<le> alarm_rank rank (dsp_net d) al' \<or>
      alarm_rank rank (dsp_net d') al' < alarm_rank rank (dsp_net d) (Connection_alarm a k)"
    using conn_ranksD(3) [OF R f] by (cases al') (auto simp: alarm_rank_def)
qed

lemma dsp_Fire_fired:
  fixes P :: "('ep, 't, 'd, 'v, 'c, 'k, 'w) srv_lib" and d :: "('ep, 't, 'd, 'v, 'w server_world) dsp"
  assumes P: "server_lib_ok P" and R: "conn_ranks P rank" and d: "dsp_sound P n d"
    and f: "dsp_Fire (server_dsp_lib P) al d = Some (Inr d')"
  shows "fired P rank al d d'"
proof (cases al)
  case Connection_id_clean_up_alarm
  with f clean_up_fired [OF P R d] show ?thesis by simp
next
  case Delete_sessions_alarm
  with f show ?thesis
    by (intro fired_clock) (auto simp: DeleteSessionsAlarm_OnAlarm_def DeleteSessions_def dsp_world_def)
next
  case (Connection_alarm a k)
  with f connection_fired [OF P R] show ?thesis by simp
next
  case (Stream_alarm a sid)
  let ?T = "dl_tw (server_dsp_lib P)"
  obtain st where st: "streams d (a, sid) = Some st" using f Stream_alarm by (auto split: option.splits)
  obtain t st' x where o: "stream_OnAlarm ?T st (dsp_world d) = (t, st', x)" by (metis surj_pair)
  obtain y :: "'w server_world" where y: "fst (snd y) = dsp_now d"
    "t = t_add (dl_tw (sv_quic P)) (fst (clock_ApproximateNow (sv_time P) (sv_epoll P) y)) (d_from_seconds (dl_tw (sv_quic P)) 1)"
    using o that [of "snd (clock_ApproximateNow (sv_time P) (sv_epoll P) (dsp_world d))"]
    by (auto simp: stream_OnAlarm_def clock_ApproximateNow_def Let_def split_beta split: if_splits)
  have d': "dsp_world d' = x" "alarm_log d' = alarm_log d @ [(Stream_alarm a sid, Alarm_Set t)]"
    using f Stream_alarm st o by auto
  show ?thesis
    by (rule fired_clock)
      (use d' stream_OnAlarm_moved [OF clock_adds_no_work [OF R], where x = "dsp_world d" and st = st] o second_later [OF P, of y] y in auto)
qed

section \<open>The callbacks\<close>

lemma server_OnEvent_server:
  assumes q: "server_sound P n (env s)"
  shows "returns_ok (\<lambda>(out, q). server_sound P n q \<and> qs_fd q = qs_fd (env s) \<and> (\<exists>cs. server_log q = server_log (env s) @ cs) \<and>
      (m AND EPOLLOUT \<noteq> 0 \<longrightarrow> (out = EPOLLOUT \<longleftrightarrow> (\<exists>d. qs_dispatcher q = Some d \<and> write_blocked_list d \<noteq> []))) \<and>
      (m AND EPOLLOUT = 0 \<longrightarrow> out = 0))
    (obind (if m AND EPOLLIN \<noteq> 0 then read_loop P now (env s) else Some (Inr (env s))) (\<lambda>q.
      if m AND EPOLLOUT \<noteq> 0 then write_event P now q else Some (Inr (0, q))))"
proof -
  have P: "server_lib_ok P" "has_dispatcher P (env s)" "qs_packet_num (env s) = n" using q by (simp_all add: server_sound_def)
  then obtain backlog where L: "dsp_lib_ok (server_dsp_lib P)" "backlog_ok P backlog" by (auto simp: server_lib_ok_def)
  have rd: "returns_ok (\<lambda>q. has_dispatcher P q \<and> qs_fd q = qs_fd (env s) \<and> qs_packet_num q = n \<and>
        (\<exists>cs. server_log q = server_log (env s) @ cs))
      (if m AND EPOLLIN \<noteq> 0 then read_loop P now (env s) else Some (Inr (env s)))"
    using read_loop_ok [OF L P(2), of now] P(2,3) by (auto elim: returns_ok_mono)
  show ?thesis
  proof (rule returns_ok_obind [OF rd], goal_cases)
    case (1 q)
    then obtain cs where h: "has_dispatcher P q" "qs_fd q = qs_fd (env s)" "qs_packet_num q = n" "server_log q = server_log (env s) @ cs"
      by blast
    show ?case
    proof (cases "m AND EPOLLOUT = 0")
      case True
      with h P(1) show ?thesis by (simp add: server_sound_def)
    next
      case False
      have "returns_ok (\<lambda>(out, q). server_sound P n q \<and> qs_fd q = qs_fd (env s) \<and> (\<exists>cs. server_log q = server_log (env s) @ cs) \<and>
          (out = EPOLLOUT \<longleftrightarrow> (\<exists>d. qs_dispatcher q = Some d \<and> write_blocked_list d \<noteq> []))) (write_event P now q)"
        by (rule returns_ok_mono [OF write_event_ok [OF L h(1), of now]]) (use h P(1) in \<open>auto simp: server_sound_def\<close>)
      with False show ?thesis by simp
    qed
  qed
qed

lemma server_OnEvent_eq:
  "server_OnEvent P c fd m s =
     obind (obind (if m AND EPOLLIN \<noteq> 0 then read_loop P (recorded_now_in_us s) (env s) else Some (Inr (env s))) (\<lambda>q.
              if m AND EPOLLOUT \<noteq> 0 then write_event P (recorded_now_in_us s) q else Some (Inr (0, q)))) (\<lambda>(out, q).
     Some (rbind (update_server P q s) (\<lambda>s. Inr (out, s))))"
  by (simp only: server_OnEvent_def Let_def obind_assoc)

text \<open>A sound server object replaces the one in the event loop.\<close>

lemma update_server_inv:
  assumes s: "server_ok cur s" "alarms_owned s" and q: "server_sound P n q" "server_log q = server_log (env s) @ cs"
  shows "case update_server P q s of Inl e \<Rightarrow> benign e | Inr s' \<Rightarrow> call_ok cur s s' \<and> env s' = q \<and> server_inv P n s'"
proof (cases "update_server P q s")
  case (Inr s')
  with update_server_ok [OF s(1), where P = P and q = q] have u: "call_ok cur s s'" "env s' = q"
    "all_alarms s' = arm (all_alarms s) (drop (length (server_log (env s))) (server_log q))" by simp_all
  have "alarms_owned s'" by (rule alarms_owned_update [OF s(2) q(2) u(2)]) (simp add: u(3))
  with Inr u q(1) show ?thesis by (simp add: server_inv_def)
qed (use update_server_ok [OF s(1), where P = P and q = q] in simp)

lemma server_OnEvent_ok:
  assumes s: "server_ok None s" and i: "server_inv P n s"
  shows "returns_ok (\<lambda>(out, s'). call_ok None s s' \<and> server_inv P n s' \<and> qs_fd (env s') = qs_fd (env s) \<and>
      (m AND EPOLLOUT \<noteq> 0 \<longrightarrow>
         (out = EPOLLOUT \<longleftrightarrow> (\<exists>d. qs_dispatcher (env s') = Some d \<and> write_blocked_list d \<noteq> []))) \<and>
      (m AND EPOLLOUT = 0 \<longrightarrow> out = 0)) (server_OnEvent P c fd m s)"
proof -
  have i: "server_sound P n (env s)" "alarms_owned s" using i by (simp_all add: server_inv_def)
  show ?thesis unfolding server_OnEvent_eq
  proof (rule returns_ok_obind [OF server_OnEvent_server [OF i(1)]], goal_cases)
    case (1 y)
    obtain out q where y: "y = (out, q)" by (cases y)
    from 1 obtain cs where q: "server_sound P n q" "server_log q = server_log (env s) @ cs" "qs_fd q = qs_fd (env s)"
      "m AND EPOLLOUT \<noteq> 0 \<longrightarrow> (out = EPOLLOUT \<longleftrightarrow> (\<exists>d. qs_dispatcher q = Some d \<and> write_blocked_list d \<noteq> []))"
      "m AND EPOLLOUT = 0 \<longrightarrow> out = 0" unfolding y prod.case by blast
    from update_server_inv [OF s i(2) q(1,2)] q(3-5) show ?case unfolding y by (cases "update_server P q s") simp_all
  qed
qed

lemma registered_alarm_alive:
  assumes s: "server_ok None s" "map_of (alarm_map s) k = Some (t, al)" and i: "server_inv P n s"
    and d: "qs_dispatcher (env s) = Some d"
  shows "owner_alive d al"
proof -
  have w: "alarm_ok None (alarm_map s) (all_alarms s) (alarm_objs s) (next_token s)"
    using s(1) by (simp add: server_ok_def alarm_wf_def)
  have "al \<in> all_alarms s" using alarm_okD(4) [OF w s(2)] by simp
  with i d have "al \<in> arm {} (alarm_log d)" by (auto simp: server_inv_def alarms_owned_def server_log_def)
  moreover have "dsp_ok d" using i d by (auto simp: server_inv_def server_sound_def has_dispatcher_def dsp_sound_def dsp_inv_def)
  ultimately show ?thesis using dsp_okD(8) by (auto simp: objects_ok_def)
qed

lemma told_fields: "env (told al s) = env s" "all_alarms (told al s) = all_alarms s - {al}" "recorded_now_in_us (told al s) = recorded_now_in_us s"
  "next_token (told al s) = next_token s"
  by (simp_all add: told_def EpollAlarm_OnAlarm_def upd_alarm_def)

lemma server_OnAlarm_eq:
  "server_OnAlarm P al (s\<lparr>all_alarms := all_alarms s - {al}\<rparr>) =
     obind (on_dispatcher (dsp_Fire (server_dsp_lib P) al) (recorded_now_in_us s) (env s)) (\<lambda>q.
     Some (rbind (update_server P q (told al s)) (\<lambda>s. Inr (0, s))))"
  by (simp add: server_OnAlarm_def Let_def split_beta told_fields flip: told_def)

lemma server_OnAlarm_ok:
  assumes s: "server_ok None s" "map_of (alarm_map s) k = Some (t, al)" and i: "server_inv P n s"
  shows "returns_ok (\<lambda>(t', s'). call_ok (Some k) (told al s) s' \<and> server_inv P n s' \<and> t' = 0)
    (server_OnAlarm P al (s\<lparr>all_alarms := all_alarms s - {al}\<rparr>))"
proof -
  let ?L = "server_dsp_lib P" and ?now = "recorded_now_in_us s"
  have q: "server_lib_ok P" "has_dispatcher P (env s)" "qs_packet_num (env s) = n"
    using i by (simp_all add: server_inv_def server_sound_def)
  obtain backlog where b: "backlog_ok P backlog" using server_lib_okD(4) [OF q(1)] by blast
  have "returns_ok (kept P backlog (env s)) (on_dispatcher (dsp_Fire ?L al) ?now (env s))"
  proof (rule on_dispatcher_ok [OF q(2)])
    fix d assume d: "qs_dispatcher (env s) = Some d" and inv: "dsp_inv (load_dsp ?now (env s) d)"
    have "owner_alive (load_dsp ?now (env s) d) al" using registered_alarm_alive [OF s i d] by (simp add: load_dsp_def)
    with dsp_Fire_ok [OF server_lib_okD(1) [OF q(1)] inv] show "returns_ok dsp_inv (dsp_Fire ?L al (load_dsp ?now (env s) d))" .
  next
    fix d d' assume "dsp_Fire ?L al d = Some (Inr d')"
    with dsp_Fire_world [OF backlog_okD(1) [OF b]] show "moved (fewer_waiting backlog) d d'" .
  qed
  then show ?thesis unfolding server_OnAlarm_eq
  proof (rule returns_ok_obind, goal_cases)
    case (1 q')
    then obtain cs where q': "server_sound P n q'" "server_log q' = server_log (env (told al s)) @ cs"
      using q by (auto simp: kept_def server_sound_def told_fields)
    have "alarms_owned (told al s)" using i by (auto simp: server_inv_def alarms_owned_def told_fields)
    from update_server_inv [OF told_ok [OF s] this q'] show ?case by (cases "update_server P q' (told al s)") simp_all
  qed
qed

lemma server_OnAlarm_lower:
  assumes i: "server_inv P n s" and R: "conn_ranks P rank"
    and r: "server_OnAlarm P al (s\<lparr>all_alarms := all_alarms s - {al}\<rparr>) = Some (Inr (t', s'))"
    and e: "e \<in> set (alarm_map s')" "alarm_time e \<le> recorded_now_in_us s"
  shows "lower_entry (server_rank rank) al s s' e"
proof -
  let ?L = "server_dsp_lib P" and ?now = "recorded_now_in_us s"
  obtain d where d: "server_lib_ok P" "qs_dispatcher (env s) = Some d" "dsp_sound P n d"
    using i by (auto simp: server_inv_def server_sound_def has_dispatcher_def)
  let ?d = "load_dsp ?now (env s) d"
  obtain d' where d': "dsp_Fire ?L al ?d = Some (Inr d')" "update_server P (store_dsp d' (env s)) (told al s) = Inr s'"
    using r by (auto simp: server_OnAlarm_eq on_dispatcher_def d(2) obind_eq_Inr rbind_eq_Inr)
  have F: "fired P rank al ?d d'" by (rule dsp_Fire_fired [OF d(1) R dsp_sound_load [OF d(3)] d'(1)])
  have k: "server_rank rank (env s') = alarm_rank rank (dsp_net d')" "server_rank rank (env s) = alarm_rank rank (dsp_net ?d)"
    using env_update_server [OF d'(2)] by (simp_all add: server_rank_def)
  have "server_log (env (told al s)) = alarm_log ?d" using d(2) by (simp add: server_log_def told_fields)
  with d'(2) have "replay_alarms (sv_time P) (drop (length (alarm_log ?d)) (alarm_log d'))
      ((told al s)\<lparr>env := store_dsp d' (env s)\<rparr>) = Inr s'" by (simp add: update_server_def)
  from replay_alarms_entries [OF this e(1)] F e(2) show ?thesis
    unfolding lower_entry_def k fired_def by (fastforce simp: told_frame(1) told_fields)
qed

interpretation srv: env_callbacks "\<lambda>s. server_inv P n s \<and> conn_ranks P rank" "server_OnEvent P" "server_OnAlarm P"
  "server_epoll P" "server_rank rank" for P n rank
proof (unfold_locales, goal_cases)
  case (1 s s')
  then show ?case by (auto simp: server_inv_def alarms_owned_def)
next
  case (2 s c fd m)
  then have "server_inv P n s" "conn_ranks P rank" by simp_all
  with returns_ok_mono [OF server_OnEvent_ok [OF 2(1) this(1), of m c fd]] show ?case by fastforce
next
  case (3 s k t al)
  then have "server_inv P n s" "conn_ranks P rank" by simp_all
  with returns_ok_mono [OF server_OnAlarm_ok [OF 3(1,3) this(1)]] show ?case by fastforce
next
  case (4 s fd m t)
  then show ?case using lift_epoll_world(1) [of qs_net put_net "sv_epoll P" fd m t "env s"]
    by (auto simp: server_epoll_def server_inv_def alarms_owned_def server_log_def server_sound_def has_dispatcher_def)
next
  case (5 s)
  then show ?case using lift_epoll_world(2) [of qs_net put_net "sv_epoll P" "env s"]
    by (auto simp: server_epoll_def server_inv_def alarms_owned_def server_log_def server_sound_def has_dispatcher_def)
next
  case (6 s k t al t' s' e)
  then show ?case using server_OnAlarm_lower [of P n s rank] by blast
qed

lemma server_round:
  assumes "quiescent s" "server_inv P n s"
  shows "returns_ok (\<lambda>s'. quiescent s' \<and> server_inv P n s') (server_WaitForEvents P s)"
proof -
  obtain rank where "conn_ranks P rank" using assms(2) server_lib_okD(5) by (auto simp: server_inv_def server_sound_def)
  with srv.env_round_ok [OF assms(1), of P n rank] assms(2) show ?thesis
    unfolding server_WaitForEvents_def by (auto elim: returns_ok_mono)
qed

end
