(* ===== verification/Dispatcher_Properties.thy ===== *)
theory Dispatcher_Properties
  imports Dispatcher_Correct
begin

text \<open>
  The properties of \<open>QuicDispatcher\<close>, and a small libquic to run it on: a framer that reads the connection
  id and the flags from the first bytes of the packet, connections that answer each packet, open a stream
  for the first one and finish it with the next, and close when told to or when their alarm fires.
\<close>

section \<open>A small libquic\<close>

fun sample_framer :: "byte list \<Rightarrow> nat \<Rightarrow> nat framer_run" where
  "sample_framer (c # f # ps) v =
     (let h = \<lparr>hdr_connection_id = ucast c, hdr_reset_flag = (f = 2), hdr_version_flag = (f = 1), hdr_versions = [v]\<rparr>
      in Fr_call Fv_OnPacket (\<lambda>_ _.
         Fr_call (Fv_OnUnauthenticatedPublicHeader h) (\<lambda>b v.
         if b then Fr_call (Fv_OnUnauthenticatedHeader h (length ps)) (\<lambda>_ _. Fr_done) else Fr_done)))"
| "sample_framer _ v = Fr_call Fv_OnPacket (\<lambda>_ _. Fr_call Fv_OnError (\<lambda>_ _. Fr_done))"

fun id_of_session :: "(QuicConnectionId \<times> nat) list \<Rightarrow> nat \<Rightarrow> QuicConnectionId option" where
  "id_of_session [] a = None"
| "id_of_session ((c, b) # sm) a = (if b = a then Some c else id_of_session sm a)"

definition sample_close :: "nat \<Rightarrow> (int, 't, 'd, 'v, 'x) conn_run" where
  "sample_close a = Perform (Conn_write [9] [] 0) (\<lambda>d.
     case id_of_session (session_map d) a of
       None \<Rightarrow> Return ()
     | Some c \<Rightarrow> Perform (Conn_closed c) (\<lambda>_. Return ()))"

definition sample_receive :: "nat \<Rightarrow> byte list \<Rightarrow> int \<Rightarrow> (int, int, 'd, 'v, 'x) conn_run" where
  "sample_receive a p cli = Perform (Conn_write p [] cli) (\<lambda>d.
     if streams d (a, 1) = None
     then Perform (Conn_new_stream 1 0) (\<lambda>_. Perform (Conn_alarm 0 Alarm_Cancel) (\<lambda>_.
          Perform (Conn_alarm 0 (Alarm_Set 2000000)) (\<lambda>_. Return ())))
     else Perform (Conn_stream_data 1 (word_of_nat (length p))) (\<lambda>d.
          if streams d (a, 1) = None then Return () else Perform (Conn_stream_fin 1) (\<lambda>_. Return ())))"

definition sample_dsp_lib :: "(int, int, int, nat, QuicDefaultPacketWriter \<times> unit) dsp_lib" where
  "sample_dsp_lib =
     \<lparr>dl_tw = sample_lib, ep_port = (\<lambda>e. nat e), framer_ProcessPacket = sample_framer,
      IsSupportedVersion = (\<lambda>v. v = 1), ReleaseConnectionClosePacket = (\<lambda>a x. (Some [7], x)),
      conn_version = (\<lambda>a x. 1), conn_step = (\<lambda>a i x. x), conn_ProcessUdpPacket = (\<lambda>a srv cli p. sample_receive a p cli),
      conn_OnCanWrite = (\<lambda>a. Return ()), conn_SendConnectionClose = sample_close, conn_alarm_Fire = (\<lambda>a k. sample_close a)\<rparr>"

lemma sample_framer_ok: "framer_ok (sample_framer p v) None"
  by (induction p v rule: sample_framer.induct) (auto simp: Let_def)

lemma sample_close_live: "live_client a (sample_close a) d"
  by (simp add: sample_close_def split: option.split)

lemma sample_receive_live: "live_client a (sample_receive a p cli) d"
  by (simp add: sample_receive_def)

lemma sample_lib_ok: "dsp_lib_ok sample_dsp_lib"
  using sample_lib_laws dw.packet_writer_axioms [of sample_sock sample_endpoint] sample_framer_ok
  by (simp add: dsp_lib_ok_def sample_dsp_lib_def sample_close_live sample_receive_live) (simp add: sample_lib_def)

definition sample_dsp :: "(int, int, int, nat, QuicDefaultPacketWriter \<times> unit) dsp" where
  "sample_dsp = QuicDispatcher_new sample_dsp_lib [1] 1 0 5 (QuicDefaultPacketWriter_new 3, ())"

lemma sample_dsp_inv: "dsp_inv sample_dsp"
  by (simp add: sample_dsp_def QuicDispatcher_new_inv)

lemma id_of_session_Some:
  "a \<in> snd ` set sm \<Longrightarrow> \<exists>c. id_of_session sm a = Some c \<and> (c, a) \<in> set sm"
  by (induction sm a rule: id_of_session.induct) auto

lemma closes_itself_sample:
  fixes L :: "(int, 't, 'd, 'v, 'x) dsp_lib"
  assumes L: "dsp_lib_ok L" and send: "conn_SendConnectionClose L = sample_close"
  shows "closes_itself L"
  unfolding closes_itself_def
proof (intro allI impI)
  fix a and d d' :: "(int, 't, 'd, 'v, 'x) dsp"
  assume ok: "dsp_ok d" and a: "a \<in> snd ` set (session_map d)"
    and r: "on_connection L a (conn_SendConnectionClose L a) d = Some (Inr d')"
  obtain c where c: "id_of_session (session_map d) a = Some c" "(c, a) \<in> set (session_map d)"
    using id_of_session_Some [OF a] by blast
  from r obtain x where x: "dsp_OnConnectionClosed L c (set_dsp_world x d) = Some (Inr d')"
    using c(1) unfolding send by (auto simp: on_connection_def sample_close_def obind_eq_Inr rbind_eq_Inr split: if_splits)
  have ok': "dsp_ok (set_dsp_world x d)" by (rule dsp_ok_frame [OF ok]) (use dsp_okD(7) [OF ok] in auto)
  have m: "map_of (session_map (set_dsp_world x d)) c = Some a"
    using c(2) dsp_okD(1) [OF ok] by (simp add: keys_distinct_def)
  from dsp_OnConnectionClosed_effect [OF L ok' m] x
  have "session_map d' = AList.delete c (session_map d)" by auto
  with delete_session_facts(1) [OF dsp_okD(1,2) [OF ok'] m]
  show "a \<notin> snd ` set (session_map d')" by simp
qed

lemma sample_closes_itself: "closes_itself sample_dsp_lib"
  by (rule closes_itself_sample [OF sample_lib_ok]) (simp add: sample_dsp_lib_def)

section \<open>Properties\<close>

lemma dsp_ok_facts:
  assumes "dsp_ok d"
  shows "distinct (map snd (session_map d) @ closed_session_list d)"
    "dom (sessions d) = snd ` set (session_map d) \<union> set (closed_session_list d)"
    "fst ` set (session_map d) \<inter> fst ` set (connection_id_map (time_wait d)) = {}"
    "{a. Connection a \<in> set (write_blocked_list d)} \<subseteq> snd ` set (session_map d)"
    "{a. \<exists>sid. streams d (a, sid) \<noteq> None} \<subseteq> dom (sessions d)" "\<forall>al \<in> arm {} (alarm_log d). owner_alive d al"
proof -
  note D = dsp_okD [OF assms]
  show "distinct (map snd (session_map d) @ closed_session_list d)"
    "dom (sessions d) = snd ` set (session_map d) \<union> set (closed_session_list d)" by (rule D(2), rule D(3))
  have "map_of (session_map d) c = None \<or> map_of (connection_id_map (time_wait d)) c = None" for c
    using D(6) [of c] by (cases "map_of (session_map d) c") simp_all
  then show "fst ` set (session_map d) \<inter> fst ` set (connection_id_map (time_wait d)) = {}"
    unfolding map_of_eq_None_iff by blast
  show "{a. Connection a \<in> set (write_blocked_list d)} \<subseteq> snd ` set (session_map d)" using D(7) by blast
  show "{a. \<exists>sid. streams d (a, sid) \<noteq> None} \<subseteq> dom (sessions d)" "\<forall>al \<in> arm {} (alarm_log d). owner_alive d al"
    using D(8) by (auto simp: objects_ok_def elim: streams_okE)
qed

lemma dsp_inv_streams:
  assumes "dsp_inv d" "st \<in> ran (streams d)"
  shows "stream_ok (d_packet_num d) st"
proof -
  obtain a sid where "streams d (a, sid) = Some st" using assms(2) by (auto simp: ran_def)
  moreover have "streams_ok d" using assms(1) dsp_okD(8) [of d] by (simp add: dsp_inv_def objects_ok_def)
  ultimately obtain ses where "sessions d a = Some ses" "stream_ok (ses_packet_num ses) st" by (blast elim: streams_okE)
  with assms(1) show ?thesis by (simp add: dsp_inv_def counts_ok_def)
qed

text \<open>
  C4: Over any history of packets, writable events and alarms, with connections that open, feed and delete
  streams, set alarms and close as they like, the dispatcher never uses a deleted session or stream and never
  gets stuck: every event returns, aborting at most on a failed CHECK. Afterwards each session object is
  in the session map or on the closed list but not both, nothing is leaked, no id is at once live and in
  time wait, every connection waiting for the socket belongs to a session in the map, every stream belongs
  to an existing session, and only alarms of existing objects are set.
\<close>

theorem dispatcher_events_safe:
  assumes "dsp_lib_ok L" "versions \<noteq> []"
  shows "returns_ok (\<lambda>d.
      distinct (map snd (session_map d) @ closed_session_list d) \<and>
      dom (sessions d) = snd ` set (session_map d) \<union> set (closed_session_list d) \<and>
      fst ` set (session_map d) \<inter> fst ` set (connection_id_map (time_wait d)) = {} \<and>
      {a. Connection a \<in> set (write_blocked_list d)} \<subseteq> snd ` set (session_map d) \<and>
      {a. \<exists>sid. streams d (a, sid) \<noteq> None} \<subseteq> dom (sessions d) \<and>
      (\<forall>al \<in> arm {} (alarm_log d). owner_alive d al))
    (run_events L es (QuicDispatcher_new L versions v ep packet_num x))"
  using run_events_ok [OF assms(1) QuicDispatcher_new_inv [OF assms(2)]]
proof (rule returns_ok_mono, goal_cases)
  case (1 d)
  then have "dsp_ok d" by (simp add: dsp_inv_def)
  from dsp_ok_facts [OF this] show ?case by (intro conjI)
qed

theorem dispatcher_events_safe_witness:
  "returns_ok (\<lambda>d.
      distinct (map snd (session_map d) @ closed_session_list d) \<and>
      dom (sessions d) = snd ` set (session_map d) \<union> set (closed_session_list d) \<and>
      fst ` set (session_map d) \<inter> fst ` set (connection_id_map (time_wait d)) = {} \<and>
      {a. Connection a \<in> set (write_blocked_list d)} \<subseteq> snd ` set (session_map d) \<and>
      {a. \<exists>sid. streams d (a, sid) \<noteq> None} \<subseteq> dom (sessions d) \<and>
      (\<forall>al \<in> arm {} (alarm_log d). owner_alive d al))
    (run_events sample_dsp_lib [Ev_packet 1 2 [4, 1, 0], Ev_alarm (Stream_alarm 0 1), Ev_packet 1 2 [4, 1, 0],
        Ev_alarm (Connection_alarm 0 0), Ev_packet 1 2 [4, 0], Ev_alarm Delete_sessions_alarm, Ev_writable,
        Ev_alarm Connection_id_clean_up_alarm]
      (QuicDispatcher_new sample_dsp_lib [1] 1 0 5 (QuicDefaultPacketWriter_new 3, ())))"
  by (rule dispatcher_events_safe [OF sample_lib_ok]) simp



text \<open>
  C17: Closing a connection moves its session from the map to the closed list, where it stays
  allocated until the deletion alarm, takes its connection off the write-blocked list, puts its id in
  time wait, and arms the deletion alarm exactly when the closed list was empty. A second report for the
  same id changes nothing.
\<close>

theorem connection_closed_effect:
  assumes "dsp_lib_ok L" "dsp_ok d" "map_of (session_map d) c = Some a"
  shows "\<exists>d'. dsp_OnConnectionClosed L c d = Some (Inr d') \<and> dsp_ok d' \<and> sessions d' = sessions d \<and>
    session_map d' = AList.delete c (session_map d) \<and> closed_session_list d' = closed_session_list d @ [a] \<and>
    IsConnectionIdInTimeWait c (time_wait d') \<and> Connection a \<notin> set (write_blocked_list d') \<and>
    alarm_log d' = alarm_log d @
      (if closed_session_list d = []
       then [(Delete_sessions_alarm, Alarm_Cancel),
             (Delete_sessions_alarm, Alarm_Set (fst (ApproximateNow (dl_tw L) (dsp_world d))))] else []) \<and>
    dsp_OnConnectionClosed L c d' = Some (Inr d')"
proof -
  from dsp_OnConnectionClosed_effect [OF assms]
  obtain d' where "dsp_OnConnectionClosed L c d = Some (Inr d')" "step_ok L d d'"
    "session_map d' = AList.delete c (session_map d)" "closed_session_list d' = closed_session_list d @ [a]"
    "IsConnectionIdInTimeWait c (time_wait d')" "Connection a \<notin> set (write_blocked_list d')"
    "alarm_log d' = alarm_log d @
      (if closed_session_list d = []
       then [(Delete_sessions_alarm, Alarm_Cancel),
             (Delete_sessions_alarm, Alarm_Set (fst (ApproximateNow (dl_tw L) (dsp_world d))))] else [])" by blast
  moreover from this(3) have "dsp_OnConnectionClosed L c d' = Some (Inr d')" by (simp add: dsp_OnConnectionClosed_def)
  ultimately show ?thesis unfolding step_ok_def by blast
qed

definition live_dsp :: "(int, int, int, nat, QuicDefaultPacketWriter \<times> unit) dsp" where
  "live_dsp = sample_dsp\<lparr>session_map := [(4, 0)], sessions := [0 \<mapsto> \<lparr>ses_connection_id = 4, ses_packet_num = 5, ses_crypto_stream = True\<rparr>],
     streams := [(0, 1) \<mapsto> fst (CreateIncomingDynamicStream sample_lib 5 0 (dsp_world sample_dsp))],
     alarm_log := alarm_log sample_dsp @ [(Stream_alarm 0 1, Alarm_Set 2000000)],
     next_session := 1, write_blocked_list := [Connection 0, Time_wait_manager]\<rparr>"

lemma live_dsp_ok: "dsp_ok live_dsp"
proof -
  have "arm {} (alarm_log live_dsp) \<subseteq> {Connection_id_clean_up_alarm, Stream_alarm 0 1}"
    using arm_tagged [of "{}" Connection_id_clean_up_alarm "tw_alarm_calls (time_wait sample_dsp)"]
    by (auto simp: live_dsp_def sample_dsp_def QuicDispatcher_new_def Let_def)
  then have "objects_ok live_dsp"
    by (auto simp: objects_ok_def streams_ok_def live_dsp_def stream_ok_new split: if_splits)
  then show ?thesis unfolding dsp_ok_def
    by (simp add: live_dsp_def sample_dsp_def QuicDispatcher_new_def QuicTimeWaitListManager_new_def
        SetConnectionIdCleanUpAlarm_def tw_alarm_def tw_now_def Let_def split_beta)
qed

theorem connection_closed_effect_witness:
  "\<exists>d'. dsp_OnConnectionClosed sample_dsp_lib 4 live_dsp = Some (Inr d') \<and> dsp_ok d' \<and> sessions d' = sessions live_dsp \<and>
    session_map d' = AList.delete 4 (session_map live_dsp) \<and> closed_session_list d' = closed_session_list live_dsp @ [0] \<and>
    IsConnectionIdInTimeWait 4 (time_wait d') \<and> Connection 0 \<notin> set (write_blocked_list d') \<and>
    alarm_log d' = alarm_log live_dsp @
      (if closed_session_list live_dsp = []
       then [(Delete_sessions_alarm, Alarm_Cancel),
             (Delete_sessions_alarm, Alarm_Set (fst (ApproximateNow (dl_tw sample_dsp_lib) (dsp_world live_dsp))))] else []) \<and>
    dsp_OnConnectionClosed sample_dsp_lib 4 d' = Some (Inr d')"
  by (rule connection_closed_effect [OF sample_lib_ok live_dsp_ok]) (simp add: live_dsp_def)

text \<open>
  C18: When the socket becomes writable, OnCanWrite returns after finitely many turns, whatever the
  writers do in theirs, and stops only because nobody is waiting any more or the writer is blocked again.
\<close>

theorem on_can_write_drains:
  assumes "dsp_lib_ok L" "dsp_ok d"
  shows "returns_ok (\<lambda>d'. dsp_ok d' \<and> (\<not> HasPendingWrites d' \<or> qw_blocked (tw_writer (dl_tw L)) (dsp_world d')))
    (dsp_OnCanWrite L d)"
  using dsp_OnCanWrite_ok [OF assms] by (rule returns_ok_mono) (simp add: HasPendingWrites_def)

theorem on_can_write_drains_witness:
  "returns_ok (\<lambda>d'. dsp_ok d' \<and> (\<not> HasPendingWrites d' \<or> qw_blocked (tw_writer (dl_tw sample_dsp_lib)) (dsp_world d')))
    (dsp_OnCanWrite sample_dsp_lib live_dsp)"
  by (rule on_can_write_drains [OF sample_lib_ok live_dsp_ok])

lemma no_sessions_left:
  assumes "dsp_ok d" "sessions d = Map.empty"
  shows "streams d = Map.empty" "arm {} (alarm_log d) \<subseteq> {Connection_id_clean_up_alarm, Delete_sessions_alarm}"
proof -
  note F = dsp_ok_facts [OF assms(1)]
  show st: "streams d = Map.empty" using F(5) assms(2) by (auto simp: fun_eq_iff)
  have "al \<in> {Connection_id_clean_up_alarm, Delete_sessions_alarm}" if "owner_alive d al" for al
    using that assms(2) st by (cases al) simp_all
  with F(6) show "arm {} (alarm_log d) \<subseteq> {Connection_id_clean_up_alarm, Delete_sessions_alarm}" by blast
qed

text \<open>
  C20: Shutdown ends, with every connection closed, the session map and the closed list empty and
  no session or stream left, and with no alarm of a session or stream set, if each connection removes itself
  when told to close, as the DCHECK in the loop demands.
\<close>

theorem shutdown_deletes_all_sessions:
  assumes "dsp_lib_ok L" "closes_itself L" "dsp_ok d"
  shows "returns_ok (\<lambda>d'. session_map d' = [] \<and> closed_session_list d' = [] \<and> sessions d' = Map.empty \<and>
      streams d' = Map.empty \<and> arm {} (alarm_log d') \<subseteq> {Connection_id_clean_up_alarm, Delete_sessions_alarm} \<and>
      {a. Connection a \<in> set (write_blocked_list d')} = {}) (dsp_Shutdown L d)"
  using dsp_Shutdown_ok [OF assms]
  by (rule returns_ok_mono) (use no_sessions_left dsp_ok_facts(4) in fastforce)

theorem shutdown_deletes_all_sessions_witness:
  "returns_ok (\<lambda>d'. session_map d' = [] \<and> closed_session_list d' = [] \<and> sessions d' = Map.empty \<and>
      streams d' = Map.empty \<and> arm {} (alarm_log d') \<subseteq> {Connection_id_clean_up_alarm, Delete_sessions_alarm} \<and>
      {a. Connection a \<in> set (write_blocked_list d')} = {}) (dsp_Shutdown sample_dsp_lib live_dsp)"
  by (rule shutdown_deletes_all_sessions [OF sample_lib_ok sample_closes_itself live_dsp_ok])

end
