(* ===== verification/Server_Properties.thy ===== *)
theory Server_Properties
  imports Server_Correct Dispatcher_Properties
begin

unbundle bit_operations_syntax

text \<open>
  Listening, the life of a server as \<open>quic_perf_server\<close> leads it, and shutdown; with a small network and
  libquic to run the server on.
\<close>

section \<open>Listening\<close>

lemma set_fd_option_frame:
  assumes "set_fd_option f q = (a, q')"
  shows "\<exists>w. q' = put_net w q"
  using assms by (auto simp: set_fd_option_def on_part_def split: prod.splits)

definition same_server :: "('ep, 't, 'd, 'v, 'c, 'k, 'w) srv \<Rightarrow> ('ep, 't, 'd, 'v, 'c, 'k, 'w) srv \<Rightarrow> bool" where
  "same_server q q' \<longleftrightarrow>
     qs_dispatcher q' = qs_dispatcher q \<and> qs_packet_num q' = qs_packet_num q \<and>
     qs_supported_versions q' = qs_supported_versions q \<and> qs_config q' = qs_config q"

lemma bind_socket_result:
  assumes "bind_socket P address q = Inr (ok, q')"
  shows "same_server q q' \<and> qs_fd q' = qs_fd q \<and> (qs_port q \<noteq> 0 \<longrightarrow> qs_port q' = qs_port q)"
  using assms
  by (auto simp: bind_socket_def Let_def same_server_def split: option.splits prod.splits if_splits
      dest!: set_fd_option_frame)

lemma listen_socket_result:
  assumes "listen_socket P address q = Inr (ok, q')"
  shows "same_server q q' \<and> (ok \<longrightarrow> 0 \<le> qs_fd q' \<and>
    (endpoint_port (sv_ep P) address \<noteq> 0 \<longrightarrow> qs_port q' = uint (endpoint_port (sv_ep P) address)))"
  using assms
  by (auto simp: listen_socket_def Let_def same_server_def unsigned_eq_0_iff split: prod.splits if_splits
      dest!: set_fd_option_frame bind_socket_result)

lemma listen_socket_benign: "listen_socket P address q = Inl e \<Longrightarrow> benign e"
  by (auto simp: listen_socket_def bind_socket_def Let_def split: prod.splits if_splits option.splits)

lemma QuicDispatcher_new_alarm:
  fixes P :: "('ep, 't, 'd, 'v, 'c, 'k, 'w) srv_lib"
  assumes "server_lib_ok P"
  obtains t where "alarm_log (QuicDispatcher_new (server_dsp_lib P) vs v ep n (p, now, w)) =
      [(Connection_id_clean_up_alarm, Alarm_Cancel), (Connection_id_clean_up_alarm, Alarm_Set t)]" "now < us_of (sv_time P) t"
proof -
  let ?m = "\<lparr>connection_id_map = [], pending_packets_queue = [],
     time_wait_period = d_from_seconds (dl_tw (sv_quic P)) (FLAGS_quic_time_wait_list_seconds (dl_tw (sv_quic P))),
     tw_visits = [], tw_alarm_calls = [], tw_world = (p, now, w)\<rparr> :: ('ep, 't, 'd, 'v, 'w server_world) tw"
  note T = server_lib_okD(2,3) [OF assms]
  obtain t where "tw_alarm_calls (SetConnectionIdCleanUpAlarm (dl_tw (server_dsp_lib P)) ?m) =
      tw_alarm_calls ?m @ [Alarm_Cancel, Alarm_Set t]" "now < us_of (sv_time P) t"
    using clean_up_alarm_set [OF T, of ?m now] time_okD(8) [OF T(1)] by auto
  with that show ?thesis by (simp add: QuicDispatcher_new_def QuicTimeWaitListManager_new_def Let_def)
qed

lemma QuicDispatcher_new_sound:
  assumes "vs \<noteq> []"
  shows "dsp_sound P n (QuicDispatcher_new (server_dsp_lib P) vs v ep n x)"
proof -
  have "time_wait_period (time_wait (QuicDispatcher_new (server_dsp_lib P) vs v ep n x)) =
      d_from_seconds (dl_tw (sv_quic P)) (FLAGS_quic_time_wait_list_seconds (dl_tw (sv_quic P)))"
    by (simp add: QuicDispatcher_new_def QuicTimeWaitListManager_new_def SetConnectionIdCleanUpAlarm_def tw_alarm_def
        tw_now_def split_beta Let_def)
  moreover have "d_packet_num (QuicDispatcher_new (server_dsp_lib P) vs v ep n x) = n"
    by (simp add: QuicDispatcher_new_def Let_def)
  ultimately show ?thesis by (simp add: dsp_sound_def QuicDispatcher_new_inv assms)
qed

lemma writer_fd_new: "pw_fd (fst (dsp_world (QuicDispatcher_new (server_dsp_lib P) vs v ep n (p, x)))) = pw_fd p"
  by (simp add: QuicDispatcher_new_def QuicTimeWaitListManager_new_def SetConnectionIdCleanUpAlarm_def dsp_world_def
      tw_alarm_def tw_now_def clock_ApproximateNow_def split_beta Let_def)

text \<open>\<open>new_dispatcher\<close> runs on a sound event loop and leaves a sound server behind.\<close>

definition fresh_server ::
  "('ep, 't, 'd, 'v, 'c, 'k, 'w) srv_lib \<Rightarrow> ('ep, 't, 'd, 'v, 'c, 'k, 'w) srv \<Rightarrow>
   ('ep, 't, 'd, 'v, 'c, 'k, 'w) srv_es \<Rightarrow> bool" where
  "fresh_server P q s' \<longleftrightarrow>
     server_inv P (qs_packet_num q) s' \<and> all_alarms s' = {Connection_id_clean_up_alarm} \<and>
     qs_fd (env s') = qs_fd q \<and> qs_port (env s') = qs_port q \<and> qs_packet_num (env s') = qs_packet_num q \<and>
     (\<exists>d. qs_dispatcher (env s') = Some d \<and> sessions d = Map.empty \<and> d_packet_num d = qs_packet_num q \<and>
        pw_fd (fst (dsp_world d)) = qs_fd q)"

lemma new_dispatcher_ok:
  assumes P: "server_lib_ok P" and q: "quiescent s" and o: "alarms_owned s" and v: "qs_supported_versions (env s) \<noteq> []"
  shows "\<exists>s'. new_dispatcher P s = Inr s' \<and> quiescent s' \<and> fresh_server P (env s) s' \<and> registry s' = registry s"
proof -
  let ?cancel = "map (\<lambda>al. (al, Alarm_Cancel :: 'b alarm_call)) (remdups (map fst (server_log (env s))))"
  have ok: "server_ok None s" using q by (simp add: quiescent_def)
  then obtain x where x: "replay_alarms (sv_time P) ?cancel s = Inr x"
    using replay_cancels by (fastforce simp: server_ok_def)
  with replay_alarms_ok [OF ok, where Q = "sv_time P" and cs = ?cancel]
  have xc: "call_ok None s x" "env x = env s" "all_alarms x = all_alarms s - fst ` set (server_log (env s))"
    by (simp_all add: arm_cancels)
  then have ax: "all_alarms x = {}" using o arm_subset [of "{}" "server_log (env s)"] by (auto simp: alarms_owned_def)
  have qx: "quiescent x" by (rule quiescent_call_ok [OF q xc(1)])
  let ?d = "QuicDispatcher_new (server_dsp_lib P) (qs_supported_versions (env x)) (framer_initial_version P)
     (IPEndPoint_default (sv_ep P)) (qs_packet_num (env x))
     (QuicDefaultPacketWriter_new (qs_fd (env x)), recorded_now_in_us x, qs_net (env x))"
  let ?x = "x\<lparr>env := store_dsp ?d (env x)\<rparr>"
  have q': "quiescent ?x" by (rule quiescent_env [OF qx])
  then have wx: "server_ok None ?x" by (simp only: quiescent_def)
  obtain t where t: "alarm_log ?d = [(Connection_id_clean_up_alarm, Alarm_Cancel), (Connection_id_clean_up_alarm, Alarm_Set t)]"
    by (rule QuicDispatcher_new_alarm [OF P])
  obtain s' where s': "replay_alarms (sv_time P) (alarm_log ?d) ?x = Inr s'"
    using replay_cancel_set [of None ?x "sv_time P" Connection_id_clean_up_alarm t] wx unfolding t server_ok_def by blast
  with replay_alarms_ok [OF wx, where Q = "sv_time P" and cs = "alarm_log ?d"]
  have c: "call_ok None ?x s'" "env s' = store_dsp ?d (env x)" "all_alarms s' = arm {} (alarm_log ?d)" by (simp_all add: ax)
  have "(case qs_dispatcher (env s) of None \<Rightarrow> [] | Some d \<Rightarrow> QuicDispatcher_delete d) = ?cancel"
    by (simp add: server_log_def QuicDispatcher_delete_def split: option.split)
  then have "new_dispatcher P s = Inr s'" using x s' by (simp add: new_dispatcher_def)
  moreover have "quiescent s'" by (rule quiescent_call_ok [OF q' c(1)])
  moreover have "registry s' = registry s"
    using replay_alarms_registry [OF s'] replay_alarms_registry [OF x] by (simp add: registry_def)
  moreover have "all_alarms s' = {Connection_id_clean_up_alarm}" using c(3) t by simp
  moreover have "fresh_server P (env s) s'"
    using P c(2,3) xc(2) v QuicDispatcher_new_sound [OF v, of P] calculation(4)
    by (simp add: fresh_server_def server_inv_def alarms_owned_def server_sound_def has_dispatcher_def writer_fd_new)
      (simp add: QuicDispatcher_new_def QuicDefaultPacketWriter_new_def Let_def)
  ultimately show ?thesis by blast
qed

lemma Listen_ok:
  assumes P: "server_lib_ok P" and q: "quiescent s" and o: "alarms_owned s" and v: "qs_supported_versions (env s) \<noteq> []"
  shows "case Listen P address s of
      Inl e \<Rightarrow> benign e
    | Inr (ok, s') \<Rightarrow> quiescent s' \<and>
        (if ok then
           fresh_server P (env s') s' \<and>
           registry s' = (registry s)(qs_fd (env s') \<mapsto> (This_server, kEpollFlags)) \<and> 0 \<le> qs_fd (env s') \<and>
           qs_packet_num (env s') = qs_packet_num (env s) \<and>
           (endpoint_port (sv_ep P) address \<noteq> 0 \<longrightarrow> qs_port (env s') = uint (endpoint_port (sv_ep P) address))
         else registry s' = registry s \<and> qs_dispatcher (env s') = qs_dispatcher (env s) \<and> alarm_map s' = alarm_map s)"
proof (cases "listen_socket P address (env s)")
  case (Inl e)
  with listen_socket_benign [OF Inl] show ?thesis by (simp add: Listen_def)
next
  case (Inr z)
  obtain ok q' where z: "z = (ok, q')" by (cases z)
  note R = listen_socket_result [OF Inr [unfolded z]]
  let ?s = "s\<lparr>env := q'\<rparr>"
  have "server_ok None s" using q by (simp add: quiescent_def)
  from quiescent_call_ok [OF q server_ok_env [OF this]] have qs: "quiescent ?s" .
  show ?thesis
  proof (cases ok)
    case False
    with Inr z R qs show ?thesis by (simp add: Listen_def same_server_def)
  next
    case True
    let ?reg = "RegisterFD (server_epoll P) (qs_fd q') (Some This_server) kEpollFlags ?s"
    note reg = quiescent_register [OF qs, where N = "server_epoll P" and fd = "qs_fd q'" and c = This_server and m = kEpollFlags]
    show ?thesis
    proof (cases ?reg)
      case (Inl e)
      with reg Inr z True show ?thesis by (simp add: Listen_def)
    next
      case u: (Inr u)
      with reg have qu: "quiescent u" "registry u = (registry s)(qs_fd q' \<mapsto> (This_server, kEpollFlags))"
        "env u = snd (netdpsock_epoll_ctl (server_epoll P) (epoll_fd s) (register_op (registry s (qs_fd q')))
          (qs_fd q') (full_mask kEpollFlags) q')" "alarm_side u = alarm_side s" by (simp_all add: alarm_side_def)
      then obtain n where n: "env u = put_net n q'"
        using lift_epoll_world(3) [of qs_net put_net "sv_epoll P"] unfolding server_epoll_def by metis
      have "qs_supported_versions (env u) \<noteq> []" using n R v by (simp add: same_server_def)
      moreover have "alarms_owned u"
        using o n R qu(4) by (simp add: alarms_owned_def server_log_def same_server_def alarm_side_def)
      ultimately obtain s' where s': "new_dispatcher P u = Inr s'" "quiescent s'"
        "fresh_server P (env u) s'" "registry s' = registry u" using new_dispatcher_ok [OF P qu(1)] by blast
      then show ?thesis using True Inr z u qu(2) n R
        by (simp add: Listen_def fresh_server_def same_server_def)
    qed
  qed
qed

section \<open>A small network\<close>

text \<open>
  The epoll of \<open>mem_epoll\<close>, a clock, and a queue of packets waiting on the one socket. The connections are
  those of the small libquic.
\<close>

type_synonym net = "((int \<rightharpoonup> mask) \<times> int) \<times> byte list list"

definition net_epoll :: "net netdp_epoll" where
  "net_epoll = \<lparr>
     netdpsock_epoll_ctl = (\<lambda>ep op fd m ((I, t), ps).
       (0, ((case op of EPOLL_CTL_DEL \<Rightarrow> I(fd := None) | _ \<Rightarrow> I(fd \<mapsto> m)), t), ps)),
     netdpsock_epoll_wait = (\<lambda>ep sz ms ((I, t), ps).
       (if ps = [] then (0, [], 0) else (1, [(5, EPOLLIN OR EPOLLOUT)], 0), (I, t + 1000 * ms), ps)),
     netdpsock_close = (\<lambda>fd w. (0, w)),
     NETDP_EINTR = 4,
     time_now = (\<lambda>((I, t), ps). (\<bar>t\<bar> + 1, (I, t + 1), ps))\<rparr>"

definition net_recv :: "byte list list \<Rightarrow> recv_result" where
  "net_recv ps = (case ps of
       [] \<Rightarrow> \<lparr>rr_bytes = -1, rr_errno = 35, rr_data = [], rr_address = \<lparr>ss_family = 0, ss_data = []\<rparr>\<rparr>
     | p # _ \<Rightarrow> \<lparr>rr_bytes = int (length p), rr_errno = 0, rr_data = p, rr_address = \<lparr>ss_family = AF_INET, ss_data = []\<rparr>\<rparr>)"

definition net_sock :: "net netdp_net" where
  "net_sock = \<lparr>
     netdpsock_setsockopt = (\<lambda>fd l opt v w. (0, w)),
     netdpsock_recvfrom = (\<lambda>fd n (e, ps). (net_recv ps, e, tl ps)),
     netdpsock_sendto = (\<lambda>fd bs a w. ((int (length bs), 0), w)),
     NETDP_EAGAIN = 35, NETDP_EWOULDBLOCK = 36,
     netdpsock_socket = (\<lambda>f ty pr w. (5, w)), netdpsock_bind = (\<lambda>fd a n w. (0, w)),
     netdpsock_getsockname = (\<lambda>fd w. ((0, 4433), w)),
     sys_getsockname = (\<lambda>fd w. ((-1, \<lparr>ss_family = 0, ss_data = []\<rparr>, 0), w)), sys_close = (\<lambda>fd w. (-1, w))\<rparr>"

definition net_endpoint :: "int endpoint_ops" where
  "net_endpoint = \<lparr>FromSockAddr = (\<lambda>a n. Some (ss_family a)), ToSockAddr = (\<lambda>e. Some \<lparr>ss_family = AF_INET, ss_data = []\<rparr>),
     IPEndPoint_new = (\<lambda>a p. uint p), IPEndPoint_default = 0, endpoint_address = (\<lambda>e. []),
     endpoint_port = word_of_int, GetSockAddrFamily = (\<lambda>e. AF_INET)\<rparr>"

definition net_quic :: "(int, int, int, nat, net server_world) dsp_lib" where
  "net_quic = \<lparr>dl_tw = \<lparr>tw_writer = default_writer (lift_sock net_sock) net_endpoint, ep_address = (\<lambda>e. []),
       BuildPublicResetPacket = (\<lambda>r. [0]), ApproximateNow = (\<lambda>x. (100, x)),
       t_add = (+), t_diff = (-), t_minus = (-), t_gt = (\<lambda>a b. b < a \<and> b < 1000), t_infinite = 1000,
       d_lt = (<), d_zero = 0, d_from_seconds = (\<lambda>n. 1000000 * n),
       FLAGS_quic_time_wait_list_seconds = 5, FLAGS_quic_time_wait_list_max_connections = 2\<rparr>,
     ep_port = (\<lambda>e. nat e), framer_ProcessPacket = sample_framer, IsSupportedVersion = (\<lambda>v. v = 1),
     ReleaseConnectionClosePacket = (\<lambda>a x. (Some [7], x)), conn_version = (\<lambda>a x. 1), conn_step = (\<lambda>a i x. x),
     conn_ProcessUdpPacket = (\<lambda>a srv cli p. sample_receive a p cli), conn_OnCanWrite = (\<lambda>a. Return ()),
     conn_SendConnectionClose = sample_close, conn_alarm_Fire = (\<lambda>a k. sample_close a)\<rparr>"

definition net_config :: "(32 word \<times> 32 word) quic_config" where
  "net_config = \<lparr>GetInitialStreamFlowControlWindowToSend = fst, SetInitialStreamFlowControlWindowToSend = (\<lambda>n (a, b). (n, b)),
     GetInitialSessionFlowControlWindowToSend = snd, SetInitialSessionFlowControlWindowToSend = (\<lambda>n (a, b). (a, n)),
     kMinimumFlowControlSendWindow = 16384\<rparr>"

definition net_lib :: "(int, int, int, nat, 32 word \<times> 32 word, string, net) srv_lib" where
  "net_lib = \<lparr>sv_epoll = net_epoll, sv_net = net_sock, sv_ep = net_endpoint, sv_time = int_time, sv_quic = net_quic,
     sv_config = net_config, QuicCryptoServerConfig_new = id, AddDefaultConfig = (\<lambda>clock k w. (k, w)),
     kDefaultSocketReceiveBuffer = 262144, kMaxPacketSize = 1452, framer_initial_version = 1\<rparr>"

lemma net_dsp_lib_ok: "dsp_lib_ok (server_dsp_lib net_lib)"
proof -
  have "quic_time_laws (dl_tw (server_dsp_lib net_lib))"
    by (auto simp: quic_time_laws_def server_dsp_lib_def net_lib_def net_quic_def)
  moreover have "wr_blocked (server_dsp_lib net_lib) (snd (clock_ApproximateNow (sv_time net_lib) (sv_epoll net_lib) x)) =
      wr_blocked (server_dsp_lib net_lib) x" for x
    by (cases x) (auto simp: clock_ApproximateNow_def default_writer_def split: prod.split)
  ultimately show ?thesis
    using dw.packet_writer_axioms [of "lift_sock net_sock" net_endpoint] sample_framer_ok
    by (simp add: dsp_lib_ok_def) (simp add: server_dsp_lib_def net_lib_def net_quic_def sample_close_live sample_receive_live)
qed

lemma net_backlog: "backlog_ok net_lib (\<lambda>(e, ps). length ps)"
proof -
  have "fewer_waiting (\<lambda>(e, ps). length ps) x x'"
    if "writer_WritePacket (lift_sock net_sock) net_endpoint buf self peer x = Inr (r, x')"
    for buf self peer r and x x' :: "net server_world"
    using that by (cases x)
      (auto simp: writer_WritePacket_def WritePacket_def net_endpoint_def lift_sock_def net_sock_def on_snd_def
        rbind_eq_Inr fewer_waiting_def)
  moreover have "fewer_waiting (\<lambda>(e, ps). length ps) x (snd (clock_ApproximateNow Q net_epoll x))"
    for Q :: "(int, int) quic_time" and x :: "net server_world"
    by (cases x) (auto simp: fewer_waiting_def clock_ApproximateNow_def net_epoll_def split: prod.split)
  moreover have "reflp (fewer_waiting (\<lambda>(e, ps). length ps) :: net server_world \<Rightarrow> _)"
    "transp (fewer_waiting (\<lambda>(e, ps). length ps) :: net server_world \<Rightarrow> _)"
    by (auto simp: fewer_waiting_def intro: reflpI transpI)
  ultimately have "world_order (server_dsp_lib net_lib) (fewer_waiting (\<lambda>(e, ps). length ps))"
    unfolding world_order_def clock_order_def
    by (simp add: net_lib_def default_writer_def) (simp add: server_dsp_lib_def net_quic_def fewer_waiting_def)
  moreover have "length (tl ps) < length ps" if "0 \<le> rr_bytes (net_recv ps)" for ps
    using that by (cases ps) (simp_all add: net_recv_def)
  ultimately show ?thesis by (auto simp: backlog_ok_def net_lib_def net_sock_def)
qed

lemma sample_close_log:
  assumes "on_connection L a (sample_close a) d = Some (Inr d')"
  shows "(Connection_alarm b j, c) \<notin> set (drop (length (alarm_log d)) (alarm_log d'))"
proof -
  from assms obtain x where x: "(case id_of_session (session_map d) a of None \<Rightarrow> d' = set_dsp_world x d
      | Some c \<Rightarrow> dsp_OnConnectionClosed L c (set_dsp_world x d) = Some (Inr d'))"
    by (fastforce simp: on_connection_def sample_close_def obind_eq_Inr rbind_eq_Inr split: if_splits option.splits)
  show ?thesis
  proof (cases "id_of_session (session_map d) a")
    case None
    with x show ?thesis by simp
  next
    case (Some c)
    with x dsp_OnConnectionClosed_log [of L c "set_dsp_world x d" d'] show ?thesis by auto
  qed
qed

lemma net_ranks: "conn_ranks net_lib (\<lambda>_ _ _. 0)"
  using sample_close_log by (fastforce simp: conn_ranks_def net_lib_def net_quic_def)

lemma net_lib_ok: "server_lib_ok net_lib"
proof -
  have "time_ok (sv_time net_lib) (dl_tw (sv_quic net_lib))"
    by (auto simp: time_ok_def us_of_def net_lib_def net_quic_def int_time_def)
  moreover have "0 < fst (time_now (sv_epoll net_lib) w)" for w
    by (cases w) (auto simp: net_lib_def net_epoll_def)
  ultimately show ?thesis using net_dsp_lib_ok net_backlog net_ranks unfolding server_lib_ok_def by blast
qed

lemma QuicServer_new_ok:
  assumes "QuicServer_new P config versions fd n w = Inr s"
  shows "quiescent s" "qs_supported_versions (env s) = versions" "qs_dispatcher (env s) = None"
    "cb_map s = []" "timeout_in_us s = 50000" "all_alarms s = {}"
proof -
  obtain q s1 w' k where s1: "EpollServer_new fd (\<lambda>_. EpollAlarm_new) q = Inr s1"
    and s: "s = (set_timeout_in_us 50000 s1)\<lparr>env := (env s1)\<lparr>qs_crypto_config := k, qs_net := w'\<rparr>\<rparr>"
    and q: "qs_supported_versions q = versions" "qs_dispatcher q = None"
    using assms by (fastforce simp: QuicServer_new_def Let_def rbind_eq_Inr set_timeout_in_us_def split_beta)
  have e: "env s1 = q" "cb_map s1 = []" "all_alarms s1 = {}" using s1 by (auto simp: EpollServer_new_def split: if_splits)
  have "server_ok None s1" using quiescent_init [OF s1] by (simp add: quiescent_def)
  from quiescent_call [OF quiescent_init [OF s1], of _ "Api_set_timeout 50000"]
  have t: "quiescent (set_timeout_in_us 50000 s1)" by simp
  then have "server_ok None (set_timeout_in_us 50000 s1)" by (simp only: quiescent_def)
  from quiescent_call_ok [OF t server_ok_env [OF this]] show "quiescent s" unfolding s .
  show "qs_supported_versions (env s) = versions" "qs_dispatcher (env s) = None" "cb_map s = []" "timeout_in_us s = 50000"
    "all_alarms s = {}"
    using q e unfolding s by (simp_all add: set_timeout_in_us_def)
qed

lemma Listen_succeeds:
  assumes P: "server_lib_ok P" and q: "quiescent s" and o: "alarms_owned s" and v: "qs_supported_versions (env s) \<noteq> []"
    and r: "listen_socket P address (env s) = Inr (True, q')" and n: "registry s (qs_fd q') = None"
    and c: "netdpsock_epoll_ctl (server_epoll P) (epoll_fd s) EPOLL_CTL_ADD (qs_fd q') (full_mask kEpollFlags) q' = (0, w')"
  shows "\<exists>s'. Listen P address s = Inr (True, s')"
proof -
  let ?s = "s\<lparr>env := q'\<rparr>"
  have qs: "quiescent ?s" by (rule quiescent_env [OF q])
  then obtain rs ts where w: "es_wf ?s rs ts" by (auto simp: quiescent_def server_ok_def es_inv_def)
  have c': "netdpsock_epoll_ctl (server_epoll P) (epoll_fd ?s) (register_op (registry ?s (qs_fd q'))) (qs_fd q')
      (full_mask kEpollFlags) (env ?s) = (0, w')" using n c by (simp add: register_op_def)
  obtain u where u: "RegisterFD (server_epoll P) (qs_fd q') (Some This_server) kEpollFlags ?s = Inr u"
    "outcome_is ?s ((registry ?s)(qs_fd q' \<mapsto> (This_server, kEpollFlags)))
       (register_calls (registry ?s (qs_fd q')) This_server (qs_fd q') kEpollFlags) w' u"
    by (rule RegisterFD_outcome [OF w c'])
  have "quiescent u"
    by (rule quiescent_call [OF qs, of "server_epoll P" "Api_fd (Do_Register (qs_fd q') This_server kEpollFlags)"])
      (simp add: u(1))
  moreover have "env u = snd (netdpsock_epoll_ctl (server_epoll P) (epoll_fd s) EPOLL_CTL_ADD (qs_fd q') (full_mask kEpollFlags) q')"
    using u(2) c by (simp add: outcome_is_def)
  with lift_epoll_world(3) [of qs_net put_net "sv_epoll P"] have "\<exists>n. env u = put_net n q'"
    unfolding server_epoll_def by metis
  then obtain n where "env u = put_net n q'" by blast
  moreover have "alarm_side u = alarm_side ?s"
    by (rule side_run_fd_op [of "server_epoll P" "Do_Register (qs_fd q') This_server kEpollFlags"]) (simp add: u(1))
  moreover from calculation listen_socket_result [OF r] v o have "qs_supported_versions (env u) \<noteq> []" "alarms_owned u"
    by (simp_all add: same_server_def alarms_owned_def server_log_def alarm_side_def)
  ultimately obtain s' where "new_dispatcher P u = Inr s'" using new_dispatcher_ok [OF P] by blast
  with r u(1) show ?thesis by (simp add: Listen_def)
qed

lemma net_listening:
  obtains s0 s where "QuicServer_new net_lib (0, 0) [1] 3 0 ((Map.empty, 1), [[4, 1, 0]]) = Inr s0"
    "Listen net_lib 80 (server_SetPacketNum 7 s0) = Inr (True, s)"
proof -
  obtain s0 where s0: "QuicServer_new net_lib (0, 0) [1] 3 0 ((Map.empty, 1), [[4, 1, 0]]) = Inr s0"
    by (simp add: QuicServer_new_def EpollServer_new_def net_lib_def net_config_def)
  note N = QuicServer_new_ok [OF s0]
  let ?s = "server_SetPacketNum 7 s0"
  have q: "quiescent ?s" using quiescent_env [OF N(1)] by (simp add: server_SetPacketNum_def)
  obtain q' where q': "listen_socket net_lib 80 (env ?s) = Inr (True, q')"
    by (simp add: listen_socket_def bind_socket_def net_lib_def net_sock_def net_endpoint_def set_fd_option_def on_part_def
        SetGetAddressInfo_def SetReceiveBufferSize_def SetSendBufferSize_def Let_def socket_constants)
  obtain w' where w': "netdpsock_epoll_ctl (server_epoll net_lib) (epoll_fd ?s) EPOLL_CTL_ADD (qs_fd q') (full_mask kEpollFlags) q' = (0, w')"
    by (simp add: server_epoll_def lift_epoll_def on_part_def net_lib_def net_epoll_def split_beta)
  have "\<exists>s. Listen net_lib 80 ?s = Inr (True, s)"
    by (rule Listen_succeeds [OF net_lib_ok q _ _ q' _ w'])
      (use N in \<open>simp_all add: server_SetPacketNum_def registry_def alarms_owned_def\<close>)
  with s0 that show ?thesis by blast
qed

lemma update_server_registry: "update_server P q s = Inr s' \<Longrightarrow> registry s' = registry s"
  by (auto simp: update_server_def registry_def dest!: replay_alarms_registry)

section \<open>The life of a server\<close>

text \<open>
  What \<open>main\<close> of quic_perf_server.cc does with its server: construct it, set the packet count, listen, and
  then wait for events for ever.
\<close>

inductive server_life :: "('ep, 't, 'd, 'v, 'c, 'k, 'w) srv_lib \<Rightarrow> int \<Rightarrow> ('ep, 't, 'd, 'v, 'c, 'k, 'w) srv_es \<Rightarrow> bool"
  for P n where
  listen: "QuicServer_new P config versions fd n0 w = Inr s0 \<Longrightarrow> versions \<noteq> [] \<Longrightarrow>
    Listen P address (server_SetPacketNum n s0) = Inr (True, s) \<Longrightarrow> server_life P n s"
| wait: "server_life P n s \<Longrightarrow> server_WaitForEvents P s = Some (Inr s') \<Longrightarrow> server_life P n s'"

lemma server_life_sound:
  assumes P: "server_lib_ok P" and "server_life P n s"
  shows "quiescent s \<and> server_inv P n s"
  using assms(2)
proof induction
  case (listen config versions fd n0 w s0 address s)
  note N = QuicServer_new_ok [OF listen(1)]
  have "quiescent (server_SetPacketNum n s0)" unfolding server_SetPacketNum_def by (rule quiescent_env [OF N(1)])
  moreover have "qs_supported_versions (env (server_SetPacketNum n s0)) \<noteq> []" "qs_packet_num (env (server_SetPacketNum n s0)) = n"
    "alarms_owned (server_SetPacketNum n s0)"
    using listen(2) N(2,6) by (simp_all add: server_SetPacketNum_def alarms_owned_def)
  ultimately show ?case using Listen_ok [OF P, of "server_SetPacketNum n s0" address] listen(3) by (auto simp: fresh_server_def)
next
  case (wait s s')
  from server_round [OF conjunct1 [OF wait.IH] conjunct2 [OF wait.IH]] wait.hyps(2) show ?case by simp
qed

lemma server_life_round:
  assumes "server_lib_ok P" "server_life P n s"
  shows "returns_ok (server_life P n) (server_WaitForEvents P s)"
proof -
  have S: "quiescent s" "server_inv P n s" using server_life_sound [OF assms] by simp_all
  show ?thesis using server_round [OF S] by (cases rule: returns_okE) (use server_life.wait [OF assms(2)] in auto)
qed





lemma Shutdown_log:
  assumes b: "backlog_ok P backlog" and r: "dsp_Shutdown (server_dsp_lib P) d = Some (Inr d')"
  shows "\<exists>cs. alarm_log d' = alarm_log d @ cs"
proof -
  from r obtain e where e: "shutdown_loop (server_dsp_lib P) d = Some (Inr e)" "d' = DeleteSessions e"
    by (auto simp: dsp_Shutdown_def obind_eq_Inr)
  from shutdown_loop_world [OF backlog_okD(1) [OF b] e(1) refl] show ?thesis
    unfolding e(2) by (auto simp: moved_def DeleteSessions_def)
qed



section \<open>One event\<close>

definition drained :: "('ep, 't, 'd, 'v, 'c, 'k, 'w) srv_lib \<Rightarrow> ('ep, 't, 'd, 'v, 'c, 'k, 'w) srv \<Rightarrow> bool" where
  "drained P q \<longleftrightarrow> (\<exists>w rp. ReadPacket (sv_net P) (sv_ep P) (qs_fd q) (2 * kMaxPacketSize P) (IPEndPoint_default (sv_ep P)) w =
     Inr (rp, qs_net q) \<and> rp_result rp < 0)"

lemma read_loop_drained:
  assumes "read_loop P now q = Some r"
  shows "case r of Inl e \<Rightarrow> True | Inr q' \<Rightarrow> drained P q'"
proof (rule read_loop.raw_induct [where P = "\<lambda>P now q r. case r of Inl e \<Rightarrow> True | Inr q' \<Rightarrow> drained P q'", OF _ assms], goal_cases)
  case (1 f P now q y)
  from 1(2) obtain r where r: "ReadAndDispatchSinglePacket P now (qs_fd q) (qs_port q) q = Some r"
    "(case r of Inl e \<Rightarrow> Some (Inl e) | Inr (read, q) \<Rightarrow> if read then f P now q else Some (Inr q)) = Some y"
    by (auto simp: bind_eq_Some_conv)
  show ?case
  proof (cases "\<exists>q'. r = Inr (False, q')")
    case True
    then obtain q' where q': "r = Inr (False, q')" by blast
    with r(1) have "drained P q'"
      by (auto simp: ReadAndDispatchSinglePacket_def drained_def obind_eq_Inr Let_def split: if_splits) blast
    with r(2) q' show ?thesis by auto
  next
    case False
    with r(2) 1(1) show ?thesis by (cases r) (auto split: if_splits)
  qed
qed



end
