(* ===== verification/Client_Properties.thy ===== *)
theory Client_Properties
  imports Client_Correct Server_Properties
begin

unbundle bit_operations_syntax

text \<open>
  The client's operations between rounds: opening the socket, connecting, disconnecting and deletion; with
  a small libquic to run the client on.
\<close>

section \<open>Initialization\<close>

lemma on_cl_net_frame: "on_cl_net f q = (a, q') \<Longrightarrow> \<exists>w. q' = put_cl_net w q"
  by (auto simp: on_cl_net_def on_part_def split: prod.splits)

definition same_session :: "('ep, 'v, 'i, 'c, 's, 'w) cli \<Rightarrow> ('ep, 'v, 'i, 'c, 's, 'w) cli \<Rightarrow> bool" where
  "same_session q q' \<longleftrightarrow>
     cl_session q' = cl_session q \<and> cl_writer q' = cl_writer q \<and> cl_initialized q' = cl_initialized q \<and>
     cl_server_address q' = cl_server_address q \<and> cl_config q' = cl_config q"

lemma CreateUDPSocket_result:
  assumes "CreateUDPSocket P q = Inr (ok, q')"
  shows "same_session q q' \<and> (ok \<longrightarrow> 0 \<le> cl_fd q')"
  using assms
  by (auto simp: CreateUDPSocket_def client_bind_def Let_def same_session_def split: prod.splits if_splits option.splits
      dest!: on_cl_net_frame)

lemma CreateUDPSocket_benign: "CreateUDPSocket P q = Inl e \<Longrightarrow> benign e"
  by (auto simp: CreateUDPSocket_def client_bind_def Let_def split: prod.splits if_splits option.splits)

lemma client_epoll_world:
  "\<exists>w. snd (netdpsock_epoll_ctl (client_epoll P) ep op fd m q) = put_cl_net w q"
  unfolding client_epoll_def by (rule lift_epoll_world)

lemma quiescent_set_timeout: "quiescent s \<Longrightarrow> quiescent (set_timeout_in_us n s)"
  by (rule quiescent_call [of s undefined "Api_set_timeout n"]) simp_all

lemma registry_env_frame [simp]:
  "registry (s\<lparr>env := q\<rparr>) = registry s" "registry (set_timeout_in_us n s) = registry s" "registry (upd_alarm al f s) = registry s"
  by (rule registry_alarm_fields; simp add: set_timeout_in_us_def upd_alarm_def)+

lemma client_Initialize_eq:
  "\<exists>config. client_Initialize P s = (let t = set_timeout_in_us 50000 (s\<lparr>env := (env s)\<lparr>cl_config := config\<rparr>\<rparr>)
     in rbind (CreateUDPSocket P (env t)) (\<lambda>(ok, q).
        let s = t\<lparr>env := q\<rparr>
        in if \<not> ok then Inr (False, s)
           else rbind (RegisterFD (client_epoll P) (cl_fd q) (Some This_client) kEpollFlags s) (\<lambda>s.
                Inr (True, s\<lparr>env := (env s)\<lparr>cl_initialized := True\<rparr>\<rparr>))))"
proof -
  define config where "config =
     (let C = cv_config P; config = cl_config (env s);
          config = (if GetInitialStreamFlowControlWindowToSend C config = kMinimumFlowControlSendWindow C
                    then SetInitialStreamFlowControlWindowToSend C (10 * 1024 * 1024) config else config)
      in if GetInitialSessionFlowControlWindowToSend C config = kMinimumFlowControlSendWindow C
         then SetInitialSessionFlowControlWindowToSend C (10 * 1024 * 1024) config else config)"
  show ?thesis by (rule exI [of _ config]) (simp add: client_Initialize_def config_def Let_def)
qed

lemma client_register_ok:
  assumes "quiescent u"
  shows "case RegisterFD (client_epoll P) fd (Some This_client) kEpollFlags u of Inl e \<Rightarrow> benign e
    | Inr v \<Rightarrow> quiescent v \<and> alarm_side v = alarm_side u \<and>
        registry v = (registry u)(fd \<mapsto> (This_client, kEpollFlags)) \<and> (\<exists>n. env v = put_cl_net n (env u))"
  using quiescent_register [OF assms, where N = "client_epoll P" and fd = fd and c = This_client and m = kEpollFlags]
    client_epoll_world [of P]
  by (cases "RegisterFD (client_epoll P) fd (Some This_client) kEpollFlags u") fastforce+

lemma client_Initialize_ok:
  assumes "quiescent s"
  shows "case client_Initialize P s of
      Inl e \<Rightarrow> benign e
    | Inr (ok, s') \<Rightarrow> quiescent s' \<and> alarm_side s' = alarm_side s \<and> cl_session (env s') = cl_session (env s) \<and>
        cl_writer (env s') = cl_writer (env s) \<and>
        (if ok then cl_initialized (env s') \<and> 0 \<le> cl_fd (env s') \<and>
           registry s' = (registry s)(cl_fd (env s') \<mapsto> (This_client, kEpollFlags))
         else cl_initialized (env s') = cl_initialized (env s) \<and> registry s' = registry s)"
proof -
  obtain config where init: "client_Initialize P s = (let t = set_timeout_in_us 50000 (s\<lparr>env := (env s)\<lparr>cl_config := config\<rparr>\<rparr>)
     in rbind (CreateUDPSocket P (env t)) (\<lambda>(ok, q).
        let s = t\<lparr>env := q\<rparr>
        in if \<not> ok then Inr (False, s)
           else rbind (RegisterFD (client_epoll P) (cl_fd q) (Some This_client) kEpollFlags s) (\<lambda>s.
                Inr (True, s\<lparr>env := (env s)\<lparr>cl_initialized := True\<rparr>\<rparr>))))" using client_Initialize_eq [of P s] by blast
  let ?t = "set_timeout_in_us 50000 (s\<lparr>env := (env s)\<lparr>cl_config := config\<rparr>\<rparr>)"
  have t: "env ?t = (env s)\<lparr>cl_config := config\<rparr>" "alarm_side (?t\<lparr>env := q\<rparr>) = alarm_side s" for q
    by (simp_all add: set_timeout_in_us_def alarm_side_def)
  have u: "quiescent (?t\<lparr>env := q\<rparr>)" "alarm_side (?t\<lparr>env := q\<rparr>) = alarm_side s" "registry (?t\<lparr>env := q\<rparr>) = registry s" for q
    using quiescent_env [OF quiescent_set_timeout [OF quiescent_env [OF assms]]] t(2) by simp_all
  show ?thesis
  proof (cases "CreateUDPSocket P (env ?t)")
    case (Inl e)
    with CreateUDPSocket_benign [OF Inl] show ?thesis by (simp add: init)
  next
    case (Inr z)
    obtain ok q where z: "z = (ok, q)" by (cases z)
    note R = CreateUDPSocket_result [OF Inr [unfolded z]] and reg = client_register_ok [OF u(1) [of q], where P = P and fd = "cl_fd q"]
    show ?thesis
    proof (cases "ok \<and> (\<exists>v. RegisterFD (client_epoll P) (cl_fd q) (Some This_client) kEpollFlags (?t\<lparr>env := q\<rparr>) = Inr v)")
      case False
      with reg Inr z R u t show ?thesis
        by (cases "RegisterFD (client_epoll P) (cl_fd q) (Some This_client) kEpollFlags (?t\<lparr>env := q\<rparr>)")
           (auto simp: init Let_def same_session_def)
    next
      case True
      then obtain v where v: "RegisterFD (client_epoll P) (cl_fd q) (Some This_client) kEpollFlags (?t\<lparr>env := q\<rparr>) = Inr v" by blast
      with reg u obtain w where vs: "quiescent v" "alarm_side v = alarm_side s"
        "registry v = (registry s)(cl_fd q \<mapsto> (This_client, kEpollFlags))" and w: "env v = put_cl_net w q" by auto
      have "alarm_side (v\<lparr>env := q'\<rparr>) = alarm_side v" for q' by (simp add: alarm_side_def)
      with v vs quiescent_env [OF vs(1)] True Inr z w R t show ?thesis by (simp add: init same_session_def)
    qed
  qed
qed

section \<open>Deleting a session\<close>

lemma EpollAlarm_delete_ok:
  assumes q: "quiescent s"
  shows "\<exists>s'. EpollAlarm_delete al s = Inr s' \<and> quiescent s' \<and> env s' = env s \<and> registry s' = registry s \<and>
    all_alarms s' = all_alarms s - {al}"
proof -
  have ok: "server_ok None s" and w: "alarm_wf None s" using q by (simp_all add: quiescent_def server_ok_def)
  obtain u where u: "UnregisterIfRegistered al s = Inr u" "al \<notin> all_alarms u" "alarm_wf None u"
    by (rule UnregisterIfRegistered_wf [OF w]) blast
  have qu: "quiescent u" by (rule quiescent_call [OF q, of undefined "Api_unregister_alarm al"]) (simp add: u(1))
  have a: "all_alarms u = all_alarms s - {al}"
  proof (cases "al \<in> all_alarms s")
    case True
    then obtain k t where "ea_registered (alarm_objs s al)" "ea_token (alarm_objs s al) = Some k" "map_of (alarm_map s) k = Some (t, al)"
      using alarm_okD(5) [OF w [unfolded alarm_wf_def]] by blast
    with u(1) show ?thesis
      by (auto simp: UnregisterIfRegistered_def UnregisterAlarm_def EpollAlarm_OnUnregistration_def upd_alarm_def Let_def split: if_splits)
  next
    case False
    then have "\<not> ea_registered (alarm_objs s al)" using alarm_okD(6) [OF w [unfolded alarm_wf_def]] by blast
    with u(1) False show ?thesis by (simp add: UnregisterIfRegistered_def)
  qed
  let ?s' = "upd_alarm al (\<lambda>_. EpollAlarm_new) u"
  have "alarm_wf None ?s'"
    unfolding alarm_wf_def
  proof (rule alarm_okI, goal_cases)
    case (4 k t al')
    with alarm_okD(4) [OF u(3) [unfolded alarm_wf_def], of k t al'] u(2) show ?case by (auto simp: upd_alarm_def)
  next
    case (5 al')
    with alarm_okD(5) [OF u(3) [unfolded alarm_wf_def], of al'] u(2) show ?case by (auto simp: upd_alarm_def)
  next
    case (6 al')
    with alarm_okD(6) [OF u(3) [unfolded alarm_wf_def], of al'] show ?case
      by (auto simp: upd_alarm_def EpollAlarm_new_def split: if_splits)
  qed (use alarm_okD(1-3) [OF u(3) [unfolded alarm_wf_def]] in \<open>simp_all add: upd_alarm_def\<close>)
  with qu have "quiescent ?s'"
    by (auto simp: quiescent_def server_ok_def es_inv_def idle_def upd_alarm_def es_wf_alarm_fields busy_alarm_fields)
  moreover have "registry u = registry s" "env u = env s"
    using Unregister_effect(1,2) [OF u(1)] by simp_all
  ultimately show ?thesis using u(1) a
    by (simp add: EpollAlarm_delete_def) (simp add: upd_alarm_def)
qed

lemma delete_alarms_ok:
  "quiescent s \<Longrightarrow> \<exists>s'. delete_alarms als s = Inr s' \<and> quiescent s' \<and> env s' = env s \<and> registry s' = registry s \<and>
     all_alarms s' = all_alarms s - set als"
proof (induction als arbitrary: s)
  case (Cons al als)
  from EpollAlarm_delete_ok [OF Cons.prems, of al] obtain u where u: "EpollAlarm_delete al s = Inr u" "quiescent u"
    "env u = env s" "registry u = registry s" "all_alarms u = all_alarms s - {al}" by blast
  from Cons.IH [OF u(2)] u show ?case by fastforce
qed simp

text \<open>The alarms of the current session.\<close>

definition client_alarms :: "('ep, 't, 'd, 'v, 'i, 'c, 's, 'al, 'w) cl_lib \<Rightarrow> ('ep, 'v, 'i, 'c, 's, 'w) cli \<Rightarrow> 'al set" where
  "client_alarms P q = (case cl_session q of None \<Rightarrow> {} | Some ses \<Rightarrow> set (ses_alarms P ses))"

lemma delete_session_ok:
  assumes "quiescent s"
  shows "\<exists>s'. delete_session P s = Inr s' \<and> quiescent s' \<and> env s' = env s \<and> registry s' = registry s \<and>
     all_alarms s' = all_alarms s - client_alarms P (env s)"
  using delete_alarms_ok [OF assms] assms by (cases "cl_session (env s)") (auto simp: delete_session_def client_alarms_def)

section \<open>Waiting\<close>

text \<open>\<open>n\<close> rounds of the event loop.\<close>

fun client_rounds ::
  "('ep, 't, 'd, 'v, 'i, 'c, 's, 'al, 'w) cl_lib \<Rightarrow> nat \<Rightarrow> ('ep, 'v, 'i, 'c, 's, 'al, 'w) cli_es \<Rightarrow>
   ('ep, 'v, 'i, 'c, 's, 'al, 'w) cli_es outcome" where
  "client_rounds P 0 s = Some (Inr s)"
| "client_rounds P (Suc n) s = obind (client_WaitForEvents P s) (client_rounds P n)"

definition waits_forever ::
  "('ep, 't, 'd, 'v, 'i, 'c, 's, 'al, 'w) cl_lib \<Rightarrow> (('ep, 'v, 'i, 'c, 's, 'w) cli \<Rightarrow> bool) \<Rightarrow>
   ('ep, 'v, 'i, 'c, 's, 'al, 'w) cli_es \<Rightarrow> bool" where
  "waits_forever P c s \<longleftrightarrow> (\<forall>n. \<exists>u. client_rounds P n s = Some (Inr u) \<and> quiescent u \<and> c (env u))"

lemma client_wait_ok:
  assumes "cl_lib_ok P" "quiescent s" "has_session (env s)"
  shows "returns_ok (\<lambda>s'. quiescent s' \<and> has_session (env s')) (client_WaitForEvents P s)"
  by (rule returns_ok_mono [OF client_round [of s P]]) (use assms in \<open>simp_all add: client_sound_def\<close>)

lemma wait_while_forever:
  assumes P: "cl_lib_ok P"
  shows "quiescent s \<Longrightarrow> has_session (env s) \<Longrightarrow> wait_while P c s = None \<Longrightarrow>
    \<exists>u. client_rounds P n s = Some (Inr u) \<and> quiescent u \<and> c (env u)"
proof (induction n arbitrary: s)
  case 0
  then show ?case by (auto simp: wait_while.simps [of P c s] split: if_splits)
next
  case (Suc n)
  have c: "c (env s)" using Suc.prems(3) by (auto simp: wait_while.simps [of P c s] split: if_splits)
  show ?case using client_wait_ok [OF P Suc.prems(1,2)]
  proof (cases rule: returns_okE)
    case (result u)
    with Suc.prems(3) c have "wait_while P c u = None" by (simp add: wait_while.simps [of P c s])
    with Suc.IH [of u] result show ?thesis by simp
  next
    case (abort e)
    with Suc.prems(3) c show ?thesis by (simp add: wait_while.simps [of P c s])
  qed
qed

lemma wait_while_result:
  assumes "wait_while P c s = Some r" "quiescent s" "has_session (env s)" "cl_lib_ok P"
  shows "case r of Inl e \<Rightarrow> benign e | Inr s' \<Rightarrow> quiescent s' \<and> has_session (env s') \<and> \<not> c (env s')"
proof -
  let ?Q = "\<lambda>P c s r. cl_lib_ok P \<longrightarrow> quiescent s \<longrightarrow> has_session (env s) \<longrightarrow>
     (case r of Inl e \<Rightarrow> benign e | Inr s' \<Rightarrow> quiescent s' \<and> has_session (env s') \<and> \<not> c (env s'))"
  have "?Q P c s r"
  proof (rule wait_while.raw_induct [where P = ?Q, OF _ assms(1)], intro impI, goal_cases)
    case (1 f P c s y)
    note ih = 1(1) [rule_format, OF _ 1(3)] and r = 1(2)
    show ?case
    proof (cases "c (env s)")
      case False
      with r 1(4,5) show ?thesis by auto
    next
      case True
      show ?thesis using client_wait_ok [OF 1(3-5)]
      proof (cases rule: returns_okE)
        case (result u)
        with r True have "f P c u = Some y" by simp
        from ih [OF this] result show ?thesis by simp
      next
        case (abort e)
        with r True show ?thesis by auto
      qed
    qed
  qed
  with assms show ?thesis by simp
qed

lemma wait_while_ok:
  assumes "quiescent s" "has_session (env s)" "cl_lib_ok P"
  shows "case wait_while P c s of
      None \<Rightarrow> waits_forever P c s
    | Some (Inl e) \<Rightarrow> benign e
    | Some (Inr s') \<Rightarrow> quiescent s' \<and> has_session (env s') \<and> \<not> c (env s')"
proof (cases "wait_while P c s")
  case None
  with wait_while_forever [OF assms(3,1,2)] show ?thesis by (simp add: waits_forever_def)
next
  case (Some r)
  with wait_while_result [OF Some assms] show ?thesis by (cases r) simp_all
qed

section \<open>Connecting\<close>

lemma quiescent_on_session:
  assumes "quiescent s" "has_session (env s)" "act_benign act"
  shows "case on_session P act s of Inl e \<Rightarrow> benign e
    | Inr s' \<Rightarrow> quiescent s' \<and> has_session (env s') \<and> same_client (env s) (env s') \<and> registry s' = registry s"
proof -
  have "server_ok None s" using assms(1) by (simp add: quiescent_def)
  from on_session_ok [OF this assms(2,3), of P] show ?thesis
    using on_session_env [of P act s] quiescent_call_ok [OF assms(1)] by (cases "on_session P act s") auto
qed

lemma start_session_ok:
  assumes "quiescent s"
  shows "\<exists>s'. start_session P s = Inr s' \<and> quiescent s' \<and> has_session (env s') \<and> same_client (env s) (env s') \<and>
    registry s' = registry s \<and> all_alarms s' = all_alarms s - client_alarms P (env s)"
proof -
  obtain ses wr now w where n: "new_session P (cl_config (env s)) (cl_server_address (env s)) (cl_server_id (env s))
      (cl_supported_versions (env s)) (QuicDefaultPacketWriter_new (cl_fd (env s)), recorded_now_in_us s, cl_net (env s)) =
      (ses, wr, now, w)" by (metis prod.collapse)
  from delete_session_ok [OF assms, of P] obtain u where u: "delete_session P s = Inr u" "quiescent u" "env u = env s"
    "registry u = registry s" "all_alarms u = all_alarms s - client_alarms P (env s)" by blast
  with quiescent_env [OF u(2)] n show ?thesis
    by (simp add: start_session_def has_session_def same_client_def)
qed

text \<open>The session has been set up and the handshake started.\<close>

definition begin_connect ::
  "('ep, 't, 'd, 'v, 'i, 'c, 's, 'al, 'w) cl_lib \<Rightarrow> ('ep, 'v, 'i, 'c, 's, 'al, 'w) cli_es \<Rightarrow>
   ('ep, 'v, 'i, 'c, 's, 'al, 'w) cli_es res" where
  "begin_connect P s = rbind (start_session P s) (\<lambda>s. rbind (InitializeSession P s) (CryptoConnect P))"

lemma begin_connect_ok:
  assumes P: "cl_lib_ok P" and q: "quiescent s"
  shows "case begin_connect P s of Inl e \<Rightarrow> benign e
    | Inr s' \<Rightarrow> quiescent s' \<and> has_session (env s') \<and> same_client (env s) (env s') \<and> registry s' = registry s"
proof -
  from start_session_ok [OF q, of P] obtain t where t: "start_session P s = Inr t" "quiescent t" "has_session (env t)"
    "same_client (env s) (env t)" "registry t = registry s" by blast
  note I = quiescent_on_session [OF t(2,3) cl_lib_okD(6) [OF P], of P "cl_server_id (env t)"]
  show ?thesis
  proof (cases "InitializeSession P t")
    case (Inl e)
    with I t(1) show ?thesis by (simp add: begin_connect_def InitializeSession_def)
  next
    case (Inr u)
    with I have u: "quiescent u" "has_session (env u)" "same_client (env t) (env u)" "registry u = registry t"
      by (simp_all add: InitializeSession_def)
    from quiescent_on_session [OF u(1,2) cl_lib_okD(5) [OF P], of P] Inr t u show ?thesis
      by (auto simp: begin_connect_def CryptoConnect_def split: sum.splits intro: same_client_trans)
  qed
qed

lemma client_Connect_eq:
  "client_Connect P s = obind (Some (begin_connect P s)) (\<lambda>s. obind (connect_loop P s) (\<lambda>s. Some (Inr (connected P (env s), s))))"
  by (simp add: client_Connect_def begin_connect_def)

lemma client_Connect_ok:
  assumes P: "cl_lib_ok P" and q: "quiescent s"
  shows "case client_Connect P s of
      None \<Rightarrow> \<exists>t. begin_connect P s = Inr t \<and> waits_forever P (handshaking P) t
    | Some (Inl e) \<Rightarrow> benign e
    | Some (Inr (ok, s')) \<Rightarrow> quiescent s' \<and> has_session (env s') \<and> ok = connected P (env s') \<and>
        \<not> handshaking P (env s')"
proof (cases "begin_connect P s")
  case (Inl e)
  with begin_connect_ok [OF P q] show ?thesis by (simp add: client_Connect_eq)
next
  case (Inr t)
  with begin_connect_ok [OF P q] have "quiescent t" "has_session (env t)" by simp_all
  from wait_while_ok [OF this P, of "handshaking P"] Inr show ?thesis
    by (cases "wait_while P (handshaking P) t") (auto simp: client_Connect_eq connect_loop_def split: sum.splits)
qed

section \<open>Disconnecting\<close>

lemma send_close_ok:
  assumes P: "cl_lib_ok P" and q: "quiescent s" and w: "cl_session (env s) = None \<or> cl_writer (env s) \<noteq> None"
  shows "case (if connected P (env s) then on_session P (cl_SendConnectionClose P) s else Inr s) of Inl e \<Rightarrow> benign e
    | Inr t \<Rightarrow> quiescent t \<and> cl_fd (env t) = cl_fd (env s) \<and> registry t = registry s \<and>
        (cl_session (env t) = None \<or> cl_writer (env t) \<noteq> None)"
proof (cases "connected P (env s)")
  case True
  then have "has_session (env s)" using w by (auto simp: connected_def has_session_def split: option.splits)
  from quiescent_on_session [OF q this cl_lib_okD(4) [OF P], of P] True show ?thesis
    by (auto simp: same_client_def has_session_def split: sum.splits)
qed (use q w in simp)

lemma client_unregister_ok:
  assumes t: "quiescent t"
  shows "case UnregisterFD (client_epoll P) fd t of Inl e \<Rightarrow> benign e
    | Inr u \<Rightarrow> quiescent u \<and> registry u = (registry t)(fd := None) \<and> (\<exists>n. env u = put_cl_net n (env t))"
proof (cases "UnregisterFD (client_epoll P) fd t")
  case (Inl e)
  with quiescent_unregister [OF t, where N = "client_epoll P" and fd = fd] show ?thesis by simp
next
  case u: (Inr u)
  note U = quiescent_unregister [OF t, where N = "client_epoll P" and fd = fd]
  obtain w where w: "snd (netdpsock_epoll_ctl (client_epoll P) (epoll_fd t) EPOLL_CTL_DEL fd 0 (env t)) = put_cl_net w (env t)"
    using client_epoll_world [of P "epoll_fd t" EPOLL_CTL_DEL fd 0 "env t"] by blast
  have "\<exists>n. env u = put_cl_net n (env t)"
  proof (cases "registry t fd = None")
    case True
    with u U show ?thesis by (auto intro!: exI [of _ "cl_net (env t)"])
  next
    case False
    with u U w show ?thesis by auto
  qed
  with u U show ?thesis by simp
qed

lemma client_Disconnect_ok:
  assumes P: "cl_lib_ok P" and q: "quiescent s" and w: "cl_session (env s) = None \<or> cl_writer (env s) \<noteq> None"
  shows "case client_Disconnect P s of Inl e \<Rightarrow> benign e
    | Inr s' \<Rightarrow> quiescent s' \<and> cl_fd (env s') \<le> -1 \<and> \<not> cl_initialized (env s') \<and>
        registry s' = (if -1 < cl_fd (env s) then (registry s)(cl_fd (env s) := None) else registry s) \<and>
        (cl_session (env s') = None \<or> cl_writer (env s') \<noteq> None) \<and>
        (\<not> connected P (env s') \<longrightarrow> client_Disconnect P s' = Inr s')"
proof (cases "if connected P (env s) then on_session P (cl_SendConnectionClose P) s else Inr s")
  case (Inl e)
  with send_close_ok [OF assms] show ?thesis by (auto simp: client_Disconnect_def)
next
  case (Inr t)
  with send_close_ok [OF assms] have t: "quiescent t" "cl_fd (env t) = cl_fd (env s)" "registry t = registry s"
    "cl_session (env t) = None \<or> cl_writer (env t) \<noteq> None" by simp_all
  have twice: "client_Disconnect P x = Inr x" if "cl_fd (env x) \<le> -1" "\<not> cl_initialized (env x)" "\<not> connected P (env x)" for x
    using that by (simp add: client_Disconnect_def)
  show ?thesis
  proof (cases "-1 < cl_fd (env s)")
    case False
    let ?s' = "t\<lparr>env := (env t)\<lparr>cl_initialized := False\<rparr>\<rparr>"
    have "client_Disconnect P s = Inr ?s'" using Inr False t(2) by (simp add: client_Disconnect_def)
    with False t quiescent_env [OF t(1)] twice [of ?s'] show ?thesis by simp
  next
    case True
    note U = client_unregister_ok [OF t(1), where P = P and fd = "cl_fd (env t)"]
    show ?thesis
    proof (cases "UnregisterFD (client_epoll P) (cl_fd (env t)) t")
      case (Inl e)
      with U Inr True t(2) show ?thesis by (auto simp: client_Disconnect_def)
    next
      case u: (Inr u)
      with U t obtain n where qu: "quiescent u" "registry u = (registry s)(cl_fd (env s) := None)"
        and n: "env u = put_cl_net n (env t)" by auto
      obtain n' where n': "snd (on_cl_net (netdpsock_close (cv_epoll P) (cl_fd (env u))) (env u)) = put_cl_net n' (env u)"
        by (auto simp: on_cl_net_def on_part_def split_beta)
      let ?s' = "u\<lparr>env := (put_cl_net n' (env u))\<lparr>cl_fd := -1, cl_initialized := False\<rparr>\<rparr>"
      have "client_Disconnect P s = Inr ?s'" using Inr True t(2) u n' by (simp add: client_Disconnect_def split_beta)
      with True t n qu quiescent_env [OF qu(1)] twice [of ?s'] show ?thesis by simp
    qed
  qed
qed

lemma QuicClient_delete_ok:
  assumes P: "cl_lib_ok P" and q: "quiescent s" and w: "cl_session (env s) = None \<or> cl_writer (env s) \<noteq> None"
  shows "case QuicClient_delete P s of Inl e \<Rightarrow> benign e
    | Inr s' \<Rightarrow> quiescent s' \<and> cl_fd (env s') \<le> -1 \<and> cl_session (env s') = None \<and>
        registry s' = (if -1 < cl_fd (env s) then (registry s)(cl_fd (env s) := None) else registry s) \<and>
        (\<exists>t. client_Disconnect P s = Inr t \<and> all_alarms s' = all_alarms t - client_alarms P (env t))"
proof (cases "client_Disconnect P s")
  case (Inl e)
  with client_Disconnect_ok [OF assms] show ?thesis by (simp add: QuicClient_delete_def)
next
  case (Inr t)
  with client_Disconnect_ok [OF assms] have t: "quiescent t" "cl_fd (env t) \<le> -1"
    "registry t = (if -1 < cl_fd (env s) then (registry s)(cl_fd (env s) := None) else registry s)" by simp_all
  from delete_session_ok [OF t(1), of P] obtain u where "delete_session P t = Inr u" "quiescent u" "env u = env t"
    "registry u = registry t" "all_alarms u = all_alarms t - client_alarms P (env t)" by blast
  with Inr t quiescent_env [of u] show ?thesis by (simp add: QuicClient_delete_def)
qed

section \<open>A small client library\<close>

text \<open>
  On the network of \<open>net_sock\<close>. A session counts the packets it received; the handshake is done once the
  connection has begun, and the one alarm fires without effect. Sending a close disconnects.
\<close>

record small_session =
  ss_packets :: nat
  ss_started :: bool
  ss_closed :: bool
  ss_streams :: nat

definition small_act ::
  "(small_session \<Rightarrow> small_session) \<Rightarrow> (small_session, int, unit, net) conn_act" where
  "small_act f ses x = Inr (f ses, x, [])"

definition small_lib :: "(int, int, int, nat, string, 32 word \<times> 32 word, small_session, unit, net) cl_lib" where
  "small_lib = \<lparr>cv_epoll = net_epoll, cv_net = net_sock, cv_ep = net_endpoint, cv_time = int_time, cv_config = net_config,
     cv_kDefaultSocketReceiveBuffer = 262144, cv_kMaxPacketSize = 1452,
     new_session = (\<lambda>config address i versions x. (\<lparr>ss_packets = 0, ss_started = False, ss_closed = False, ss_streams = 0\<rparr>, x)),
     ses_Initialize = (\<lambda>i. small_act id), crypto_CryptoConnect = small_act (ss_started_update (\<lambda>_. True)),
     IsEncryptionEstablished = ss_started, conn_connected = Not \<circ> ss_closed,
     cl_ProcessUdpPacket = (\<lambda>self peer p. small_act (ss_packets_update Suc)), cl_OnCanWrite = small_act id,
     cl_SendConnectionClose = small_act (ss_closed_update (\<lambda>_. True)), cl_alarm_Fire = (\<lambda>al. small_act id),
     ses_alarms = (\<lambda>ses. [()]), GetNextStreamId = (\<lambda>ses. (of_nat (2 * ss_streams ses + 5), ss_streams_update Suc ses)),
     ActivateStream = (\<lambda>i. id), WriteOrBufferData = (\<lambda>stream data fin. small_act id),
     read_side_closed = (\<lambda>i ses. True)\<rparr>"

lemma small_new:
  "new_session small_lib c a i v x = (\<lparr>ss_packets = 0, ss_started = False, ss_closed = False, ss_streams = 0\<rparr>, x)"
  "ses_Initialize small_lib i = small_act id" "crypto_CryptoConnect small_lib = small_act (ss_started_update (\<lambda>_. True))"
  "IsEncryptionEstablished small_lib = ss_started" "conn_connected small_lib = Not \<circ> ss_closed"
  "cl_SendConnectionClose small_lib = small_act (ss_closed_update (\<lambda>_. True))"
  "WriteOrBufferData small_lib stream data fin = small_act id" "read_side_closed small_lib stream ses = True"
  by (simp_all add: small_lib_def)

lemma small_lib_ok: "cl_lib_ok small_lib"
proof -
  have "length (tl ps) < length ps" if "0 \<le> rr_bytes (net_recv ps)" for ps
    using that by (cases ps) (simp_all add: net_recv_def)
  then have "client_backlog_ok small_lib (\<lambda>(e, ps). length ps)"
    by (auto simp: client_backlog_ok_def small_lib_def small_act_def net_sock_def)
  moreover have "cl_ranks small_lib (\<lambda>_ _. 0)" by (simp add: cl_ranks_def small_lib_def small_act_def)
  ultimately have "\<exists>backlog. client_backlog_ok small_lib backlog" "\<exists>rank. cl_ranks small_lib rank" by blast+
  then show ?thesis unfolding cl_lib_ok_def
    by (simp add: act_benign_def) (simp add: small_lib_def small_act_def)
qed

lemma small_client:
  obtains s0 s where "EpollServer_new 3 (\<lambda>_. EpollAlarm_new) q0 = Inr s0"
    "client_Initialize small_lib (QuicClient_new small_lib 80 ''host'' [1] (0, 0) s0) = Inr (True, s)"
    "quiescent s0" "quiescent s" "cl_fd (env s) = 5" "cl_session (env s) = None" "cl_writer (env s) = None"
    "registry s = [5 \<mapsto> (This_client, kEpollFlags)]"
proof -
  obtain s0 where s0: "EpollServer_new 3 (\<lambda>_. EpollAlarm_new) q0 = Inr (s0 :: (client_cb, unit, _) es)"
    by (simp add: EpollServer_new_def)
  note q0 = quiescent_init [OF s0]
  let ?c = "QuicClient_new small_lib 80 ''host'' [1] (0, 0) s0"
  have q: "quiescent ?c" unfolding QuicClient_new_def by (rule quiescent_env [OF q0])
  have e: "cb_map s0 = []" using s0 by (auto simp: EpollServer_new_def split: if_splits)
  obtain s where s: "client_Initialize small_lib ?c = Inr (True, s)" "cl_fd (env s) = 5"
    by (simp add: client_Initialize_def CreateUDPSocket_def client_bind_def small_lib_def QuicClient_new_def set_timeout_in_us_def
        net_config_def net_endpoint_def net_sock_def on_cl_net_def on_part_def Let_def split_beta SetReceiveBufferSize_def SetSendBufferSize_def
        SetGetAddressInfo_def socket_constants RegisterFD_def e AddFD_def client_epoll_def lift_epoll_def net_epoll_def)
  have "registry ?c = Map.empty" by (rule ext) (simp add: registry_def QuicClient_new_def e)
  with client_Initialize_ok [OF q, of small_lib] s have "quiescent s" "registry s = [5 \<mapsto> (This_client, kEpollFlags)]"
    "cl_session (env s) = None" "cl_writer (env s) = None" by (simp_all add: QuicClient_new_def)
  with that s0 q0 s show ?thesis by blast
qed

lemma small_unregister:
  assumes "quiescent s"
  shows "\<exists>u n. UnregisterFD (client_epoll small_lib) fd s = Inr u \<and> env u = put_cl_net n (env s)"
proof (cases "registry s fd")
  case None
  obtain rs ts where w: "es_wf s rs ts" using assms by (auto simp: quiescent_def server_ok_def es_inv_def)
  have "env s = put_cl_net (cl_net (env s)) (env s)" by simp
  with UnregisterFD_unknown [OF w None, of "client_epoll small_lib"] show ?thesis by blast
next
  case (Some x)
  obtain c m where x: "registry s fd = Some (c, m)" using Some by (cases x) simp
  obtain rs ts where w: "es_wf s rs ts" using assms by (auto simp: quiescent_def server_ok_def es_inv_def)
  let ?ctl = "netdpsock_epoll_ctl (client_epoll small_lib) (epoll_fd s) EPOLL_CTL_DEL fd 0 (env s)"
  have c: "?ctl = (0, snd ?ctl)"
    by (simp add: client_epoll_def lift_epoll_def on_part_def small_lib_def net_epoll_def split_beta)
  obtain n where n: "snd ?ctl = put_cl_net n (env s)"
    using client_epoll_world [of small_lib "epoll_fd s" EPOLL_CTL_DEL fd 0 "env s"] by blast
  from UnregisterFD_outcome [OF w x c] obtain u where "UnregisterFD (client_epoll small_lib) fd s = Inr u"
    "env u = put_cl_net n (env s)" by (force simp: outcome_is_def n)
  then show ?thesis by blast
qed

lemma small_disconnect:
  assumes q: "quiescent s" and w: "cl_session (env s) = None \<or> cl_writer (env s) \<noteq> None"
  obtains s' where "client_Disconnect small_lib s = Inr s'" "cl_session (env s') = None \<longleftrightarrow> cl_session (env s) = None"
    "cl_writer (env s') = cl_writer (env s)"
proof -
  obtain t where t: "(if connected small_lib (env s) then on_session small_lib (cl_SendConnectionClose small_lib) s else Inr s) = Inr t"
    "cl_session (env t) = None \<longleftrightarrow> cl_session (env s) = None" "cl_writer (env t) = cl_writer (env s)" "quiescent t"
  proof (cases "connected small_lib (env s)")
    case True
    then obtain ses wr where "cl_session (env s) = Some ses" "cl_writer (env s) = Some wr"
      using w by (auto simp: connected_def split: option.splits)
    with True that quiescent_env [OF q] show ?thesis by (simp add: on_session_def small_new small_act_def)
  qed (use q that in simp)
  from small_unregister [OF t(4), of "cl_fd (env t)"] obtain u n where
    u: "UnregisterFD (client_epoll small_lib) (cl_fd (env t)) t = Inr u" "env u = put_cl_net n (env t)" by blast
  show ?thesis
  proof (cases "-1 < cl_fd (env t)")
    case False
    then have "client_Disconnect small_lib s = Inr (t\<lparr>env := (env t)\<lparr>cl_initialized := False\<rparr>\<rparr>)"
      using t(1) by (simp add: client_Disconnect_def)
    from that [OF this] t(2,3) show ?thesis by simp
  next
    case True
    let ?q = "snd (on_cl_net (netdpsock_close (cv_epoll small_lib) (cl_fd (env u))) (env u))"
    have "client_Disconnect small_lib s = Inr (u\<lparr>env := ?q\<lparr>cl_fd := -1, cl_initialized := False\<rparr>\<rparr>)"
      using t(1) u(1) True by (simp add: client_Disconnect_def split_beta)
    from that [OF this] t(2,3) u(2) show ?thesis by (simp add: on_cl_net_def on_part_def split_beta)
  qed
qed

lemma small_connect:
  assumes "cl_session (env s) = None"
  obtains t ses where "begin_connect small_lib s = Inr t" "client_Connect small_lib s = Some (Inr (True, t))"
    "cl_session (env t) = Some ses" "cl_writer (env t) \<noteq> None" "\<not> ss_closed ses"
proof -
  let ?ses = "\<lparr>ss_packets = 0, ss_started = True, ss_closed = False, ss_streams = 0\<rparr>"
  let ?t = "s\<lparr>env := (env s)\<lparr>cl_session := Some ?ses, cl_writer := Some (QuicDefaultPacketWriter_new (cl_fd (env s)))\<rparr>\<rparr>"
  have b: "begin_connect small_lib s = Inr ?t"
    using assms by (simp add: begin_connect_def start_session_def delete_session_def InitializeSession_def CryptoConnect_def
        on_session_def small_new small_act_def Let_def)
  then have "client_Connect small_lib s = Some (Inr (True, ?t))"
    by (simp add: client_Connect_eq connect_loop_def wait_while.simps [of _ _ ?t] handshaking_def connected_def small_new)
  from that [OF b this] show ?thesis by simp
qed

section \<open>Properties\<close>



text \<open>
  C8: Connect returns, never crashes, and its result is the truth about the connection: it is true
  exactly when the connection is up, and then the encryption is established. It can fail to return only when
  the handshake goes on for ever: every number of rounds of the event loop leaves the client still
  handshaking. It stops only at a CHECK or LOG(FATAL).
\<close>

theorem client_connect_result:
  assumes "cl_lib_ok P" "quiescent s"
  shows "case client_Connect P s of
      None \<Rightarrow> \<exists>t. begin_connect P s = Inr t \<and> waits_forever P (handshaking P) t
    | Some (Inl e) \<Rightarrow> benign e
    | Some (Inr (ok, s')) \<Rightarrow> quiescent s' \<and>
        (\<exists>ses. cl_session (env s') = Some ses \<and> ok = conn_connected P ses \<and> (\<not> ok \<or> IsEncryptionEstablished P ses))"
  using client_Connect_ok [OF assms]
  by (auto simp: has_session_def connected_def handshaking_def split: option.splits sum.splits)

theorem client_connect_result_witness:
  "\<exists>s s' ses. client_Connect small_lib s = Some (Inr (True, s')) \<and> quiescent s' \<and> cl_session (env s') = Some ses \<and>
     IsEncryptionEstablished small_lib ses"
proof -
  obtain s0 s where "client_Initialize small_lib (QuicClient_new small_lib 80 ''host'' [1] (0, 0) s0) = Inr (True, s)"
    and s: "quiescent s" "cl_session (env s) = None" by (rule small_client)
  obtain t where "client_Connect small_lib s = Some (Inr (True, t))" by (rule small_connect [OF s(2)])
  with client_connect_result [OF small_lib_ok s(1)] show ?thesis by auto
qed

text \<open>
  C15: Disconnect undoes Initialize: the descriptor's registration is removed and no other, the
  descriptor is forgotten and the client no longer counts as initialized. Once the connection is closed, a
  second Disconnect, such as the destructor's, changes nothing.
\<close>

theorem client_disconnect_effect:
  assumes "cl_lib_ok P" "quiescent s" "cl_session (env s) = None \<or> cl_writer (env s) \<noteq> None"
  shows "case client_Disconnect P s of Inl e \<Rightarrow> benign e
    | Inr s' \<Rightarrow> quiescent s' \<and> cl_fd (env s') \<le> -1 \<and> \<not> cl_initialized (env s') \<and>
        registry s' = (if -1 < cl_fd (env s) then (registry s)(cl_fd (env s) := None) else registry s) \<and>
        (connected P (env s') \<or> client_Disconnect P s' = Inr s')"
  using client_Disconnect_ok [OF assms] by (auto split: sum.splits)

theorem client_disconnect_effect_witness:
  "\<exists>s s'. registry s = [5 \<mapsto> (This_client, kEpollFlags)] \<and> client_Disconnect small_lib s = Inr s' \<and>
     quiescent s' \<and> registry s' = Map.empty \<and> client_Disconnect small_lib s' = Inr s'"
proof -
  obtain s0 s where "client_Initialize small_lib (QuicClient_new small_lib 80 ''host'' [1] (0, 0) s0) = Inr (True, s)"
    and s: "quiescent s" "cl_fd (env s) = 5" "cl_session (env s) = None" "registry s = [5 \<mapsto> (This_client, kEpollFlags)]"
    by (rule small_client)
  from small_disconnect [OF s(1)] s(3) obtain s' where s': "client_Disconnect small_lib s = Inr s'" "cl_session (env s') = None"
    by auto
  with client_disconnect_effect [OF small_lib_ok s(1)] s(2-4) show ?thesis by (auto simp: connected_def fun_upd_idem)
qed

end
