(* ===== verification/Perf_Mains.thy ===== *)
theory Perf_Mains
  imports Perf_Options Client_Properties
begin

text \<open>
  \<open>main\<close> of quic_perf_server.cc and quic_perf_client.cc: what the programs do with the server and the client.
  \<open>netdpsock_init\<close> and the default QuicConfig, QuicServerId and version list of libquic are parameters. A
  program that ends gives its exit status; leaving by SIGINT is not modelled.
\<close>

section \<open>The server program\<close>

text \<open>Up to the endless loop of \<open>WaitForEvents\<close>: the exit status or the listening server.\<close>

definition perf_server_start ::
  "('ep, 't, 'd, 'v, 'c, 'k, 'w) srv_lib \<Rightarrow> ('w \<Rightarrow> int \<times> 'w) \<Rightarrow> 'c \<Rightarrow> 'v list \<Rightarrow> int \<Rightarrow> int \<Rightarrow> string \<Rightarrow> string list \<Rightarrow> 'w \<Rightarrow>
   (int + ('ep, 't, 'd, 'v, 'c, 'k, 'w) srv_es) res" where
  "perf_server_start P netdpsock_init config versions epfd n0 prog args w =
     (case server_options prog args of
        Inl (_, code) \<Rightarrow> Inr (Inl code)
      | Inr (port_number, packet_num) \<Rightarrow>
          let (rc, w) = netdpsock_init w
          in if rc \<noteq> 0 then Inr (Inl 1)
             else
               let listen_address = IPEndPoint_new (sv_ep P) [0, 0, 0, 0] (word_of_int port_number)
               in rbind (QuicServer_new P config versions epfd n0 w) (\<lambda>s.
                  rbind (Listen P listen_address (server_SetPacketNum packet_num s)) (\<lambda>(ok, s).
                  Inr (if ok then Inr s else Inl 1))))"

text \<open>\<open>while (1)\<close>: the loop gives no result; it ends only where a round does.\<close>

partial_function (option) serve_loop ::
  "('ep, 't, 'd, 'v, 'c, 'k, 'w) srv_lib \<Rightarrow> ('ep, 't, 'd, 'v, 'c, 'k, 'w) srv_es \<Rightarrow> int outcome" where
  "serve_loop L s =
     Option.bind (server_WaitForEvents L s) (\<lambda>r. case r of Inl e \<Rightarrow> Some (Inl e) | Inr s \<Rightarrow> serve_loop L s)"

definition perf_server_main ::
  "('ep, 't, 'd, 'v, 'c, 'k, 'w) srv_lib \<Rightarrow> ('w \<Rightarrow> int \<times> 'w) \<Rightarrow> 'c \<Rightarrow> 'v list \<Rightarrow> int \<Rightarrow> int \<Rightarrow> string \<Rightarrow> string list \<Rightarrow> 'w \<Rightarrow>
   int outcome" where
  "perf_server_main P netdpsock_init config versions epfd n0 prog args w =
     obind (Some (perf_server_start P netdpsock_init config versions epfd n0 prog args w)) (\<lambda>started.
     case started of Inl code \<Rightarrow> Some (Inr code) | Inr s \<Rightarrow> serve_loop P s)"

section \<open>The client program\<close>

definition reading :: "('ep, 't, 'd, 'v, 'i, 'c, 's, 'al, 'w) cl_lib \<Rightarrow> 32 word \<Rightarrow> ('ep, 'v, 'i, 'c, 's, 'w) cli \<Rightarrow> bool" where
  "reading P stream q = (case cl_session q of None \<Rightarrow> False | Some ses \<Rightarrow> \<not> read_side_closed P stream ses)"

text \<open>
  One pass through the loop: \<open>Some code\<close> when the program ends. Leaving the loop's body destroys the client.
\<close>

definition perf_client_pass ::
  "('ep, 't, 'd, 'v, 'i, 'c, 's, 'al, 'w) cl_lib \<Rightarrow> 'ep \<Rightarrow> 'i \<Rightarrow> 'v list \<Rightarrow> 'c \<Rightarrow> ('ep, 'v, 'i, 'c, 's, 'al, 'w) cli_es \<Rightarrow>
   (int option \<times> ('ep, 'v, 'i, 'c, 's, 'al, 'w) cli_es) outcome" where
  "perf_client_pass P server_address server_id versions config s =
     (let leave = (\<lambda>code s. Some (rbind (QuicClient_delete P s) (\<lambda>s. Inr (code, s))));
          s = QuicClient_new P server_address server_id versions config s
      in obind (Some (client_Initialize P s)) (\<lambda>(ok, s).
         if \<not> ok then leave (Some 1) s
         else obind (client_Connect P s) (\<lambda>(ok, s).
              if \<not> ok then leave (Some 1) s
              else let (stream, s) = CreateClientStream P s
                   in case stream of
                        None \<Rightarrow> Some (Inl Null_deref)
                      | Some stream \<Rightarrow>
                          obind (Some (client_WriteStringPiece P stream ''client_end'' True s)) (\<lambda>s.
                          obind (wait_while P (reading P stream) s) (\<lambda>s.
                          obind (Some (client_Disconnect P s)) (leave None))))))"

partial_function (option) perf_client_loop ::
  "('ep, 't, 'd, 'v, 'i, 'c, 's, 'al, 'w) cl_lib \<Rightarrow> 'ep \<Rightarrow> 'i \<Rightarrow> 'v list \<Rightarrow> 'c \<Rightarrow> ('ep, 'v, 'i, 'c, 's, 'al, 'w) cli_es \<Rightarrow>
   int outcome" where
  "perf_client_loop L server_address server_id versions config s =
     Option.bind (perf_client_pass L server_address server_id versions config s) (\<lambda>r.
     case r of
       Inl e \<Rightarrow> Some (Inl e)
     | Inr (code, s) \<Rightarrow>
         (case code of Some n \<Rightarrow> Some (Inr n) | None \<Rightarrow> perf_client_loop L server_address server_id versions config s))"

text \<open>\<open>server_id\<close> makes a QuicServerId of host and port; \<open>junk\<close> is what the address bytes hold before \<open>sscanf\<close>.\<close>

definition perf_client_main ::
  "('ep, 't, 'd, 'v, 'i, 'c, 's, 'al, 'w) cl_lib \<Rightarrow> ('w \<Rightarrow> int \<times> 'w) \<Rightarrow> (string \<Rightarrow> int \<Rightarrow> 'i) \<Rightarrow> 'v list \<Rightarrow> 'c \<Rightarrow> int \<Rightarrow>
   8 word list \<Rightarrow> ('ep, 'v, 'i, 'c, 's, 'w) cli \<Rightarrow> string \<Rightarrow> string list \<Rightarrow> int outcome" where
  "perf_client_main P netdpsock_init server_id versions config epfd junk q prog args =
     (case client_options prog args of
        Inl (_, code) \<Rightarrow> Some (Inr code)
      | Inr (port_number, ip_str) \<Rightarrow>
          let (rc, w) = netdpsock_init (cl_net q)
          in if rc \<noteq> 0 then Some (Inr 1)
             else
               let server_address = IPEndPoint_new (cv_ep P) (client_ip_bytes junk ip_str) (word_of_int port_number)
               in obind (Some (EpollServer_new epfd (\<lambda>_. EpollAlarm_new) (put_cl_net w q))) (\<lambda>s.
                  perf_client_loop P server_address (server_id ip_str port_number) versions config s))"

section \<open>Lemmas\<close>

lemma leave_ok:
  assumes "cl_lib_ok P" "quiescent s" "cl_session (env s) = None \<or> cl_writer (env s) \<noteq> None"
  shows "returns_ok (\<lambda>(c, s'). c = code \<and> quiescent s' \<and> cl_session (env s') = None \<and> cl_fd (env s') \<le> -1)
    (Some (rbind (QuicClient_delete P s) (\<lambda>s. Inr (code, s))))"
  using QuicClient_delete_ok [OF assms] by (cases "QuicClient_delete P s") simp_all

lemma write_and_wait_ok:
  assumes P: "cl_lib_ok P" and s: "quiescent s" "has_session (env s)"
  shows "case obind (Some (client_WriteStringPiece P stream data fin s)) (wait_while P (reading P stream)) of
      None \<Rightarrow> \<exists>t. client_WriteStringPiece P stream data fin s = Inr t \<and> waits_forever P (reading P stream) t
    | Some (Inl e) \<Rightarrow> benign e
    | Some (Inr s') \<Rightarrow> quiescent s' \<and> has_session (env s')"
proof -
  have W: "case client_WriteStringPiece P stream data fin s of Inl e \<Rightarrow> benign e
    | Inr t \<Rightarrow> quiescent t \<and> has_session (env t)"
    using quiescent_on_session [OF s cl_lib_okD(7) [OF P, of stream data fin], of P]
    by (auto simp: client_WriteStringPiece_def split: sum.splits)
  show ?thesis
  proof (cases "client_WriteStringPiece P stream data fin s")
    case (Inr t)
    with W have t: "quiescent t" "has_session (env t)" by simp_all
    from wait_while_ok [OF t P, of "reading P stream"] Inr t show ?thesis
      by (cases "wait_while P (reading P stream) t") (auto split: sum.splits)
  qed (use W in simp)
qed

lemma CreateClientStream_ok:
  assumes "quiescent s" "has_session (env s)" "connected P (env s)"
  obtains id s' where "CreateClientStream P s = (Some id, s')" "quiescent s'" "has_session (env s')"
proof -
  obtain ses where ses: "cl_session (env s) = Some ses" "conn_connected P ses"
    using assms(3) by (auto simp: connected_def split: option.splits)
  obtain id ses' where "GetNextStreamId P ses = (id, ses')" by (cases "GetNextStreamId P ses")
  with ses that [of id] quiescent_env [OF assms(1)] assms(2) show ?thesis
    by (simp add: CreateClientStream_def has_session_def)
qed

text \<open>A pass that does not end: it waits for a handshake, or for data, that never comes.\<close>

definition pass_stuck ::
  "('ep, 't, 'd, 'v, 'i, 'c, 's, 'al, 'w) cl_lib \<Rightarrow> ('ep, 'v, 'i, 'c, 's, 'al, 'w) cli_es \<Rightarrow> bool" where
  "pass_stuck P s \<longleftrightarrow>
     (\<exists>s1 t. client_Initialize P s = Inr (True, s1) \<and>
        (begin_connect P s1 = Inr t \<and> waits_forever P (handshaking P) t \<or>
         (\<exists>s2 stream s3. client_Connect P s1 = Some (Inr (True, s2)) \<and> CreateClientStream P s2 = (Some stream, s3) \<and>
            client_WriteStringPiece P stream ''client_end'' True s3 = Inr t \<and> waits_forever P (reading P stream) t)))"

definition pass_ended :: "int option \<Rightarrow> ('ep, 'v, 'i, 'c, 's, 'al, 'w) cli_es \<Rightarrow> bool" where
  "pass_ended code s' \<longleftrightarrow>
     (code = None \<or> code = Some 1) \<and> quiescent s' \<and> cl_session (env s') = None \<and> cl_fd (env s') \<le> -1"

lemma leave_ended:
  assumes "cl_lib_ok P" "quiescent s" "cl_session (env s) = None \<or> cl_writer (env s) \<noteq> None" "code = None \<or> code = Some 1"
  shows "returns_ok (\<lambda>(c, s'). pass_ended c s') (Some (rbind (QuicClient_delete P s) (\<lambda>s. Inr (code, s))))"
  by (rule returns_ok_mono [OF leave_ok [OF assms(1-3)]]) (use assms(4) in \<open>auto simp: pass_ended_def\<close>)

lemma transfer_ok:
  assumes P: "cl_lib_ok P" and s: "quiescent s" "has_session (env s)"
  shows "case obind (Some (client_WriteStringPiece P stream data fin s)) (\<lambda>s.
        obind (wait_while P (reading P stream) s) (\<lambda>s.
        obind (Some (client_Disconnect P s)) (\<lambda>s. Some (rbind (QuicClient_delete P s) (\<lambda>s. Inr (None, s)))))) of
      None \<Rightarrow> \<exists>t. client_WriteStringPiece P stream data fin s = Inr t \<and> waits_forever P (reading P stream) t
    | Some (Inl e) \<Rightarrow> benign e
    | Some (Inr (code, s')) \<Rightarrow> pass_ended code s'"
proof -
  let ?w = "obind (Some (client_WriteStringPiece P stream data fin s)) (wait_while P (reading P stream))"
  let ?last = "\<lambda>s. obind (Some (client_Disconnect P s)) (\<lambda>s. Some (rbind (QuicClient_delete P s) (\<lambda>s. Inr (None :: int option, s))))"
  note W = write_and_wait_ok [OF P s, of stream data fin]
  have fin: "returns_ok (\<lambda>(c, s'). pass_ended c s') (?last u)" if u: "quiescent u" "has_session (env u)" for u
  proof -
    have "cl_session (env u) = None \<or> cl_writer (env u) \<noteq> None" using u(2) by (simp add: has_session_def)
    note D = client_Disconnect_ok [OF P u(1) this]
    show ?thesis
    proof (cases "client_Disconnect P u")
      case (Inr v)
      with D have "quiescent v" "cl_session (env v) = None \<or> cl_writer (env v) \<noteq> None" by auto
      from leave_ended [OF P this, of None] Inr show ?thesis by simp
    qed (use D in simp)
  qed
  have "obind (Some (client_WriteStringPiece P stream data fin s)) (\<lambda>s. obind (wait_while P (reading P stream) s) ?last) =
      obind ?w ?last" by (simp add: obind_assoc)
  moreover have "case obind ?w ?last of
      None \<Rightarrow> \<exists>t. client_WriteStringPiece P stream data fin s = Inr t \<and> waits_forever P (reading P stream) t
    | Some (Inl e) \<Rightarrow> benign e
    | Some (Inr (code, s')) \<Rightarrow> pass_ended code s'"
  proof (cases ?w)
    case None
    with W show ?thesis by simp
  next
    case (Some r)
    show ?thesis
    proof (cases r)
      case (Inl e)
      with Some W show ?thesis by simp
    next
      case (Inr u)
      with Some W have "quiescent u" "has_session (env u)" by simp_all
      from fin [OF this] show ?thesis unfolding Some Inr by (cases rule: returns_okE) auto
    qed
  qed
  ultimately show ?thesis by (simp only:)
qed

lemma outcome_case_mono:
  "(case r of None \<Rightarrow> A | Some (Inl e) \<Rightarrow> F e | Some (Inr x) \<Rightarrow> G x) \<Longrightarrow> (A \<Longrightarrow> B) \<Longrightarrow>
   (case r of None \<Rightarrow> B | Some (Inl e) \<Rightarrow> F e | Some (Inr x) \<Rightarrow> G x)"
  by (cases r) simp_all

lemma stop_ended:
  assumes "cl_lib_ok P" "quiescent u" "cl_session (env u) = None \<or> cl_writer (env u) \<noteq> None"
  shows "case rbind (QuicClient_delete P u) (\<lambda>s. Inr (Some 1, s)) of
      Inl e \<Rightarrow> benign e | Inr (code, s') \<Rightarrow> pass_ended code s'"
  using leave_ended [OF assms, of "Some 1"] by (cases rule: returns_okE) auto

lemma pass_connected_ok:
  assumes P: "cl_lib_ok P"
    and init: "client_Initialize P (QuicClient_new P address sid versions config s) = Inr (True, s1)"
    and conn: "client_Connect P s1 = Some (Inr (True, s2))"
    and s2: "quiescent s2" "has_session (env s2)" "connected P (env s2)"
  shows "case perf_client_pass P address sid versions config s of
      None \<Rightarrow> pass_stuck P (QuicClient_new P address sid versions config s)
    | Some (Inl e) \<Rightarrow> benign e
    | Some (Inr (code, s')) \<Rightarrow> pass_ended code s'"
proof -
  from s2 obtain stream s3 where s3: "CreateClientStream P s2 = (Some stream, s3)" "quiescent s3" "has_session (env s3)"
    by (rule CreateClientStream_ok)
  have eq: "perf_client_pass P address sid versions config s =
      obind (Some (client_WriteStringPiece P stream ''client_end'' True s3)) (\<lambda>s.
      obind (wait_while P (reading P stream) s) (\<lambda>s.
      obind (Some (client_Disconnect P s)) (\<lambda>s. Some (rbind (QuicClient_delete P s) (\<lambda>s. Inr (None, s))))))"
    using init conn s3(1) by (simp add: perf_client_pass_def Let_def)
  have "pass_stuck P (QuicClient_new P address sid versions config s)"
    if "\<exists>t. client_WriteStringPiece P stream ''client_end'' True s3 = Inr t \<and> waits_forever P (reading P stream) t"
    using that init conn s3(1) unfolding pass_stuck_def by blast
  then show ?thesis unfolding eq by (rule outcome_case_mono [OF transfer_ok [OF P s3(2,3)]])
qed

lemma pass_initialized_ok:
  assumes P: "cl_lib_ok P" and q: "quiescent s1"
    and init: "client_Initialize P (QuicClient_new P address sid versions config s) = Inr (True, s1)"
  shows "case perf_client_pass P address sid versions config s of
      None \<Rightarrow> pass_stuck P (QuicClient_new P address sid versions config s)
    | Some (Inl e) \<Rightarrow> benign e
    | Some (Inr (code, s')) \<Rightarrow> pass_ended code s'"
proof (cases "client_Connect P s1")
  case None
  with client_Connect_ok [OF P q] init have "pass_stuck P (QuicClient_new P address sid versions config s)"
    unfolding pass_stuck_def by auto
  with None init show ?thesis by (simp add: perf_client_pass_def Let_def)
next
  case (Some r)
  note C = client_Connect_ok [OF P q, unfolded Some]
  show ?thesis
  proof (cases r)
    case (Inl e)
    with Some C init show ?thesis by (simp add: perf_client_pass_def Let_def)
  next
    case r: (Inr y)
    obtain ok s2 where y: "y = (ok, s2)" by (cases y)
    with C r have s2: "quiescent s2" "has_session (env s2)" "ok \<Longrightarrow> connected P (env s2)" by simp_all
    show ?thesis
    proof (cases ok)
      case True
      with Some r y s2 show ?thesis by (intro pass_connected_ok [OF P init]) simp_all
    next
      case False
      with stop_ended [OF P s2(1)] s2(2) Some r y init show ?thesis
        by (simp add: perf_client_pass_def Let_def has_session_def split: sum.splits)
    qed
  qed
qed

lemma pass_ok:
  assumes P: "cl_lib_ok P" and q: "quiescent s"
  shows "case perf_client_pass P address sid versions config s of
      None \<Rightarrow> pass_stuck P (QuicClient_new P address sid versions config s)
    | Some (Inl e) \<Rightarrow> benign e
    | Some (Inr (code, s')) \<Rightarrow> pass_ended code s'"
proof -
  let ?s = "QuicClient_new P address sid versions config s"
  have qs: "quiescent ?s" unfolding QuicClient_new_def by (rule quiescent_env [OF q])
  have none: "cl_session (env ?s) = None" "cl_writer (env ?s) = None" by (simp_all add: QuicClient_new_def)
  note I = client_Initialize_ok [OF qs, of P]
  show ?thesis
  proof (cases "client_Initialize P ?s")
    case (Inl e)
    with I show ?thesis by (simp add: perf_client_pass_def)
  next
    case (Inr z)
    obtain ok s1 where z: "z = (ok, s1)" by (cases z)
    with I Inr none have s1: "quiescent s1" "cl_session (env s1) = None" by simp_all
    show ?thesis
    proof (cases ok)
      case True
      with Inr z show ?thesis by (intro pass_initialized_ok [OF P s1(1)]) simp
    next
      case False
      with stop_ended [OF P s1(1)] s1(2) Inr z show ?thesis by (simp add: perf_client_pass_def Let_def split: sum.splits)
    qed
  qed
qed

lemma perf_client_loop_result:
  assumes "perf_client_loop P address sid versions config s = Some r" "cl_lib_ok P" "quiescent s"
  shows "case r of Inl e \<Rightarrow> benign e | Inr code \<Rightarrow> code = 1"
proof -
  let ?Q = "\<lambda>P address sid versions config s r. cl_lib_ok P \<longrightarrow> quiescent s \<longrightarrow>
     (case r of Inl e \<Rightarrow> benign e | Inr code \<Rightarrow> code = 1)"
  have "?Q P address sid versions config s r"
  proof (rule perf_client_loop.raw_induct [where P = ?Q, OF _ assms(1)], intro impI, goal_cases)
    case (1 f P address sid versions config s y)
    from 1(2) obtain z where z: "perf_client_pass P address sid versions config s = Some z"
      "(case z of Inl e \<Rightarrow> Some (Inl e) | Inr (code, s) \<Rightarrow>
          (case code of Some n \<Rightarrow> Some (Inr n) | None \<Rightarrow> f P address sid versions config s)) = Some y"
      by (auto simp: bind_eq_Some_conv)
    note p = pass_ok [OF 1(3,4), of address sid versions config, unfolded z(1)]
    show ?case
    proof (cases z)
      case (Inl e)
      with z p show ?thesis by auto
    next
      case (Inr x)
      obtain code u where x: "x = (code, u)" by (cases x)
      with Inr p have u: "code = None \<or> code = Some 1" "quiescent u" by (simp_all add: pass_ended_def)
      show ?thesis
      proof (cases code)
        case None
        with z(2) Inr x have "f P address sid versions config u = Some y" by simp
        from 1(1) [rule_format, OF this 1(3) u(2)] show ?thesis .
      next
        case (Some n)
        with z(2) Inr x u show ?thesis by auto
      qed
    qed
  qed
  with assms show ?thesis by simp
qed

lemma client_options_status: "client_options prog args = Inl (msg, code) \<Longrightarrow> code = 1"
proof -
  have "client_opt_loop prog rs p = Inl (msg, code) \<Longrightarrow> code = 1" for rs p
    by (induction prog rs p rule: client_opt_loop.induct) (auto simp: client_usage_def usageError_def split: if_splits)
  then show "client_options prog args = Inl (msg, code) \<Longrightarrow> code = 1"
    by (cases "getopt_all ''p'' args"; cases "client_opt_loop prog (fst (getopt_all ''p'' args)) (-1)")
      (auto simp: client_options_def client_usage_def usageError_def split: if_splits list.splits)
qed

lemma perf_client_main_result:
  assumes P: "cl_lib_ok P"
  shows "case perf_client_main P init server_id versions config epfd junk q prog args of
      None \<Rightarrow> True | Some (Inl e) \<Rightarrow> benign e | Some (Inr code) \<Rightarrow> code = 1"
proof (cases "client_options prog args")
  case (Inl x)
  obtain msg code where "x = (msg, code)" by (cases x)
  with Inl client_options_status [of prog args msg code] show ?thesis by (simp add: perf_client_main_def)
next
  case (Inr x)
  obtain p ip where x: "x = (p, ip)" by (cases x)
  obtain rc w where i: "init (cl_net q) = (rc, w)" by (cases "init (cl_net q)")
  let ?a = "IPEndPoint_new (cv_ep P) (client_ip_bytes junk ip) (word_of_int p)"
  show ?thesis
  proof (cases "EpollServer_new epfd (\<lambda>_. EpollAlarm_new) (put_cl_net w q) :: (client_cb, 'h, _) es res")
    case (Inl e)
    then have "benign e" by (auto simp: EpollServer_new_def split: if_splits)
    with Inl Inr x i show ?thesis by (simp add: perf_client_main_def)
  next
    case s: (Inr s)
    note q = quiescent_init [OF s]
    show ?thesis
    proof (cases "perf_client_loop P ?a (server_id ip p) versions config s")
      case None
      with s Inr x i show ?thesis by (simp add: perf_client_main_def)
    next
      case (Some r)
      from perf_client_loop_result [OF Some P q] s Some Inr x i show ?thesis
        by (cases r) (simp_all add: perf_client_main_def)
    qed
  qed
qed

section \<open>Properties\<close>


text \<open>The second half of the server program: construct, listen and serve.\<close>

lemma serve_ok:
  fixes P :: "('ep, 't, 'd, 'v, 'c, 'k, 'w) srv_lib"
  assumes "server_lib_ok P" "versions \<noteq> []" and port: "\<And>a x. endpoint_port (sv_ep P) (IPEndPoint_new (sv_ep P) a x) = x"
  shows "case rbind (QuicServer_new P config versions epfd n0 w) (\<lambda>s.
        rbind (Listen P (IPEndPoint_new (sv_ep P) [0, 0, 0, 0] (word_of_int p)) (server_SetPacketNum n s)) (\<lambda>(ok, s).
        Inr (if ok then Inr s else Inl 1))) of
      Inl e \<Rightarrow> benign e
    | Inr (Inl code) \<Rightarrow> code = (1 :: int)
    | Inr (Inr s) \<Rightarrow> server_life P n s \<and> (p mod 65536 = 0 \<or> qs_port (env s) = p mod 65536) \<and>
        registry s (qs_fd (env s)) = Some (This_server, kEpollFlags) \<and> returns_ok (server_life P n) (server_WaitForEvents P s)"
proof (cases "QuicServer_new P config versions epfd n0 w")
  case (Inl e)
  then show ?thesis by (auto simp: QuicServer_new_def EpollServer_new_def Let_def split: if_splits prod.splits)
next
  case (Inr s0)
  note N = QuicServer_new_ok [OF Inr]
  let ?a = "IPEndPoint_new (sv_ep P) [0, 0, 0, 0] (word_of_int p)" and ?s = "server_SetPacketNum n s0"
  have "quiescent ?s" "alarms_owned ?s" "qs_supported_versions (env ?s) \<noteq> []"
    using quiescent_env [OF N(1)] N(2,6) assms(2) by (simp_all add: server_SetPacketNum_def alarms_owned_def)
  note L = Listen_ok [OF assms(1) this, of ?a]
  show ?thesis
  proof (cases "\<exists>s. Listen P ?a ?s = Inr (True, s)")
    case False
    with L Inr show ?thesis by (cases "Listen P ?a ?s") (auto split: if_splits)
  next
    case True
    then obtain s where l: "Listen P ?a ?s = Inr (True, s)" by blast
    have life: "server_life P n s" by (rule server_life.listen [OF Inr assms(2) l])
    have "p mod 65536 = 0 \<or> qs_port (env s) = p mod 65536" "registry s (qs_fd (env s)) = Some (This_server, kEpollFlags)"
      using L l port [of "[0, 0, 0, 0]" "word_of_int p"] by (auto simp: uint_word_of_int simp flip: uint_0_iff)
    with l life Inr server_life_round [OF assms(1) life] show ?thesis by simp
  qed
qed

lemma perf_server_started:
  assumes "server_lib_ok P" "versions \<noteq> []" and port: "\<And>a x. endpoint_port (sv_ep P) (IPEndPoint_new (sv_ep P) a x) = x"
  shows "case perf_server_start P init config versions epfd n0 prog args w of
      Inl e \<Rightarrow> benign e
    | Inr (Inl code) \<Rightarrow> code = 1
    | Inr (Inr s) \<Rightarrow> \<exists>p n. server_options prog args = Inr (p, n) \<and> server_life P n s \<and>
        (p mod 65536 = 0 \<or> qs_port (env s) = p mod 65536) \<and> registry s (qs_fd (env s)) = Some (This_server, kEpollFlags) \<and>
        returns_ok (server_life P n) (server_WaitForEvents P s)"
proof (cases "server_options prog args")
  case (Inl x)
  with server_options_result [of prog args] show ?thesis by (cases x) (simp add: perf_server_start_def)
next
  case (Inr x)
  obtain p n where x: "x = (p, n)" by (cases x)
  obtain rc w' where i: "init w = (rc, w')" by (cases "init w")
  show ?thesis
  proof (cases "rc = 0")
    case False
    with Inr x i show ?thesis by (simp add: perf_server_start_def)
  next
    case True
    with serve_ok [OF assms, where p = p and config = config and epfd = epfd and ?n0.0 = n0 and w = w' and n = n] Inr x i show ?thesis
      by (simp add: perf_server_start_def split: sum.splits)
  qed
qed

lemma serve_loop_result:
  assumes P: "server_lib_ok P" and s: "server_life P n s" "serve_loop P s = Some r"
  shows "\<exists>e. r = Inl e \<and> benign e"
proof -
  let ?Q = "\<lambda>P' s r. P' = P \<longrightarrow> server_life P n s \<longrightarrow> (\<exists>e. r = Inl e \<and> benign e)"
  have "?Q P s r"
  proof (rule serve_loop.raw_induct [where P = ?Q, OF _ s(2)], intro impI, goal_cases)
    case (1 f P' s y)
    from server_life_round [OF P 1(4)] show ?case
      by (cases rule: returns_okE) (use 1(1,2,3) in auto)
  qed
  with s(1) show ?thesis by simp
qed




end
