(* ===== verification/Tcp_Perf.thy ===== *)
theory Tcp_Perf
  imports Socket_Utils
begin

text \<open>
  The TCP baseline of the measurements: tcp_perf_client.cc and tcp_perf_server.cc.

  System calls, \<open>rand\<close>, \<open>time\<close> and Chromium's command line are parameters. A program that ends gives its
  exit status. \<open>uint64\<close> is \<open>64 word\<close>, \<open>uint\<close> is \<open>32 word\<close>; \<open>int n = write(...)\<close> narrows to 32 bits. The
  server's once-a-second report of its counter (\<open>alarm_handler\<close>) only prints.
\<close>

record 'w tcp_sys =
  tcp_socket :: "'w \<Rightarrow> int \<times> 'w"
  inet_aton :: "string \<Rightarrow> 32 word option"
  tcp_connect :: "int \<Rightarrow> 32 word \<Rightarrow> 16 word \<Rightarrow> 'w \<Rightarrow> int \<times> 'w"
  tcp_bind :: "int \<Rightarrow> 32 word \<Rightarrow> 16 word \<Rightarrow> 'w \<Rightarrow> int \<times> 'w"
  tcp_listen :: "int \<Rightarrow> int \<Rightarrow> 'w \<Rightarrow> 'w"
  tcp_accept :: "int \<Rightarrow> 'w \<Rightarrow> int \<times> 'w"
  tcp_write :: "int \<Rightarrow> string \<Rightarrow> 'w \<Rightarrow> int \<times> 'w"
  tcp_read :: "int \<Rightarrow> nat \<Rightarrow> 'w \<Rightarrow> int \<times> 'w"
  tcp_close :: "int \<Rightarrow> 'w \<Rightarrow> 'w"
  tcp_time :: "'w \<Rightarrow> int \<times> 'w"
  tcp_rand :: "'w \<Rightarrow> int \<times> 'w"

record command_line =
  GetArgs :: "string list"
  switches :: "string \<Rightarrow> string option"
  StringToUint64 :: "string \<Rightarrow> bool \<times> 64 word"

section \<open>The client\<close>

record tcp_flags =
  FLAGS_total_transfer :: "64 word"
  FLAGS_chunk_size :: "64 word"
  FLAGS_duration :: "64 word"

text \<open>A flag whose switch is absent keeps its default; \<open>None\<close> is the return on a malformed one.\<close>

definition flag_value :: "command_line \<Rightarrow> string \<Rightarrow> 64 word \<Rightarrow> 64 word option" where
  "flag_value line name preset =
     (case switches line name of
        None \<Rightarrow> Some preset
      | Some v \<Rightarrow> let (ok, n) = StringToUint64 line v in if ok then Some n else None)"

definition tcp_flags_of :: "command_line \<Rightarrow> int + (string \<times> tcp_flags)" where
  "tcp_flags_of line =
     (case GetArgs line of
        [] \<Rightarrow> Inl 1
      | address # _ \<Rightarrow>
          (case flag_value line ''t'' (10 * 1000 * 1000) of
             None \<Rightarrow> Inl 1
           | Some amount \<Rightarrow>
               (case flag_value line ''c'' 1000 of
                  None \<Rightarrow> Inl 1
                | Some chunk \<Rightarrow>
                    (case flag_value line ''d'' 0 of
                       None \<Rightarrow> Inl 1
                     | Some duration \<Rightarrow> Inr (address, \<lparr>FLAGS_total_transfer = amount, FLAGS_chunk_size = chunk, FLAGS_duration = duration\<rparr>)))))"

primrec random_chars :: "'w tcp_sys \<Rightarrow> nat \<Rightarrow> 'w \<Rightarrow> string \<times> 'w" where
  "random_chars S 0 w = ([], w)"
| "random_chars S (Suc n) w =
     (let (r, w) = tcp_rand S w; (cs, w) = random_chars S n w in (char_of (97 + nat (r mod 26)) # cs, w))"

definition randomString :: "'w tcp_sys \<Rightarrow> 32 word \<Rightarrow> 'w \<Rightarrow> string \<times> 'w" where
  "randomString S len w = random_chars S (unat len) w"

text \<open>
  The body of both loops. The argument of \<open>randomString\<close> is narrowed to 32 bits while \<open>write\<close> reads the
  whole chunk: from 4 GB on it reads past the buffer.
\<close>

definition send_chunk :: "'w tcp_sys \<Rightarrow> int \<Rightarrow> 64 word \<Rightarrow> 'w \<Rightarrow> (int \<times> 'w) res" where
  "send_chunk S sock chunk_size w =
     (let (out, w) = randomString S (ucast chunk_size) w
      in if length out < unat chunk_size then Inl Dangling
         else let (n, w) = tcp_write S sock out w in Inr (int32_of n, w))"

text \<open>The result is \<open>Some 1\<close> when a write fails and the program exits.\<close>

partial_function (option) transfer_loop ::
  "'w tcp_sys \<Rightarrow> int \<Rightarrow> 64 word \<Rightarrow> 64 word \<Rightarrow> 64 word \<Rightarrow> 'w \<Rightarrow> (int option \<times> 'w) outcome" where
  "transfer_loop S sock amount chunk i w =
     (if i < amount then
        case send_chunk S sock chunk w of
          Inl e \<Rightarrow> Some (Inl e)
        | Inr (n, w) \<Rightarrow> if n < 0 then Some (Inr (Some 1, w)) else transfer_loop S sock amount chunk (i + chunk) w
      else Some (Inr (None, w)))"

partial_function (option) duration_loop ::
  "'w tcp_sys \<Rightarrow> int \<Rightarrow> 64 word \<Rightarrow> int \<Rightarrow> 'w \<Rightarrow> (int option \<times> 'w) outcome" where
  "duration_loop S sock chunk dest w =
     (let (now, w) = tcp_time S w
      in if now < dest then
           case send_chunk S sock chunk w of
             Inl e \<Rightarrow> Some (Inl e)
           | Inr (n, w) \<Rightarrow> if n < 0 then Some (Inr (Some 1, w)) else duration_loop S sock chunk dest w
         else Some (Inr (None, w)))"

definition tcp_client_main :: "'w tcp_sys \<Rightarrow> command_line \<Rightarrow> 'w \<Rightarrow> (int \<times> 'w) outcome" where
  "tcp_client_main S line w =
     (case tcp_flags_of line of
        Inl code \<Rightarrow> Some (Inr (code, w))
      | Inr (address, F) \<Rightarrow>
          let (sock, w) = tcp_socket S w
          in if sock < 0 then Some (Inr (1, w))
             else case inet_aton S address of
                    None \<Rightarrow> Some (Inr (1, w))
                  | Some sin_addr \<Rightarrow>
                      let (rc, w) = tcp_connect S sock sin_addr 4567 w
                      in if rc < 0 then Some (Inr (1, w))
                         else
                           obind (if FLAGS_duration F = 0
                                  then transfer_loop S sock (FLAGS_total_transfer F) (FLAGS_chunk_size F) 0 w
                                  else let (now, w) = tcp_time S w
                                       in duration_loop S sock (FLAGS_chunk_size F) (int64_of (now + uint (FLAGS_duration F))) w)
                             (\<lambda>(code, w). case code of Some c \<Rightarrow> Some (Inr (c, w)) | None \<Rightarrow> Some (Inr (0, tcp_close S sock w))))"

section \<open>The server\<close>

definition BUFFER_SIZE :: nat where "BUFFER_SIZE = 1024"

partial_function (option) receive_loop ::
  "'w tcp_sys \<Rightarrow> int \<Rightarrow> 64 word \<Rightarrow> 'w \<Rightarrow> (int option \<times> 64 word \<times> 'w) outcome" where
  "receive_loop S sock bytes_received w =
     (let (r, w) = tcp_read S sock (BUFFER_SIZE - 1) w; n = int32_of r
      in if n < 0 then Some (Inr (Some 1, bytes_received, w))
         else if n = 0 then Some (Inr (None, bytes_received, w))
         else receive_loop S sock (bytes_received + word_of_int n) w)"

text \<open>The exit status and the bytes counted.\<close>

definition tcp_server_main :: "'w tcp_sys \<Rightarrow> 'w \<Rightarrow> (int \<times> 64 word \<times> 'w) outcome" where
  "tcp_server_main S w =
     (let (listen_socket, w) = tcp_socket S w
      in if listen_socket < 0 then Some (Inr (1, 0, w))
         else let (rc, w) = tcp_bind S listen_socket 0 4567 w
              in if rc < 0 then Some (Inr (1, 0, w))
                 else let w = tcp_listen S listen_socket 1 w; (accepted_socket, w) = tcp_accept S listen_socket w
                      in if accepted_socket < 0 then Some (Inr (1, 0, w))
                         else obind (receive_loop S accepted_socket 0 w) (\<lambda>(code, n, w).
                              case code of
                                Some c \<Rightarrow> Some (Inr (c, n, w))
                              | None \<Rightarrow> Some (Inr (0, n, tcp_close S listen_socket (tcp_close S accepted_socket w)))))"

section \<open>The transfer loop\<close>

text \<open>The reference: a fixed number of chunks.\<close>

primrec send_chunks :: "'w tcp_sys \<Rightarrow> int \<Rightarrow> 64 word \<Rightarrow> nat \<Rightarrow> 'w \<Rightarrow> (int option \<times> 'w) res" where
  "send_chunks S sock chunk 0 w = Inr (None, w)"
| "send_chunks S sock chunk (Suc k) w =
     rbind (send_chunk S sock chunk w) (\<lambda>(n, w). if n < 0 then Inr (Some 1, w) else send_chunks S sock chunk k w)"

text \<open>\<open>chunks t c\<close> is \<open>t / c\<close>, rounded up.\<close>

definition chunks :: "nat \<Rightarrow> nat \<Rightarrow> nat" where
  "chunks t c = (t + c - 1) div c"

lemma chunks_0 [simp]: "chunks 0 c = 0"
  by (cases c) (simp_all add: chunks_def)

lemma chunks_step:
  assumes "0 < c" "0 < t"
  shows "chunks t c = Suc (chunks (t - c) c)"
proof (cases "c \<le> t")
  case True
  have "t + c - 1 = (t - c + c - 1) + c" using True assms by arith
  then have "chunks t c = ((t - c + c - 1) + c) div c" by (simp only: chunks_def)
  also have "\<dots> = Suc (chunks (t - c) c)" using assms(1) by (simp only: chunks_def div_add_self2)
  finally show ?thesis .
next
  case False
  then have "t + c - 1 = (t - 1) + c" "(t - 1) div c = 0" using assms by simp_all
  then have "chunks t c = 1" using assms(1) by (simp only: chunks_def div_add_self2)
  with False show ?thesis by simp
qed

lemma chunks_bounds:
  assumes "0 < c"
  shows "t \<le> chunks t c * c" "chunks t c * c < t + c"
proof -
  define q where "q = chunks t c * c"
  have "q + (t + c - 1) mod c = t + c - 1" by (simp add: q_def chunks_def)
  moreover have "(t + c - 1) mod c < c" using assms by simp
  ultimately have "t \<le> q \<and> q < t + c" using assms by linarith
  then show "t \<le> chunks t c * c" "chunks t c * c < t + c" by (simp_all add: q_def)
qed

lemma transfer_loop_chunks:
  assumes "chunk \<noteq> 0" "unat amount + unat chunk \<le> 2 ^ 64"
  shows "transfer_loop S sock amount chunk i w =
    Some (send_chunks S sock chunk (chunks (unat amount - unat i) (unat chunk)) w)"
proof (induction "unat amount - unat i" arbitrary: i w rule: less_induct)
  case less
  have c: "0 < unat chunk" using assms(1) by (simp add: unat_gt_0)
  show ?case
  proof (cases "i < amount")
    case False
    then show ?thesis by (simp add: transfer_loop.simps [of S sock amount chunk i w] word_less_nat_alt)
  next
    case True
    then have i: "unat i < unat amount" by (simp add: word_less_nat_alt)
    have "unat i + unat chunk < 2 ^ 64" using assms(2) i by linarith
    then have s: "unat (i + chunk) = unat i + unat chunk" by (simp add: unat_word_ariths)
    have k: "chunks (unat amount - unat i) (unat chunk) = Suc (chunks (unat amount - unat (i + chunk)) (unat chunk))"
      using chunks_step [OF c, of "unat amount - unat i"] i s by simp
    show ?thesis
    proof (cases "send_chunk S sock chunk w")
      case (Inl e)
      with True k show ?thesis by (simp add: transfer_loop.simps [of S sock amount chunk i w])
    next
      case (Inr x)
      obtain n w' where x: "x = (n, w')" by (cases x)
      have "unat amount - unat (i + chunk) < unat amount - unat i" using s c i by simp
      from less [OF this, of w'] True Inr x k show ?thesis
        by (simp add: transfer_loop.simps [of S sock amount chunk i w])
    qed
  qed
qed

lemma transfer_loop_zero:
  fixes S :: "'w tcp_sys"
  assumes "transfer_loop S sock amount 0 i w = Some (Inr (None, w'))"
  shows "\<not> i < amount"
proof -
  let ?Q = "\<lambda>(S :: 'w tcp_sys) (sock :: int) (amount :: 64 word) (chunk :: 64 word) i (w :: 'w) (r :: abort + int option \<times> 'w). chunk = 0 \<longrightarrow> (\<exists>w'. r = Inr (None, w')) \<longrightarrow> \<not> i < amount"
  have "?Q S sock amount 0 i w (Inr (None, w'))"
  proof (rule transfer_loop.raw_induct [where P = ?Q, OF _ assms], intro impI, goal_cases)
    case (1 f S sock amount chunk i w y)
    show ?case
    proof
      assume i: "i < amount"
      from 1(2,4) i obtain n u where "send_chunk S sock chunk w = Inr (n, u)"
        "f S sock amount chunk (i + chunk) u = Some y"
        by (auto split: sum.splits if_splits)
      with 1(1) [rule_format, of S sock amount chunk "i + chunk" u y] 1(3,4) i show False by auto
    qed
  qed
  then show ?thesis by simp
qed

section \<open>The receive loop\<close>

text \<open>
  A connected pair of sockets. \<open>left\<close> is the number of bytes under way: \<open>write\<close> takes all it is given, \<open>read\<close>
  gives what is there up to the size of the buffer and 0 at the end of the data.
\<close>

definition tcp_link :: "'w tcp_sys \<Rightarrow> int \<Rightarrow> int \<Rightarrow> ('w \<Rightarrow> nat) \<Rightarrow> bool" where
  "tcp_link S sock peer left \<longleftrightarrow>
     (\<forall>bs w. fst (tcp_write S sock bs w) = int (length bs) \<and> left (snd (tcp_write S sock bs w)) = left w + length bs) \<and>
     (\<forall>w. left (snd (tcp_rand S w)) = left w) \<and>
     (\<forall>k w. 0 \<le> fst (tcp_read S peer k w) \<and> fst (tcp_read S peer k w) \<le> int k \<and>
        (fst (tcp_read S peer k w) = 0 \<longleftrightarrow> left w = 0 \<or> k = 0) \<and>
        int (left (snd (tcp_read S peer k w))) + fst (tcp_read S peer k w) = int (left w))"

lemma receive_loop_counts:
  assumes L: "tcp_link S sock peer left"
  shows "\<exists>w'. receive_loop S peer b w = Some (Inr (None, b + of_nat (left w), w')) \<and> left w' = 0"
proof (induction "left w" arbitrary: b w rule: less_induct)
  case less
  obtain n u where r: "tcp_read S peer (BUFFER_SIZE - 1) w = (n, u)" by (cases "tcp_read S peer (BUFFER_SIZE - 1) w")
  have n: "0 \<le> n" "n \<le> 1023" "n = 0 \<longleftrightarrow> left w = 0" "int (left u) + n = int (left w)"
    using L r unfolding tcp_link_def by (auto simp: BUFFER_SIZE_def dest!: spec [of _ 1023] spec [of _ w])
  then have [simp]: "int32_of n = n" by (intro int32_of_id) (simp add: in_int32_def)
  have [simp]: "int32_of 0 = 0" by (simp add: in_int32_def)
  show ?case
  proof (cases "n = 0")
    case True
    with n have "left w = 0" "left u = 0" by auto
    with True r show ?thesis by (subst receive_loop.simps) simp
  next
    case False
    with n have less': "left u < left w" "0 < n" by auto
    from less [OF less'(1), of "b + word_of_int n"] obtain w' where
      "receive_loop S peer (b + word_of_int n) u = Some (Inr (None, b + word_of_int n + of_nat (left u), w'))" "left w' = 0" by blast
    moreover have "word_of_int n + of_nat (left u) = (of_nat (left w) :: 64 word)"
      using n(4) by (metis add.commute of_int_add of_int_of_nat_eq)
    ultimately show ?thesis using less'(2) r by (subst receive_loop.simps) (simp add: add.assoc)
  qed
qed

lemma random_chars_link:
  assumes "tcp_link S sock peer left"
  shows "length (fst (random_chars S n w)) = n \<and> left (snd (random_chars S n w)) = left w"
proof (induction n arbitrary: w)
  case (Suc n)
  have "left (snd (tcp_rand S w)) = left w" using assms unfolding tcp_link_def by blast
  with Suc.IH [of "snd (tcp_rand S w)"] show ?case by (simp add: split_beta Let_def)
qed simp

lemma send_chunk_link:
  assumes L: "tcp_link S sock peer left" and c: "unat chunk < 2 ^ 31"
  obtains n w' where "send_chunk S sock chunk w = Inr (n, w')" "0 \<le> n" "left w' = left w + unat chunk"
proof -
  obtain out u where o: "randomString S (ucast chunk) w = (out, u)" by (cases "randomString S (ucast chunk) w")
  have "unat (ucast chunk :: 32 word) = unat chunk" using c by (simp add: unsigned_ucast_eq take_bit_nat_eq_self)
  with random_chars_link [OF L, of "unat chunk" w] o have l: "length out = unat chunk" "left u = left w"
    by (simp_all add: randomString_def)
  have w: "fst (tcp_write S sock out u) = int (length out)" "left (snd (tcp_write S sock out u)) = left u + length out"
    using L unfolding tcp_link_def by blast+
  have "int32_of (int n) = int n" if "n < 2 ^ 31" for n by (rule int32_of_id) (use that in \<open>simp add: in_int32_def\<close>)
  from this [OF c] that o l w show ?thesis by (simp add: send_chunk_def split_beta)
qed

lemma send_chunks_link:
  assumes L: "tcp_link S sock peer left" and c: "unat chunk < 2 ^ 31"
  shows "\<exists>w'. send_chunks S sock chunk k w = Inr (None, w') \<and> left w' = left w + k * unat chunk"
proof (induction k arbitrary: w)
  case (Suc k)
  obtain n u where u: "send_chunk S sock chunk w = Inr (n, u)" "0 \<le> n" "left u = left w + unat chunk"
    by (rule send_chunk_link [OF L c])
  from Suc.IH [of u] u show ?case by auto
qed simp

section \<open>Properties\<close>

text \<open>A link that counts the bytes under way.\<close>

definition pipe_sys :: "nat tcp_sys" where
  "pipe_sys = \<lparr>tcp_socket = (\<lambda>w. (3, w)), inet_aton = (\<lambda>s. Some 0), tcp_connect = (\<lambda>s a p w. (0, w)),
     tcp_bind = (\<lambda>s a p w. (0, w)), tcp_listen = (\<lambda>s n w. w), tcp_accept = (\<lambda>s w. (4, w)),
     tcp_write = (\<lambda>s bs w. (int (length bs), w + length bs)),
     tcp_read = (\<lambda>s k w. (int (min k w), w - min k w)), tcp_close = (\<lambda>s w. w),
     tcp_time = (\<lambda>w. (0, w)), tcp_rand = (\<lambda>w. (7, w))\<rparr>"

lemma pipe_link: "tcp_link pipe_sys sock peer id"
  by (auto simp: tcp_link_def pipe_sys_def)

text \<open>
  C22: The transfer loop of the TCP client, which counts in 64-bit unsigned steps of the chunk size, is
  the same as writing total/chunk chunks, rounded up, stopping at a failed write, as long as total and
  chunk together fit in 64 bits. With chunk size 0 and something to send, it never completes.
\<close>

theorem tcp_transfer_equivalent:
  assumes "unat amount + unat chunk \<le> 2 ^ 64"
  shows "if chunk = 0 then amount = 0 \<or> (\<forall>w'. transfer_loop S sock amount chunk 0 w \<noteq> Some (Inr (None, w')))
    else transfer_loop S sock amount chunk 0 w =
      Some (send_chunks S sock chunk ((unat amount + unat chunk - 1) div unat chunk) w)"
proof (cases "chunk = 0")
  case True
  with transfer_loop_zero [of S sock amount 0 w] show ?thesis by (auto simp: word_gt_0)
next
  case False
  with transfer_loop_chunks [OF False assms, of S sock 0 w] show ?thesis by (simp add: chunks_def)
qed

theorem tcp_transfer_equivalent_witness:
  "transfer_loop pipe_sys 3 2500 1000 0 0 = Some (send_chunks pipe_sys 3 1000 3 0)"
  using tcp_transfer_equivalent [of 2500 1000 pipe_sys 3 0] by simp



end
