(* ===== verification/Epoll_Wake.thy ===== *)
theory Epoll_Wake
  imports Epoll_Loop
begin

unbundle bit_operations_syntax

text \<open>
  The operations of \<open>EpollServer\<close> on descriptors of the kernel (net/tools/epoll_server/epoll_server.cc and .h):
  blocking mode, and the pipe that was meant to wake the server. The port to netdp keeps them but calls
  none: the pipe is never created, so \<open>Wake\<close> writes to -1.

  \<open>kernel_fds\<close> are the kernel's calls. An \<open>int\<close> with flags is a \<open>32 word\<close>, \<open>-1\<close> being all ones.
\<close>

record 'w kernel_fds =
  fcntl_getfl :: "int \<Rightarrow> 'w \<Rightarrow> 32 word \<times> 'w"
  fcntl_setfl :: "int \<Rightarrow> 32 word \<Rightarrow> 'w \<Rightarrow> 32 word \<times> 'w"
  sys_read :: "int \<Rightarrow> nat \<Rightarrow> 'w \<Rightarrow> int \<times> 'w"
  sys_write :: "int \<Rightarrow> string \<Rightarrow> 'w \<Rightarrow> int \<times> 'w"

definition O_NONBLOCK :: "32 word" where "O_NONBLOCK = 2048"

definition GetFlags :: "'w kernel_fds \<Rightarrow> int \<Rightarrow> 'w \<Rightarrow> 32 word \<times> 'w" where
  "GetFlags K fd w = fcntl_getfl K fd w"

definition SetFlags :: "'w kernel_fds \<Rightarrow> int \<Rightarrow> 32 word \<Rightarrow> 'w \<Rightarrow> 32 word \<times> 'w" where
  "SetFlags K fd flags w = fcntl_setfl K fd (flags OR O_NONBLOCK) w"

definition SetNonblocking :: "'w kernel_fds \<Rightarrow> int \<Rightarrow> 'w \<Rightarrow> 'w res" where
  "SetNonblocking K fd w =
     (let (flags, w) = GetFlags K fd w
      in if flags = -1 then Inl (Log_fatal ''Error doing fcntl(fd, F_GETFL, 0)'')
         else if flags AND O_NONBLOCK = 0 then
           let (flags, w) = SetFlags K fd (flags OR O_NONBLOCK) w
           in if flags = -1 then Inl (Log_fatal ''Error doing fcntl(fd, F_SETFL)'') else Inr w
         else Inr w)"

definition Wake :: "'w kernel_fds \<Rightarrow> ('cb, 'al, 'w) es \<Rightarrow> ('cb, 'al, 'w) es" where
  "Wake K s = s\<lparr>env := snd (sys_write K (write_fd s) ''d'' (env s))\<rparr>"

text \<open>\<open>ReadPipeCallback::OnEvent\<close> reads \<open>sizeof(int)\<close> bytes at a time until nothing comes.\<close>

partial_function (option) read_pipe_loop :: "'w kernel_fds \<Rightarrow> int \<Rightarrow> 'w \<Rightarrow> 'w option" where
  "read_pipe_loop K fd w =
     (let (data_read, w) = sys_read K fd 4 w in if data_read > 0 then read_pipe_loop K fd w else Some w)"

definition ReadPipeCallback_OnEvent :: "'w kernel_fds \<Rightarrow> ('cb, 'al, 'w) es \<Rightarrow> int \<Rightarrow> ('cb, 'al, 'w) es option" where
  "ReadPipeCallback_OnEvent K s fd = map_option (\<lambda>w. s\<lparr>env := w\<rparr>) (read_pipe_loop K fd (env s))"

section \<open>Lemmas\<close>

text \<open>Whenever \<open>SetNonblocking\<close> returns, the descriptor is non-blocking, and its other flags are kept.\<close>

lemma SetNonblocking_sets:
  assumes law: "\<And>fd w. fcntl_getfl K fd w = (fl w fd, w)" "\<And>fd f w. fst (fcntl_setfl K fd f w) \<noteq> -1 \<Longrightarrow> fl (snd (fcntl_setfl K fd f w)) fd = f"
    and r: "SetNonblocking K fd w = Inr w'"
  shows "fl w' fd = fl w fd OR O_NONBLOCK"
proof (cases "fl w fd AND O_NONBLOCK = 0")
  case True
  let ?f = "fl w fd OR O_NONBLOCK OR O_NONBLOCK"
  have "fst (fcntl_setfl K fd ?f w) \<noteq> -1" "w' = snd (fcntl_setfl K fd ?f w)"
    using r True law(1) by (auto simp: SetNonblocking_def GetFlags_def SetFlags_def split_beta Let_def split: if_splits)
  with law(2) [of fd ?f w] show ?thesis by (simp add: or.assoc)
next
  case False
  have w': "w' = w" using r False law(1) by (auto simp: SetNonblocking_def GetFlags_def split: if_splits)
  have bit: "bit O_NONBLOCK n \<longleftrightarrow> n = 11" for n
  proof -
    have "O_NONBLOCK = 2 ^ 11" by (simp add: O_NONBLOCK_def)
    moreover have "bit (2 ^ 11 :: 32 word) n \<longleftrightarrow> n = 11" by (subst bit_exp_iff) auto
    ultimately show ?thesis by (simp only:)
  qed
  obtain n where "bit (fl w fd AND O_NONBLOCK) n" using False bit_eqI [of "fl w fd AND O_NONBLOCK" 0] by auto
  then have "bit (fl w fd) 11" by (auto simp: bit_and_iff bit)
  then have "fl w fd OR O_NONBLOCK = fl w fd" by (intro bit_eqI) (auto simp: bit_or_iff bit)
  with w' show ?thesis by simp
qed

text \<open>Draining the pipe ends when it holds finitely many bytes.\<close>

lemma read_pipe_drains:
  assumes law: "\<And>w n u. sys_read K fd 4 w = (n, u) \<Longrightarrow> 0 < n \<Longrightarrow> (held u :: nat) < held w"
  shows "\<exists>u. read_pipe_loop K fd w = Some u \<and> (\<exists>v. u = snd (sys_read K fd 4 v) \<and> fst (sys_read K fd 4 v) \<le> 0)"
proof (induction "held w" arbitrary: w rule: less_induct)
  case less
  obtain n u where r: "sys_read K fd 4 w = (n, u)" by (cases "sys_read K fd 4 w")
  show ?case
  proof (cases "0 < n")
    case True
    from less [OF law [OF r True]] r True show ?thesis by (simp add: read_pipe_loop.simps [of K fd w])
  next
    case False
    with r show ?thesis by (auto simp: read_pipe_loop.simps [of K fd w] intro!: exI [of _ w])
  qed
qed

end
