(* ===== verification/Spec2Isabelle.thy ===== *)
theory Spec2Isabelle
  imports Perf_Mains Tcp_Perf Epoll_Wake
begin

text \<open>
  Verification of cmuquic: the QUIC client and server of libquic's toy tools, ported to the user-space
  network stack netdp, with the event loop they run on and the programs that measure them.

  \<^bold>\<open>The program and its model.\<close> The source files are under src/net/tools and src/.

  \<^item> \<^bold>\<open>Event loop\<close>, epoll_server/epoll_server.cc and .h. The state is the record \<open>EpollServer\<close> (\<open>Epoll_Server\<close>), an
    extension of the record of the two intrusive lists (\<open>Ready_List\<close>): callback entries live in a store of nodes
    and the BSD LIST macros work on its links, so a use of an erased entry is the result \<open>Dangling\<close>. \<open>Epoll_Server\<close>
    has the operations on descriptors, \<open>Epoll_Alarm\<close> alarms and the alarm loop with its iterators,
    \<open>Epoll_Loop\<close> the ready loop, one round (\<open>WaitForEventsAndExecuteCallbacks\<close>) and the destructor,
    \<open>Event_Recorder\<close> the event recorder and the printed diagnostics, \<open>Epoll_Wake\<close> the leftovers on kernel
    descriptors. The world \<open>'w\<close> behind netdp is a field of the state, the netdp calls are parameters.
  \<^item> \<^bold>\<open>Sockets\<close>, quic/quic_socket_utils.cc (\<open>Socket_Utils\<close>) and quic_default_packet_writer.cc (\<open>Packet_Writer\<close>).
  \<^item> \<^bold>\<open>Clock and alarms for libquic\<close>, quic_epoll_clock.cc and quic_epoll_connection_helper.cc (\<open>Connection_Helper\<close>).
  \<^item> \<^bold>\<open>Time-wait list\<close>, quic_time_wait_list_manager.cc (\<open>Time_Wait\<close>), and \<^bold>\<open>dispatcher\<close>, quic_dispatcher.cc (\<open>Dispatcher\<close>).
    Sessions are objects in a store with addresses; libquic's framer and connections are parameters that
    may call back in any order (interaction trees \<open>client\<close>).
  \<^item> \<^bold>\<open>Server\<close>, quic_server.cc (\<open>Server\<close>), with session and stream, quic_server_session.cc and quic_server_stream.cc
    (\<open>Server_Stream\<close>). The server object is the world of its own event loop: its \<open>OnEvent\<close> and the alarms of
    dispatcher and time-wait list are the callbacks. \<open>Net_Interface\<close> has what server and client need of netdp
    and libquic, and lifts the netdp calls into these worlds.
  \<^item> \<^bold>\<open>Client\<close>, quic_client.cc, quic_client_session.cc and quic_client_stream.cc (\<open>Client\<close>).
  \<^item> \<^bold>\<open>Programs\<close>, quic_perf_server.cc and quic_perf_client.cc (\<open>Perf_Options\<close>, \<open>Perf_Mains\<close>), tcp_perf_client.cc and
    tcp_perf_server.cc (\<open>Tcp_Perf\<close>).

  \<open>Cmuquic_Prelude\<close> holds the shared vocabulary: \<open>'a res\<close> for code that may stop abnormally, \<open>'a outcome\<close> for loops
  that may not end, \<open>benign\<close> for the stops the code itself asks for (CHECK, LOG(FATAL)), \<open>returns_ok\<close> for a run that
  ends with a result as specified or a benign stop. DCHECK and LOG(DFATAL) do not stop a release build.

  \<^bold>\<open>Interfaces.\<close> Where a part relies on another there is a locale, interpreted on the model's definitions.
  \<open>ready_list_interface\<close> is what the event loop needs of the intrusive lists, interpreted on the LIST macros.
  \<open>event_callbacks\<close> and \<open>alarm_callbacks\<close> are the contracts of the two kinds of callbacks; \<open>event_loop\<close> joins them for one
  round. They are interpreted on all bodies built of the public operations, \<open>alarm_callbacks\<close> also on libquic's alarms
  (\<open>Connection_Helper\<close>). \<open>env_callbacks\<close> of \<open>Epoll_Env\<close>, which extends \<open>env_keeping\<close>, is for callbacks that need an invariant
  of their own object; it gives \<open>event_loop\<close> by a sublocale and is interpreted on the server and on the client.
  \<open>packet_writer\<close> is what time-wait list and dispatcher write to, interpreted on the default writer.

  \<^bold>\<open>What is proved.\<close>

  \<^item> \<^emph>\<open>Event loop.\<close> \<open>Epoll_Invariant\<close>: every operation keeps the ready lists and the descriptor map well-formed.
    \<open>Epoll_Registry\<close>: the operations refine a map from descriptors to callbacks and masks, and make the calls
    this map prescribes. \<open>Epoll_Callbacks\<close>, \<open>Epoll_Ready_Correct\<close>, \<open>Epoll_Alarm_Correct\<close>, \<open>Epoll_Round\<close>: callbacks may do
    anything through the public operations and each loop still ends and touches no erased entry.
    \<open>Epoll_Properties\<close> states the results.
  \<^item> \<^emph>\<open>Time-wait list and dispatcher.\<close> The lists stay in step with the sessions; packets go where their public header
    says; answers back off; expiry, trimming and shutdown do what they promise (\<open>Time_Wait\<close>, \<open>Dispatcher_Correct\<close>,
    \<open>Dispatcher_Properties\<close>). \<open>Dispatcher_World\<close> shows that dispatching moves the network only forward.
  \<^item> \<^emph>\<open>Server.\<close> \<open>Server_Correct\<close> discharges the contract of the event loop for the server; \<open>Server_Properties\<close> has
    listening, event handling, the endless main loop and shutdown. \<open>Alarm_Replay\<close> is shared with the client.
  \<^item> \<^emph>\<open>Client and programs.\<close> \<open>Client_Correct\<close> and \<open>Client_Properties\<close> do the same for the client; \<open>Perf_Mains\<close> composes option
    handling, client and server to the main programs; \<open>Tcp_Perf\<close> relates both ends of a TCP transfer.

  \<^bold>\<open>Loops and bounds.\<close> A loop whose end depends on callbacks or the network is a \<open>partial_function\<close>, \<open>None\<close> meaning that it
  does not return; that it returns is a theorem (\<open>returns_ok\<close>), or, where the network decides (\<open>Connect\<close>, waiting for the
  server's answer), the theorem says that not returning means every number of rounds leaves the condition
  of the loop true. No fuel is used. Times are unbounded integers where the source has int64 microseconds,
  except where wrap-around is written out; masks, counters and sizes are words of their width.

  \<^bold>\<open>Hypotheses on code outside the repository.\<close> \<open>dsp_lib_ok\<close>, \<open>server_lib_ok\<close>, \<open>cl_lib_ok\<close> collect them: QuicTime behaves
  like integers; connections abort only by CHECK; alarms are set for the future while they fire; a
  successful read takes a packet off the queue and writing adds none. Witnesses run the theorems
  on small concrete libraries and networks that satisfy them.

  \<^bold>\<open>Not modelled.\<close> libquic (framer, crypto, connections, sessions' base class) and netdp are not in the repository.
  The server's model leaves out alarms that libquic's connections own. Code under \<open>#if 0\<close> is not compiled.
  Logging is modelled only where it is the result (recorder, usage text). The recorder is modelled as a
  component; its hooks in the event loop, compiled only with EPOLL_SERVER_EVENT_TRACING, are not. Signal
  handlers, build files, measurement scripts and documents have no model.
\<close>

end
